(* ===== verification/Prelude.thy ===== *)
theory Prelude
  imports Main "HOL-Library.Word"
begin

text \<open>
  Shared vocabulary of the development.

  \<^item> the error values of the C++ code (\<open>cpp_error\<close>): the exceptions it throws with
    their messages, and the undefined behaviours it can run into, kept apart by kind;
  \<^item> the state-and-exception programs \<open>('s, 'a) sx\<close>: a C++ member function that may
    throw leaves the object as it was mutated up to the throw, so the state is returned
    with the error as well;
  \<^item> \<open>std::size_t\<close> arithmetic on \<open>nat\<close> with the wrap-around at 64 bits written out;
  \<^item> \<open>std::unordered_map\<close> as an association list whose order is the iteration order;
  \<^item> \<open>std::to_string\<close> and the conversions between characters and bytes.
\<close>

unbundle bit_operations_syntax

named_theorems sx_simps "evaluation of state-and-exception programs"
named_theorems um_simps "lookup and update of unordered maps"

section \<open>Errors\<close>

datatype ub_kind =
    Out_of_bounds
  | Overlapping_copy
  | Null_deref
  | Uninitialised_deref
  | Dangling_pointer
  | Invalid_iterator
  | Unrepresentable_value

datatype cpp_error =
    Runtime_error string
  | Invalid_argument
  | Out_of_range
  | Net_exception
  | UB ub_kind

text \<open>\<open>Net_exception\<close> is any exception the socket library throws (a \<open>Poco::Exception\<close>).\<close>

text \<open>An error that is undefined behaviour rather than a thrown exception.\<close>

fun is_ub :: "cpp_error \<Rightarrow> bool" where
  "is_ub (UB k) = True"
| "is_ub (Runtime_error m) = False"
| "is_ub Invalid_argument = False"
| "is_ub Out_of_range = False"
| "is_ub Net_exception = False"

text \<open>A raw pointer member: never assigned, null, or pointing to an object.\<close>

datatype 'a pointer = Uninit | Null | Ptr 'a

section \<open>State-and-exception programs\<close>

type_synonym ('s, 'a) sx = "'s \<Rightarrow> (cpp_error + 'a) \<times> 's"

definition sx_return :: "'a \<Rightarrow> ('s, 'a) sx" where
  "sx_return x = (\<lambda>s. (Inr x, s))"

definition sx_throw :: "cpp_error \<Rightarrow> ('s, 'a) sx" where
  "sx_throw e = (\<lambda>s. (Inl e, s))"

definition sx_bind :: "('s, 'a) sx \<Rightarrow> ('a \<Rightarrow> ('s, 'b) sx) \<Rightarrow> ('s, 'b) sx" where
  "sx_bind m f = (\<lambda>s. case m s of (Inl e, s') \<Rightarrow> (Inl e, s') | (Inr x, s') \<Rightarrow> f x s')"

definition sx_seq :: "('s, 'a) sx \<Rightarrow> ('s, 'b) sx \<Rightarrow> ('s, 'b) sx" where
  "sx_seq m n = sx_bind m (\<lambda>_. n)"

definition sx_modify :: "('s \<Rightarrow> 's) \<Rightarrow> ('s, unit) sx" where
  "sx_modify f = (\<lambda>s. (Inr (), f s))"

definition sx_gets :: "('s \<Rightarrow> 'a) \<Rightarrow> ('s, 'a) sx" where
  "sx_gets f = (\<lambda>s. (Inr (f s), s))"

lemma sx_return_apply [sx_simps]: "sx_return x s = (Inr x, s)"
  by (simp add: sx_return_def)

lemma sx_throw_apply [sx_simps]: "sx_throw e s = (Inl e, s)"
  by (simp add: sx_throw_def)

lemma sx_modify_apply [sx_simps]: "sx_modify f s = (Inr (), f s)"
  by (simp add: sx_modify_def)

lemma sx_gets_apply [sx_simps]: "sx_gets f s = (Inr (f s), s)"
  by (simp add: sx_gets_def)

lemma sx_bind_Inr [sx_simps]: "m s = (Inr x, s') \<Longrightarrow> sx_bind m f s = f x s'"
  by (simp add: sx_bind_def)

lemma sx_bind_Inl [sx_simps]: "m s = (Inl e, s') \<Longrightarrow> sx_bind m f s = (Inl e, s')"
  by (simp add: sx_bind_def)

lemma sx_seq_Inr [sx_simps]: "m s = (Inr x, s') \<Longrightarrow> sx_seq m n s = n s'"
  by (simp add: sx_seq_def sx_bind_def)

lemma sx_seq_Inl [sx_simps]: "m s = (Inl e, s') \<Longrightarrow> sx_seq m n s = (Inl e, s')"
  by (simp add: sx_seq_def sx_bind_def)

section \<open>Sizes\<close>

text \<open>
  \<open>std::size_t\<close> is a 64-bit unsigned integer. A size is a \<open>nat\<close> below
  \<open>size_modulus\<close>; sums and differences wrap.
\<close>

definition size_modulus :: nat where
  "size_modulus = 18446744073709551616"

definition size_add :: "nat \<Rightarrow> nat \<Rightarrow> nat" where
  "size_add a b = (a + b) mod size_modulus"

definition size_sub :: "nat \<Rightarrow> nat \<Rightarrow> nat" where
  "size_sub a b = (a + (size_modulus - b)) mod size_modulus"

lemma size_modulus_eq: "size_modulus = 2 ^ 64"
  by (simp add: size_modulus_def)

lemma size_add_small [simp]: "a + b < size_modulus \<Longrightarrow> size_add a b = a + b"
  by (simp add: size_add_def)

lemma size_sub_small [simp]:
  assumes "b \<le> a" and "a < size_modulus"
  shows "size_sub a b = a - b"
proof -
  from assms have "a + (size_modulus - b) = size_modulus + (a - b)" by simp
  then have "size_sub a b = (size_modulus + (a - b)) mod size_modulus"
    by (simp only: size_sub_def)
  also have "\<dots> = (a - b) mod size_modulus" by (rule mod_add_self1)
  also have "\<dots> = a - b" using assms by simp
  finally show ?thesis .
qed

lemma size_sub_wraps:
  assumes "a < b" and "b < size_modulus"
  shows "size_sub a b = size_modulus - (b - a)"
  using assms by (simp add: size_sub_def)

section \<open>Unordered maps\<close>

text \<open>
  A \<open>std::unordered_map\<close> is an association list with distinct keys. The order of the list
  is the order in which an iterator visits the entries; C++ leaves it open, so no theorem
  relies on a particular order. Writing to an existing key keeps its place; a new key goes
  to the front (where libstdc++ puts a key whose bucket is empty).
\<close>

type_synonym ('k, 'v) umap = "('k \<times> 'v) list"

fun um_find :: "('k, 'v) umap \<Rightarrow> 'k \<Rightarrow> 'v option" where
  "um_find [] k = None"
| "um_find ((k', v) # m) k = (if k' = k then Some v else um_find m k)"

fun um_replace :: "'k \<Rightarrow> 'v \<Rightarrow> ('k, 'v) umap \<Rightarrow> ('k, 'v) umap" where
  "um_replace k v [] = []"
| "um_replace k v ((k', v') # m) =
     (if k' = k then (k, v) # m else (k', v') # um_replace k v m)"

definition um_set :: "'k \<Rightarrow> 'v \<Rightarrow> ('k, 'v) umap \<Rightarrow> ('k, 'v) umap" where
  "um_set k v m = (if um_find m k = None then (k, v) # m else um_replace k v m)"

fun um_erase :: "'k \<Rightarrow> ('k, 'v) umap \<Rightarrow> ('k, 'v) umap" where
  "um_erase k [] = []"
| "um_erase k ((k', v) # m) = (if k' = k then m else (k', v) # um_erase k m)"

definition um_keys :: "('k, 'v) umap \<Rightarrow> 'k set" where
  "um_keys m = fst ` set m"

definition um_wf :: "('k, 'v) umap \<Rightarrow> bool" where
  "um_wf m = distinct (map fst m)"

lemma um_wf_Nil [simp, um_simps]: "um_wf []"
  by (simp add: um_wf_def)

lemma um_wf_Cons [um_simps]: "um_wf ((k, v) # m) \<longleftrightarrow> k \<notin> fst ` set m \<and> um_wf m"
  by (simp add: um_wf_def)

lemma um_find_None_iff: "um_find m k = None \<longleftrightarrow> k \<notin> fst ` set m"
  by (induction m k rule: um_find.induct) auto

lemma um_find_Some_in: "um_find m k = Some v \<Longrightarrow> (k, v) \<in> set m"
  by (induction m k rule: um_find.induct) (auto split: if_splits)

lemma um_find_in: "um_wf m \<Longrightarrow> (k, v) \<in> set m \<Longrightarrow> um_find m k = Some v"
  by (induction m k rule: um_find.induct) (auto simp: um_wf_def rev_image_eqI)

lemma um_find_iff: "um_wf m \<Longrightarrow> um_find m k = Some v \<longleftrightarrow> (k, v) \<in> set m"
  using um_find_Some_in um_find_in by metis

lemma fst_um_replace [um_simps]: "map fst (um_replace k v m) = map fst m"
  by (induction k v m rule: um_replace.induct) auto

lemma um_wf_replace: "um_wf (um_replace k v m) \<longleftrightarrow> um_wf m"
  by (simp add: um_wf_def fst_um_replace)

lemma um_find_replace: "um_find (um_replace k v m) k' =
    (if k' = k \<and> um_find m k \<noteq> None then Some v else um_find m k')"
  by (induction k v m rule: um_replace.induct) auto

lemma um_find_set [um_simps]: "um_find (um_set k v m) k' = (if k' = k then Some v else um_find m k')"
  by (auto simp: um_set_def um_find_replace)

lemma um_wf_set [um_simps]: "um_wf m \<Longrightarrow> um_wf (um_set k v m)"
  by (auto simp: um_set_def um_wf_def fst_um_replace um_find_None_iff)

lemma set_um_erase: "set (um_erase k m) \<subseteq> set m"
  by (induction k m rule: um_erase.induct) auto

lemma um_wf_erase [um_simps]: "um_wf m \<Longrightarrow> um_wf (um_erase k m)"
  by (induction k m rule: um_erase.induct) (use set_um_erase in \<open>fastforce simp: um_wf_def\<close>)+

lemma um_find_erase [um_simps]:
  "um_wf m \<Longrightarrow> um_find (um_erase k m) k' = (if k' = k then None else um_find m k')"
  by (induction k m rule: um_erase.induct) (force simp: um_wf_def um_find_None_iff)+

lemma fst_set_um_set: "fst ` set (um_set k v m) = insert k (fst ` set m)"
proof -
  have "x \<in> fst ` set (um_set k v m) \<longleftrightarrow> x \<in> insert k (fst ` set m)" for x
    using um_find_None_iff [of "um_set k v m" x] um_find_None_iff [of m x]
    by (auto simp: um_find_set split: if_splits)
  then show ?thesis by blast
qed

lemma um_keys_set [um_simps]: "um_keys (um_set k v m) = insert k (um_keys m)"
  by (simp add: um_keys_def fst_set_um_set)

lemma um_find_key: "um_find m k \<noteq> None \<longleftrightarrow> k \<in> um_keys m"
  by (simp add: um_keys_def um_find_None_iff)

text \<open>How often a property holds in a map, and how a write changes the number.\<close>

definition um_count :: "('v \<Rightarrow> bool) \<Rightarrow> ('k, 'v) umap \<Rightarrow> nat" where
  "um_count P m = length (filter (\<lambda>(k, v). P v) m)"

lemma um_count_Nil [simp]: "um_count P [] = 0"
  by (simp add: um_count_def)

lemma um_count_Cons [simp]:
  "um_count P ((k, v) # m) = (if P v then Suc (um_count P m) else um_count P m)"
  by (simp add: um_count_def)

lemma um_count_le_length: "um_count P m \<le> length m"
  by (simp add: um_count_def)

lemma um_count_replace:
  "um_find m k = Some v' \<Longrightarrow>
   um_count P (um_replace k v m) + (if P v' then 1 else 0) = um_count P m + (if P v then 1 else 0)"
  by (induction k v m rule: um_replace.induct) (auto split: if_splits)

lemma length_um_replace [simp]: "length (um_replace k v m) = length m"
  by (induction k v m rule: um_replace.induct) auto

lemma length_um_set: "length (um_set k v m) = (if um_find m k = None then Suc (length m) else length m)"
  by (simp add: um_set_def)

section \<open>Bytes, characters and decimal strings\<close>

type_synonym byte = "8 word"

definition byte_of_char :: "char \<Rightarrow> byte" where
  "byte_of_char c = word_of_nat (of_char c)"

definition char_of_byte :: "byte \<Rightarrow> char" where
  "char_of_byte b = char_of (unat b)"

lemma char_of_byte_of_char [simp]: "char_of_byte (byte_of_char c) = c"
proof -
  have "(of_char c :: nat) < 256"
    using nat_of_char_less_256 [of c] by simp
  then have "unat (byte_of_char c) = of_char c"
    by (simp add: byte_of_char_def unat_of_nat take_bit_eq_mod)
  then show ?thesis by (simp add: char_of_byte_def)
qed

lemma map_char_of_byte_of_char [simp]: "map (char_of_byte \<circ> byte_of_char) s = s"
  by (induction s) auto

text \<open>\<open>std::to_string\<close>: decimal digits, most significant first.\<close>

definition digit_char :: "nat \<Rightarrow> char" where
  "digit_char d = char_of (48 + d)"

fun to_string_nat :: "nat \<Rightarrow> string" where
  "to_string_nat n =
     (if n < 10 then [digit_char n] else to_string_nat (n div 10) @ [digit_char (n mod 10)])"

declare to_string_nat.simps [simp del]

definition to_string_int :: "int \<Rightarrow> string" where
  "to_string_int i = (if i < 0 then CHR ''-'' # to_string_nat (nat (- i)) else to_string_nat (nat i))"

text \<open>\<open>char\<close> is signed: what an opcode becomes as an \<open>int\<close> or as an index.\<close>

lemma unat_byte_less: "unat (b :: byte) < 256"
  using unsigned_less [of b, where 'a = nat] by simp

lemma sint_byte: "sint (b :: byte) = (if unat b < 128 then int (unat b) else int (unat b) - 256)"
proof -
  define k where "k = unat b"
  have u: "uint b = int k" by (simp add: k_def)
  have k: "k < 256" unfolding k_def by (rule unat_byte_less)
  have "sint b = (int k + 128) mod 256 - 128"
    by (simp add: sint_uint signed_take_bit_eq_take_bit_shift take_bit_eq_mod u)
  moreover have "(int k + 128) mod 256 = (if k < 128 then int k + 128 else int k - 128)"
  proof (cases "k < 128")
    case False
    have "(int k + 128) mod 256 = ((int k - 128) + 256) mod 256" by (simp add: algebra_simps)
    also have "\<dots> = (int k - 128) mod 256" by (rule mod_add_self2)
    also have "\<dots> = int k - 128" using k False by (intro mod_pos_pos_trivial) auto
    finally show ?thesis using False by simp
  qed simp
  ultimately have "sint b = (if k < 128 then int k else int k - 256)" by auto
  then show ?thesis by (simp only: k_def)
qed

lemma byte_mod_wide:
  assumes "k < 256" and "256 \<le> m"
  shows "(if k < 128 then int k else int k - 256) mod m = (if k < 128 then int k else int k + (m - 256))"
proof (cases "k < 128")
  case True
  then show ?thesis using assms by (simp add: mod_pos_pos_trivial)
next
  case False
  have "(int k - 256) mod m = ((int k + (m - 256)) + (- 1) * m) mod m"
    by (simp add: algebra_simps)
  also have "\<dots> = (int k + (m - 256)) mod m" by (rule mod_mult_self1)
  also have "\<dots> = int k + (m - 256)" using assms by (intro mod_pos_pos_trivial) auto
  finally show ?thesis using False by simp
qed

lemma uint_scast_byte:
  "uint (scast (b :: byte) :: 'a::len word) =
     (if unat b < 128 then int (unat b) else int (unat b) - 256) mod 2 ^ LENGTH('a)"
  unfolding scast_eq uint_word_of_int sint_byte ..

lemma unat_scast_byte:
  "unat (scast (b :: byte) :: 64 word) = (if unat b < 128 then unat b else unat b + 18446744073709551360)"
  using byte_mod_wide [OF unat_byte_less [of b], of "2 ^ 64"]
  unfolding unat_eq_nat_uint [of "scast b"] uint_scast_byte by (auto simp: nat_add_distrib)

lemma unat_scast_byte_32:
  "unat (scast (b :: byte) :: 32 word) = (if unat b < 128 then unat b else unat b + 4294967040)"
  using byte_mod_wide [OF unat_byte_less [of b], of "2 ^ 32"]
  unfolding unat_eq_nat_uint [of "scast b"] uint_scast_byte by (auto simp: nat_add_distrib)

text \<open>\<open>c_str\<close>: a C function that is given a string sees it up to the first NUL character.\<close>

definition c_str :: "string \<Rightarrow> string" where
  "c_str s = takeWhile (\<lambda>c. c \<noteq> CHR 0x00) s"

lemma c_str_id: "CHR 0x00 \<notin> set s \<Longrightarrow> c_str s = s"
  by (simp add: c_str_def takeWhile_eq_all_conv) blast

lemma c_str_no_nul: "CHR 0x00 \<notin> set (c_str s)"
  by (auto simp: c_str_def dest: set_takeWhileD)

end
