(* ===== verification/ByteBuffer.thy ===== *)
theory ByteBuffer
  imports Prelude
begin

text \<open>
  The byte buffer of \<open>ReMoLON_Util/ByteBuffer.h\<close> and \<open>src/ByteBuffer.cpp\<close>.

  The object is the record \<open>bytebuffer\<close>: the array \<open>_buf\<close> (\<open>None\<close> is the null pointer), the
  write cursor \<open>_used\<close>, the read cursor \<open>_read\<close> and \<open>_size\<close>. Every member function that
  touches the array is a program in \<open>sx\<close>; an access outside the array is the error
  \<open>UB Out_of_bounds\<close>, never a silent value. The contents of an array fresh from \<open>new char[n]\<close>
  are indeterminate: they are a parameter \<open>fresh\<close> of \<open>resize\<close> and of the constructors.

  \<open>float\<close> and \<open>double\<close> are the bit patterns the code copies with \<open>memcpy\<close> (32 and 64 bits,
  least significant byte first, as on the x86-64 hosts the project builds on).

  \<open>readShort\<close>, \<open>readInt\<close> and \<open>readLong\<close> shift a promoted \<open>char\<close> to the left, a negative one when
  the byte is 128 or more. The project builds as C++14 (\<open>CMakeLists.txt\<close>), where the standard leaves that
  shift undefined; the model gives it the meaning the compilers the project builds with document (the
  shift of the two's complement representation, which C++20 makes the standard one).
  \<open>shifts_negative\<close> says for which bytes the reads rest on it: among two-byte values those
  from 32768 on, so every string of that length and every port above 32767.

  The second half proves that the operations are memory safe on a well-formed buffer and
  that they implement appending to and reading from the sequence of unread bytes; the
  interface of the typed read and write operations is the locale \<open>wire_codec\<close>.
\<close>

section \<open>The object\<close>

record bytebuffer =
  bb_buf :: "byte list option"
  bb_used :: nat
  bb_read :: nat
  bb_size :: nat

section \<open>Allocation\<close>

definition resize :: "(nat \<Rightarrow> byte) \<Rightarrow> nat \<Rightarrow> (bytebuffer, unit) sx" where
  "resize fresh newSize b =
     (let oldUsed = bb_used b;
          temp = (case bb_buf b of
                    None \<Rightarrow> Inr None
                  | Some d \<Rightarrow>
                      (if oldUsed > 0
                       then (if oldUsed \<le> bb_size b \<and> oldUsed \<le> length d
                             then Inr (Some (take oldUsed d)) else Inl (UB Out_of_bounds))
                       else Inr None));
          b' = b\<lparr>bb_size := newSize, bb_used := 0, bb_read := 0\<rparr>
      in case temp of
           Inl e \<Rightarrow> (Inl e, b)
         | Inr t \<Rightarrow>
             (if newSize > 0
              then (let new = map fresh [0..<newSize]
                    in if oldUsed > 0
                       then (case t of
                               None \<Rightarrow> (Inl (UB Null_deref), b')
                             | Some old \<Rightarrow>
                                 (if oldUsed \<le> newSize
                                  then (Inr (), b'\<lparr>bb_buf := Some (old @ drop oldUsed new)\<rparr>)
                                  else (Inl (UB Out_of_bounds), b')))
                       else (Inr (), b'\<lparr>bb_buf := Some new\<rparr>))
              else (Inr (), b'\<lparr>bb_buf := None\<rparr>)))"

definition ByteBuffer_sized :: "(nat \<Rightarrow> byte) \<Rightarrow> nat \<Rightarrow> bytebuffer" where
  "ByteBuffer_sized fresh sz =
     snd (resize fresh sz \<lparr>bb_buf = None, bb_used = 0, bb_read = 0, bb_size = 0\<rparr>)"

definition ByteBuffer_default :: "(nat \<Rightarrow> byte) \<Rightarrow> bytebuffer" where
  "ByteBuffer_default fresh = ByteBuffer_sized fresh 65535"

section \<open>Cursors\<close>

definition getSize :: "bytebuffer \<Rightarrow> nat" where
  "getSize b = bb_size b"

definition getUsedSize :: "bytebuffer \<Rightarrow> nat" where
  "getUsedSize b = bb_used b"

definition getWritePos :: "bytebuffer \<Rightarrow> nat" where
  "getWritePos b = bb_used b"

definition getReadPos :: "bytebuffer \<Rightarrow> nat" where
  "getReadPos b = bb_read b"

definition getRemainingWriteSize :: "bytebuffer \<Rightarrow> nat" where
  "getRemainingWriteSize b = size_sub (bb_size b) (bb_used b)"

definition getRemainingReadSize :: "bytebuffer \<Rightarrow> nat" where
  "getRemainingReadSize b = size_sub (bb_used b) (bb_read b)"

definition setReadPos :: "nat \<Rightarrow> bytebuffer \<Rightarrow> bytebuffer" where
  "setReadPos rp b = b\<lparr>bb_read := rp\<rparr>"

definition setWritePos :: "nat \<Rightarrow> bytebuffer \<Rightarrow> bytebuffer" where
  "setWritePos wp b = b\<lparr>bb_used := wp\<rparr>"

definition rewind :: "bytebuffer \<Rightarrow> bytebuffer" where
  "rewind b = setReadPos 0 b"

definition reset :: "bytebuffer \<Rightarrow> bytebuffer" where
  "reset b = b\<lparr>bb_used := 0, bb_read := 0\<rparr>"

section \<open>Raw access to the array\<close>

text \<open>Store \<open>bs\<close> at an offset, and read \<open>n\<close> bytes at an offset.\<close>

definition mem_store :: "nat \<Rightarrow> byte list \<Rightarrow> (bytebuffer, unit) sx" where
  "mem_store off bs b =
     (case bb_buf b of
        None \<Rightarrow> (if bs = [] then (Inr (), b) else (Inl (UB Null_deref), b))
      | Some d \<Rightarrow>
          (if off + length bs \<le> length d
           then (Inr (), b\<lparr>bb_buf := Some (take off d @ bs @ drop (off + length bs) d)\<rparr>)
           else (Inl (UB Out_of_bounds), b)))"

definition mem_load :: "nat \<Rightarrow> nat \<Rightarrow> (bytebuffer, byte list) sx" where
  "mem_load off n b =
     (case bb_buf b of
        None \<Rightarrow> (if n = 0 then (Inr [], b) else (Inl (UB Null_deref), b))
      | Some d \<Rightarrow>
          (if off + n \<le> length d
           then (Inr (take n (drop off d)), b)
           else (Inl (UB Out_of_bounds), b)))"

text \<open>\<open>_used += n\<close> and \<open>_read += n\<close>.\<close>

definition advance_used :: "nat \<Rightarrow> (bytebuffer, unit) sx" where
  "advance_used n = sx_modify (\<lambda>b. b\<lparr>bb_used := size_add (bb_used b) n\<rparr>)"

definition advance_read :: "nat \<Rightarrow> (bytebuffer, unit) sx" where
  "advance_read n = sx_modify (\<lambda>b. b\<lparr>bb_read := size_add (bb_read b) n\<rparr>)"

definition appendContent :: "bytebuffer \<Rightarrow> (bytebuffer, bool) sx" where
  "appendContent other b =
     (if getUsedSize other < getRemainingWriteSize b
      then (case mem_load 0 (getUsedSize other) other of
              (Inl e, _) \<Rightarrow> (Inl e, b)
            | (Inr bs, _) \<Rightarrow>
                sx_seq (mem_store (bb_used b) bs)
                  (sx_seq (advance_used (getUsedSize other)) (sx_return True)) b)
      else (Inr False, b))"

text \<open>
  \<open>compact\<close> copies the unread bytes to the front with \<open>memcpy\<close>. Source and destination
  overlap when the read cursor is positive and smaller than the number of bytes copied;
  \<open>memcpy\<close> is undefined then. With the read cursor at 0 the copy is of the bytes onto
  themselves and is taken to leave them as they are.
\<close>

definition compact :: "(bytebuffer, unit) sx" where
  "compact b =
     (let usedLen = getRemainingReadSize b
      in if 0 < bb_read b \<and> bb_read b < usedLen then (Inl (UB Overlapping_copy), b)
         else sx_bind (mem_load (bb_read b) usedLen) (\<lambda>bs.
                sx_seq (mem_store 0 bs)
                  (sx_modify (\<lambda>b. setWritePos usedLen (setReadPos 0 b)))) b)"

section \<open>Typed writes\<close>

text \<open>
  Every write first compares \<open>sizeof(T) + _used\<close> with \<open>_size\<close> and does nothing when the
  value does not fit. \<open>char\<close> is signed and promoted to \<open>int\<close> by the bit operations:
  \<open>scast\<close> is that promotion, \<open>signed_drop_bit\<close> the arithmetic shift, \<open>ucast\<close> to 8 bits
  the conversion back to \<open>char\<close>.
\<close>

definition writeChar :: "byte \<Rightarrow> (bytebuffer, unit) sx" where
  "writeChar c b =
     (if size_add 1 (bb_used b) < bb_size b
      then sx_seq (mem_store (bb_used b) [c]) (advance_used 1) b
      else (Inr (), b))"

definition short_bytes :: "16 word \<Rightarrow> byte list" where
  "short_bytes s =
     (let i = (scast s :: 32 word)
      in [ucast (i AND 0xff), ucast (signed_drop_bit 8 i AND 0xff)])"

definition writeShort :: "16 word \<Rightarrow> (bytebuffer, unit) sx" where
  "writeShort s b =
     (if size_add 2 (bb_used b) < bb_size b
      then sx_seq (mem_store (bb_used b) (short_bytes s)) (advance_used 2) b
      else (Inr (), b))"

definition int_bytes :: "32 word \<Rightarrow> byte list" where
  "int_bytes i =
     [ucast (i AND 0xff),
      ucast (signed_drop_bit 8 i AND 0xff),
      ucast (signed_drop_bit 16 i AND 0xff),
      ucast (signed_drop_bit 24 i AND 0xff)]"

definition writeInt :: "32 word \<Rightarrow> (bytebuffer, unit) sx" where
  "writeInt i b =
     (if size_add 4 (bb_used b) < bb_size b
      then sx_seq (mem_store (bb_used b) (int_bytes i)) (advance_used 4) b
      else (Inr (), b))"

definition long_bytes :: "64 word \<Rightarrow> byte list" where
  "long_bytes l =
     [ucast (l AND 0xff),
      ucast (signed_drop_bit 8 l AND 0xff),
      ucast (signed_drop_bit 16 l AND 0xff),
      ucast (signed_drop_bit 24 l AND 0xff),
      ucast (signed_drop_bit 32 l AND 0xff),
      ucast (signed_drop_bit 40 l AND 0xff),
      ucast (signed_drop_bit 48 l AND 0xff),
      ucast (signed_drop_bit 56 l AND 0xff)]"

definition writeLong :: "64 word \<Rightarrow> (bytebuffer, unit) sx" where
  "writeLong l b =
     (if size_add 8 (bb_used b) < bb_size b
      then sx_seq (mem_store (bb_used b) (long_bytes l)) (advance_used 8) b
      else (Inr (), b))"

text \<open>The object representation \<open>memcpy\<close> copies: the bytes of a word, lowest first.\<close>

definition object_bytes :: "nat \<Rightarrow> 'a::len word \<Rightarrow> byte list" where
  "object_bytes n w = map (\<lambda>i. ucast (drop_bit (8 * i) w)) [0..<n]"

definition writeFloat :: "32 word \<Rightarrow> (bytebuffer, unit) sx" where
  "writeFloat f b =
     (if size_add 4 (bb_used b) < bb_size b
      then sx_seq (mem_store (bb_used b) (object_bytes 4 f)) (advance_used 4) b
      else (Inr (), b))"

definition writeDouble :: "64 word \<Rightarrow> (bytebuffer, unit) sx" where
  "writeDouble d b =
     (if size_add 8 (bb_used b) < bb_size b
      then sx_seq (mem_store (bb_used b) (object_bytes 8 d)) (advance_used 8) b
      else (Inr (), b))"

text \<open>The length is cut to 16 bits; all the characters are copied.\<close>

definition writeString :: "string \<Rightarrow> (bytebuffer, unit) sx" where
  "writeString str b =
     (if size_add (size_add (length str) 2) (bb_used b) < bb_size b
      then sx_seq (writeShort (word_of_nat (length str)))
             (\<lambda>b. sx_seq (mem_store (bb_used b) (map byte_of_char str))
                    (advance_used (length str)) b) b
      else (Inr (), b))"

section \<open>Typed reads\<close>

text \<open>A read beyond the write cursor throws.\<close>

definition beyond_limit :: cpp_error where
  "beyond_limit = Runtime_error ''ByteBuffer: attempted to read beyond written limit''"

definition beyond_limit_sp :: cpp_error where
  "beyond_limit_sp = Runtime_error ''ByteBuffer: attempted to read beyond written limit ''"

definition readChar :: "(bytebuffer, byte) sx" where
  "readChar b =
     (if size_add (bb_read b) 1 > bb_used b then (Inl beyond_limit, b)
      else sx_bind (mem_load (bb_read b) 1) (\<lambda>buf.
             sx_seq (advance_read 1) (sx_return (buf ! 0))) b)"

definition bytes_short :: "byte list \<Rightarrow> 16 word" where
  "bytes_short buf =
     ucast ((scast (buf ! 0) AND 0xff) OR (push_bit 8 (scast (buf ! 1)) AND 0xff00) :: 32 word)"

definition readShort :: "(bytebuffer, 16 word) sx" where
  "readShort b =
     (if size_add (bb_read b) 2 > bb_used b then (Inl beyond_limit_sp, b)
      else sx_bind (mem_load (bb_read b) 2) (\<lambda>buf.
             sx_seq (advance_read 2) (sx_return (bytes_short buf))) b)"

definition bytes_int :: "byte list \<Rightarrow> 32 word" where
  "bytes_int buf =
     (scast (buf ! 0) AND 0xff)
     OR (push_bit 8 (scast (buf ! 1)) AND 0xff00)
     OR (push_bit 16 (scast (buf ! 2)) AND 0xff0000)
     OR (push_bit 24 (scast (buf ! 3)) AND 0xff000000)"

definition readInt :: "(bytebuffer, 32 word) sx" where
  "readInt b =
     (if size_add (bb_read b) 4 > bb_used b then (Inl beyond_limit_sp, b)
      else sx_bind (mem_load (bb_read b) 4) (\<lambda>buf.
             sx_seq (advance_read 4) (sx_return (bytes_int buf))) b)"

text \<open>
  The low four bytes are combined in 32 bits. The mask \<open>0xff000000\<close> has type
  \<open>unsigned int\<close>, so the partial result is unsigned and widens to 64 bits without sign
  extension (\<open>ucast\<close>); the high four bytes are cast to \<open>int64_t\<close> first.
\<close>

definition bytes_long :: "byte list \<Rightarrow> 64 word" where
  "bytes_long buf =
     ucast (bytes_int buf)
     OR (push_bit 32 (scast (buf ! 4)) AND 0xff00000000)
     OR (push_bit 40 (scast (buf ! 5)) AND 0xff0000000000)
     OR (push_bit 48 (scast (buf ! 6)) AND 0xff000000000000)
     OR (push_bit 56 (scast (buf ! 7)) AND 0xff00000000000000)"

definition readLong :: "(bytebuffer, 64 word) sx" where
  "readLong b =
     (if size_add (bb_read b) 8 > bb_used b then (Inl beyond_limit_sp, b)
      else sx_bind (mem_load (bb_read b) 8) (\<lambda>buf.
             sx_seq (advance_read 8) (sx_return (bytes_long buf))) b)"

definition object_value :: "byte list \<Rightarrow> 'a::len word" where
  "object_value buf = foldr (\<lambda>c acc. ucast c OR push_bit 8 acc) buf 0"

definition readFloat :: "(bytebuffer, 32 word) sx" where
  "readFloat b =
     (if size_add (bb_read b) 4 > bb_used b then (Inl beyond_limit_sp, b)
      else sx_bind (mem_load (bb_read b) 4) (\<lambda>buf.
             sx_seq (advance_read 4) (sx_return (object_value buf))) b)"

definition readDouble :: "(bytebuffer, 64 word) sx" where
  "readDouble b =
     (if size_add (bb_read b) 8 > bb_used b then (Inl beyond_limit_sp, b)
      else sx_bind (mem_load (bb_read b) 8) (\<lambda>buf.
             sx_seq (advance_read 8) (sx_return (object_value buf))) b)"

definition readString :: "(bytebuffer, string) sx" where
  "readString =
     sx_bind readShort (\<lambda>len. \<lambda>b.
       (let strSize = unat len
        in if size_add strSize (bb_read b) > bb_used b then (Inl beyond_limit_sp, b)
           else sx_bind (mem_load (bb_read b) strSize) (\<lambda>buf.
                  sx_seq (advance_read strSize) (sx_return (map char_of_byte buf))) b))"

section \<open>Bytes of a word\<close>

text \<open>
  The shifts and masks of the code are the object representation of the value: splitting is
  \<open>object_bytes\<close> and joining is \<open>object_value\<close>, for every width.
\<close>

lemma mask_ff: "(0xff :: 'a::len word) = mask 8"
  by (simp add: mask_numeral)

lemma mask_shifted:
  "(0xff00 :: 'a::len word) = push_bit 8 (mask 8)"
  "(0xff0000 :: 'a word) = push_bit 16 (mask 8)"
  "(0xff000000 :: 'a word) = push_bit 24 (mask 8)"
  "(0xff00000000 :: 'a word) = push_bit 32 (mask 8)"
  "(0xff0000000000 :: 'a word) = push_bit 40 (mask 8)"
  "(0xff000000000000 :: 'a word) = push_bit 48 (mask 8)"
  "(0xff00000000000000 :: 'a word) = push_bit 56 (mask 8)"
  by (simp_all add: mask_numeral)

lemma byte_masked [simp]: "(ucast (w AND 0xff) :: byte) = ucast (w :: 'a::len word)"
  by (rule bit_word_eqI) (auto simp: mask_ff bit_simps intro: bit_imp_le_length)

lemma byte_signed_drop [simp]:
  "k + 8 \<le> LENGTH('a) \<Longrightarrow>
   (ucast (signed_drop_bit k w) :: byte) = ucast (drop_bit k (w :: 'a::len word))"
  by (rule bit_word_eqI) (auto simp: bit_simps bit_imp_le_length)

lemma byte_bit_min: "(bit (b :: byte) (min 7 m) \<and> m < 8) \<longleftrightarrow> bit b m"
proof (cases "m < 8")
  case True
  then have "min 7 m = m" by simp
  with True show ?thesis by simp
next
  case False
  then show ?thesis by (auto dest: bit_imp_le_length)
qed

lemma scast_masked:
  assumes "k + 8 \<le> LENGTH('a)"
  shows "push_bit k (scast (b :: byte)) AND push_bit k (mask 8) = (push_bit k (ucast b) :: 'a::len word)"
proof (rule bit_word_eqI)
  fix n assume "n < LENGTH('a)"
  with assms show "bit (push_bit k (scast b) AND push_bit k (mask 8) :: 'a word) n =
      bit (push_bit k (ucast b) :: 'a word) n"
    using byte_bit_min [of b "n - k"] by (auto simp: bit_simps)
qed

lemma scast_masked_0: "8 \<le> LENGTH('a) \<Longrightarrow> (scast (b :: byte) AND 0xff) = (ucast b :: 'a::len word)"
  using scast_masked [of 0, where 'a = 'a, of b] by (simp add: mask_ff)

lemma object_bytes_0 [simp]: "object_bytes 0 w = []"
  by (simp add: object_bytes_def)

lemma object_bytes_Suc [simp]:
  "object_bytes (Suc n) w = ucast w # object_bytes n (drop_bit 8 w)"
  unfolding object_bytes_def
  by (subst upt_conv_Cons)
    (simp_all add: map_Suc_upt [symmetric] comp_def add.commute del: upt_Suc)

lemma object_value_simps [simp]:
  "object_value [] = 0"
  "object_value (c # cs) = ucast c OR push_bit 8 (object_value cs)"
  by (simp_all add: object_value_def)

lemma length_object_bytes [simp]: "length (object_bytes n w) = n"
  by (simp add: object_bytes_def)

lemma object_value_bytes: "object_value (object_bytes n w) = take_bit (8 * n) (w :: 'a::len word)"
proof (induction n arbitrary: w)
  case 0
  then show ?case by simp
next
  case (Suc n)
  have "object_value (object_bytes (Suc n) w) =
      ucast (ucast w :: byte) OR push_bit 8 (take_bit (8 * n) (drop_bit 8 w))"
    by (simp add: Suc.IH)
  also have "\<dots> = take_bit (8 * Suc n) w"
    by (rule bit_word_eqI) (auto simp: bit_simps)
  finally show ?case .
qed

text \<open>The bytes whose combination shifts a negative \<open>int\<close> or \<open>int64_t\<close>: one from 128 on behind the first.\<close>

definition shifts_negative :: "byte list \<Rightarrow> bool" where
  "shifts_negative buf \<longleftrightarrow> (\<exists>c \<in> set (tl buf). 128 \<le> c)"

lemma shifts_negative_bytes:
  "shifts_negative (object_bytes (Suc n) w) \<longleftrightarrow> (\<exists>i < n. bit w (8 * i + 15))" for w :: "'a::len word"
proof -
  have top: "128 \<le> c \<longleftrightarrow> bit c 7" for c :: byte
  proof -
    have "bit c 7 \<longleftrightarrow> bit (unat c) 7" by (simp add: bit_unsigned_iff)
    then have "bit c 7 \<longleftrightarrow> odd (unat c div 128)" by (simp add: bit_iff_odd)
    moreover have "unat c < 256" by (rule unat_byte_less)
    then have "unat c div 128 = (if 128 \<le> unat c then 1 else 0)" by auto
    ultimately show ?thesis by (simp add: word_le_nat_alt)
  qed
  have "shifts_negative (object_bytes (Suc n) w) \<longleftrightarrow> (\<exists>i < n. 128 \<le> (ucast (drop_bit (8 * i) (drop_bit 8 w)) :: byte))"
    by (simp add: shifts_negative_def object_bytes_def [of n] Bex_def)
  also have "\<dots> \<longleftrightarrow> (\<exists>i < n. bit w (8 * i + 15))"
    unfolding top by (simp add: bit_simps ac_simps)
  finally show ?thesis .
qed

lemma short_shifts_negative: "shifts_negative (object_bytes 2 s) \<longleftrightarrow> bit s 15" for s :: "16 word"
  using shifts_negative_bytes [of 1 s] by (simp add: numeral_2_eq_2)

lemma short_bytes_eq: "short_bytes s = object_bytes 2 s"
  by (auto simp: short_bytes_def Let_def numeral_2_eq_2 intro!: bit_word_eqI
      simp: bit_simps dest: bit_imp_le_length)

lemma int_bytes_eq: "int_bytes i = object_bytes 4 i"
  by (simp add: int_bytes_def numeral_eq_Suc object_bytes_def)

lemma long_bytes_eq: "long_bytes l = object_bytes 8 l"
  by (simp add: long_bytes_def numeral_eq_Suc object_bytes_def)

lemma bytes_short_value: "bytes_short [a, b] = object_value [a, b]"
proof -
  have "bytes_short [a, b] = (ucast (ucast a OR push_bit 8 (ucast b) :: 32 word) :: 16 word)"
    using scast_masked [of 8 b, where 'a = 32]
    by (simp add: bytes_short_def scast_masked_0 mask_shifted)
  also have "\<dots> = object_value [a, b]"
    by (rule bit_word_eqI) (auto simp: bit_simps)
  finally show ?thesis .
qed

lemma bytes_int_value: "bytes_int [a, b, c, d] = object_value [a, b, c, d]"
  using scast_masked [of 8 b, where 'a = 32] scast_masked [of 16 c, where 'a = 32]
    scast_masked [of 24 d, where 'a = 32]
  by (simp add: bytes_int_def scast_masked_0 mask_shifted push_bit_or or.assoc)

lemma byte_bit_high: "8 \<le> m \<Longrightarrow> \<not> bit (b :: byte) m"
  using bit_imp_le_length [of b m] by auto

lemma ucast_object_value:
  "(ucast (object_value [a, b, c, d] :: 32 word) :: 64 word) = object_value [a, b, c, d]"
proof (rule bit_word_eqI)
  fix n
  show "bit (ucast (object_value [a, b, c, d] :: 32 word) :: 64 word) n =
      bit (object_value [a, b, c, d] :: 64 word) n"
  proof (cases "n < 32")
    case True
    then have "n - 8 < 32 \<and> n - 16 < 32 \<and> n - 24 < 32 \<and> n - 8 < 64 \<and> n - 16 < 64 \<and> n - 24 < 64 \<and> n < 64"
      by arith
    with True show ?thesis by (simp add: bit_simps)
  qed (simp add: bit_simps byte_bit_high)
qed

lemma bytes_long_value:
  "bytes_long [a, b, c, d, e, f, g, h] = object_value [a, b, c, d, e, f, g, h]"
proof -
  have low: "(ucast (bytes_int [a, b, c, d, e, f, g, h]) :: 64 word) = object_value [a, b, c, d]"
  proof -
    have "bytes_int [a, b, c, d, e, f, g, h] = bytes_int [a, b, c, d]"
      by (simp add: bytes_int_def)
    also have "\<dots> = object_value [a, b, c, d]" by (rule bytes_int_value)
    finally have "bytes_int [a, b, c, d, e, f, g, h] = object_value [a, b, c, d]" .
    then show ?thesis by (simp only: ucast_object_value)
  qed
  have high: "push_bit 32 (scast e) AND 0xff00000000 = (push_bit 32 (ucast e) :: 64 word)"
    "push_bit 40 (scast f) AND 0xff0000000000 = (push_bit 40 (ucast f) :: 64 word)"
    "push_bit 48 (scast g) AND 0xff000000000000 = (push_bit 48 (ucast g) :: 64 word)"
    "push_bit 56 (scast h) AND 0xff00000000000000 = (push_bit 56 (ucast h) :: 64 word)"
    unfolding mask_shifted by (rule scast_masked, simp)+
  have nths: "[a, b, c, d, e, f, g, h] ! 4 = e" "[a, b, c, d, e, f, g, h] ! 5 = f"
    "[a, b, c, d, e, f, g, h] ! 6 = g" "[a, b, c, d, e, f, g, h] ! 7 = h"
    by simp_all
  have "bytes_long [a, b, c, d, e, f, g, h] =
      object_value [a, b, c, d] OR push_bit 32 (ucast e) OR push_bit 40 (ucast f)
        OR push_bit 48 (ucast g) OR push_bit 56 (ucast h)"
    unfolding bytes_long_def low nths high ..
  also have "\<dots> = object_value [a, b, c, d, e, f, g, h]"
    by (simp add: push_bit_or or.assoc)
  finally show ?thesis .
qed

lemma bit_object_value:
  "bit (object_value bs :: 'a::len word) n \<longleftrightarrow>
   n < LENGTH('a) \<and> n div 8 < length bs \<and> bit (bs ! (n div 8)) (n mod 8)"
proof (induction bs arbitrary: n)
  case Nil
  then show ?case by simp
next
  case (Cons c cs)
  show ?case
  proof (cases "n < 8")
    case True
    then show ?thesis by (auto simp: bit_simps)
  next
    case False
    then have "n div 8 = Suc ((n - 8) div 8)" "n mod 8 = (n - 8) mod 8"
      by (simp_all add: le_div_geq le_mod_geq)
    with False Cons.IH [of "n - 8"] show ?thesis
      by (auto simp: bit_simps byte_bit_high)
  qed
qed

lemma object_bytes_value:
  assumes "length bs = n" and "8 * n \<le> LENGTH('a)"
  shows "object_bytes n (object_value bs :: 'a::len word) = bs"
proof (rule nth_equalityI)
  fix i assume i: "i < length (object_bytes n (object_value bs :: 'a word))"
  then have "i < n" by simp
  have "ucast (drop_bit (8 * i) (object_value bs :: 'a word)) = bs ! i"
  proof (rule bit_word_eqI)
    fix k assume "k < LENGTH(8)"
    then show "bit (ucast (drop_bit (8 * i) (object_value bs :: 'a word)) :: byte) k = bit (bs ! i) k"
      using \<open>i < n\<close> assms by (auto simp: bit_simps bit_object_value)
  qed
  with \<open>i < n\<close> show "object_bytes n (object_value bs :: 'a word) ! i = bs ! i"
    by (simp add: object_bytes_def)
qed (use assms in simp)

lemma bytes_values:
  "length bs = 2 \<Longrightarrow> bytes_short bs = object_value bs"
  "length bs = 4 \<Longrightarrow> bytes_int bs = object_value bs"
  "length bs = 8 \<Longrightarrow> bytes_long bs = object_value bs"
  by (auto simp: numeral_eq_Suc length_Suc_conv bytes_short_value bytes_int_value bytes_long_value
      simp del: object_value_simps)

section \<open>Well-formed buffers and their contents\<close>

text \<open>
  \<open>bb_ok\<close>: the array has the recorded size, an object is no larger than
  \<open>PTRDIFF_MAX\<close> bytes, and the cursors are ordered. \<open>bb_append\<close> and \<open>bb_skip\<close> are what a
  write and a read amount to.
\<close>

definition bb_ok :: "bytebuffer \<Rightarrow> bool" where
  "bb_ok b \<longleftrightarrow>
     (case bb_buf b of None \<Rightarrow> bb_size b = 0 | Some d \<Rightarrow> length d = bb_size b) \<and>
     bb_size b < 9223372036854775808 \<and> bb_used b \<le> bb_size b \<and> bb_read b \<le> bb_used b"

definition bb_unread :: "bytebuffer \<Rightarrow> byte list" where
  "bb_unread b =
     (case bb_buf b of None \<Rightarrow> [] | Some d \<Rightarrow> drop (bb_read b) (take (bb_used b) d))"

definition bb_written :: "bytebuffer \<Rightarrow> byte list" where
  "bb_written b = (case bb_buf b of None \<Rightarrow> [] | Some d \<Rightarrow> take (bb_used b) d)"

definition bb_append :: "byte list \<Rightarrow> bytebuffer \<Rightarrow> bytebuffer" where
  "bb_append bs b =
     b\<lparr>bb_buf := map_option (\<lambda>d. take (bb_used b) d @ bs @ drop (bb_used b + length bs) d) (bb_buf b),
       bb_used := bb_used b + length bs\<rparr>"

definition bb_skip :: "nat \<Rightarrow> bytebuffer \<Rightarrow> bytebuffer" where
  "bb_skip n b = b\<lparr>bb_read := bb_read b + n\<rparr>"

text \<open>There is room for \<open>n\<close> more bytes. The comparison is strict: the last byte stays free.\<close>

definition bb_room :: "nat \<Rightarrow> bytebuffer \<Rightarrow> bool" where
  "bb_room n b \<longleftrightarrow> bb_used b + n < bb_size b"

lemma bb_append_simps [simp]:
  "bb_used (bb_append bs b) = bb_used b + length bs"
  "bb_read (bb_append bs b) = bb_read b"
  "bb_size (bb_append bs b) = bb_size b"
  by (simp_all add: bb_append_def)

lemma bb_skip_simps [simp]:
  "bb_used (bb_skip n b) = bb_used b"
  "bb_read (bb_skip n b) = bb_read b + n"
  "bb_size (bb_skip n b) = bb_size b"
  "bb_buf (bb_skip n b) = bb_buf b"
  by (simp_all add: bb_skip_def)

lemma bb_skip_0 [simp]: "bb_skip 0 b = b"
  by (simp add: bb_skip_def)

lemma bb_skip_skip [simp]: "bb_skip n (bb_skip m b) = bb_skip (m + n) b"
  by (simp add: bb_skip_def add.assoc)

lemma bb_ok_room_buf:
  assumes "bb_ok b" and "bb_room n b"
  obtains d where "bb_buf b = Some d" and "length d = bb_size b" and "bb_used b + n < length d"
  using assms by (cases "bb_buf b") (auto simp: bb_ok_def bb_room_def)

lemma bb_ok_append: "bb_ok b \<Longrightarrow> bb_room (length bs) b \<Longrightarrow> bb_ok (bb_append bs b)"
  by (cases "bb_buf b") (auto simp: bb_ok_def bb_room_def bb_append_def)

lemma bb_append_append:
  assumes "bb_ok b" and "bb_room (length bs + length cs) b"
  shows "bb_append cs (bb_append bs b) = bb_append (bs @ cs) b"
  using assms by (rule bb_ok_room_buf) (auto simp: bb_append_def min_def algebra_simps)

lemma bb_written_append:
  assumes "bb_ok b" and "bb_room (length bs) b"
  shows "bb_written (bb_append bs b) = bb_written b @ bs"
  using assms by (rule bb_ok_room_buf) (auto simp: bb_written_def bb_append_def)

lemma bb_unread_append:
  assumes "bb_ok b" and "bb_room (length bs) b"
  shows "bb_unread (bb_append bs b) = bb_unread b @ bs"
  using assms by (rule bb_ok_room_buf) (use assms(1) in \<open>auto simp: bb_unread_def bb_append_def bb_ok_def\<close>)

lemma length_bb_unread: "bb_ok b \<Longrightarrow> length (bb_unread b) = bb_used b - bb_read b"
  by (auto simp: bb_ok_def bb_unread_def split: option.splits)

lemma bb_unread_skip: "bb_unread (bb_skip n b) = drop n (bb_unread b)"
  by (auto simp: bb_unread_def bb_skip_def add.commute split: option.splits)

lemma bb_ok_skip: "bb_ok b \<Longrightarrow> n \<le> length (bb_unread b) \<Longrightarrow> bb_ok (bb_skip n b)"
  by (simp add: length_bb_unread) (auto simp: bb_ok_def bb_skip_def split: option.splits)

lemma bb_ok_size [simp]:
  assumes "bb_ok b" and "n < 9223372036854775808"
  shows "size_add n (bb_used b) = n + bb_used b" and "size_add (bb_used b) n = bb_used b + n"
    and "size_add n (bb_read b) = n + bb_read b" and "size_add (bb_read b) n = bb_read b + n"
  using assms by (auto simp: bb_ok_def size_modulus_def intro!: size_add_small)

lemma remaining_read: "bb_ok b \<Longrightarrow> getRemainingReadSize b = length (bb_unread b)"
  by (simp add: getRemainingReadSize_def length_bb_unread)
    (auto simp: bb_ok_def size_modulus_def)

lemma remaining_write: "bb_ok b \<Longrightarrow> getRemainingWriteSize b = bb_size b - bb_used b"
  by (auto simp: getRemainingWriteSize_def bb_ok_def size_modulus_def)

text \<open>A store followed by \<open>_used += n\<close> is an append; a load followed by \<open>_read += n\<close> a skip.\<close>

lemma store_append:
  assumes "bb_ok b" and "bb_room (length bs) b"
  shows "sx_seq (mem_store (bb_used b) bs) (advance_used (length bs)) b = (Inr (), bb_append bs b)"
proof -
  from assms obtain d where d: "bb_buf b = Some d" "length d = bb_size b" "bb_used b + length bs < length d"
    by (rule bb_ok_room_buf)
  then have "size_add (bb_used b) (length bs) = bb_used b + length bs"
    using assms(1) by (simp add: bb_ok_def)
  with d show ?thesis
    by (simp add: sx_seq_def sx_bind_def mem_store_def advance_used_def sx_modify_def bb_append_def)
qed

lemma load_unread:
  assumes "bb_ok b" and "n \<le> length (bb_unread b)"
  shows "mem_load (bb_read b) n b = (Inr (take n (bb_unread b)), b)"
proof (cases "bb_buf b")
  case None
  with assms show ?thesis by (simp add: mem_load_def bb_unread_def)
next
  case (Some d)
  with assms have "bb_read b + n \<le> bb_used b" "bb_used b \<le> length d"
    using length_bb_unread [OF assms(1)] by (auto simp: bb_ok_def)
  with Some show ?thesis
    by (simp add: mem_load_def bb_unread_def take_drop min_def)
qed

lemma advance_read_skip:
  "bb_ok b \<Longrightarrow> n \<le> length (bb_unread b) \<Longrightarrow> advance_read n b = (Inr (), bb_skip n b)"
  using bb_ok_size(4) [of b n]
  by (simp add: advance_read_def sx_modify_def bb_skip_def length_bb_unread)
    (auto simp: bb_ok_def size_modulus_def)

lemma load_advance:
  assumes "bb_ok b" and "n \<le> length (bb_unread b)"
  shows "sx_bind (mem_load (bb_read b) n) (\<lambda>buf. sx_seq (advance_read n) (sx_return (f buf))) b =
    (Inr (f (take n (bb_unread b))), bb_skip n b)"
  using assms by (simp add: sx_bind_def sx_seq_def load_unread advance_read_skip sx_return_def)

section \<open>The interface of the typed reads and writes\<close>

text \<open>
  A value type travels as the bytes \<open>enc a\<close>: the write appends them when there is room
  and the read takes them back off the front of the unread bytes.
\<close>

locale wire_codec =
  fixes wr :: "'a \<Rightarrow> (bytebuffer, unit) sx"
    and rd :: "(bytebuffer, 'a) sx"
    and enc :: "'a \<Rightarrow> byte list"
    and valid :: "'a \<Rightarrow> bool"
  assumes write_room: "bb_ok b \<Longrightarrow> bb_room (length (enc a)) b \<Longrightarrow> wr a b = (Inr (), bb_append (enc a) b)"
    and write_full: "bb_ok b \<Longrightarrow> \<not> bb_room (length (enc a)) b \<Longrightarrow> length (enc a) < 9223372036854775808 \<Longrightarrow> wr a b = (Inr (), b)"
    and read_back: "bb_ok b \<Longrightarrow> valid a \<Longrightarrow> bb_unread b = enc a @ rest \<Longrightarrow>
        rd b = (Inr a, bb_skip (length (enc a)) b)"
begin

lemma write_ok:
  assumes "bb_ok b" and "length (enc a) < 9223372036854775808"
  shows "\<exists>b'. wr a b = (Inr (), b') \<and> bb_ok b' \<and> bb_size b' = bb_size b"
  using assms by (cases "bb_room (length (enc a)) b") (auto simp: write_room write_full bb_ok_append)

lemma roundtrip:
  assumes "bb_ok b" and "bb_room (length (enc a)) b" and "valid a" and "bb_unread b = []"
  shows "sx_seq (wr a) rd b = (Inr a, bb_skip (length (enc a)) (bb_append (enc a) b))"
proof -
  have "bb_unread (bb_append (enc a) b) = enc a @ []"
    using assms by (simp add: bb_unread_append)
  with assms have "rd (bb_append (enc a) b) = (Inr a, bb_skip (length (enc a)) (bb_append (enc a) b))"
    by (intro read_back) (simp_all add: bb_ok_append)
  with assms show ?thesis by (simp add: sx_seq_def sx_bind_def write_room)
qed

end

text \<open>A codec whose values all take the same number of bytes also fails in a uniform way.\<close>

locale fixed_codec = wire_codec +
  fixes width :: nat and err :: cpp_error
  assumes width: "length (enc a) = width"
    and onto: "length bs = width \<Longrightarrow> \<exists>a. valid a \<and> enc a = bs"
    and read_short: "bb_ok b \<Longrightarrow> length (bb_unread b) < width \<Longrightarrow> rd b = (Inl err, b)"
begin

lemma read_enough:
  assumes "bb_ok b" and "width \<le> length (bb_unread b)"
  shows "\<exists>a. rd b = (Inr a, bb_skip width b) \<and> enc a = take width (bb_unread b)"
proof -
  have "length (take width (bb_unread b)) = width" using assms(2) by simp
  then obtain a where a: "valid a" "enc a = take width (bb_unread b)"
    using onto by blast
  then have "bb_unread b = enc a @ drop width (bb_unread b)" by simp
  from read_back [OF assms(1) a(1) this] have "rd b = (Inr a, bb_skip width b)"
    by (simp only: width)
  with a(2) show ?thesis by blast
qed

lemma read_fails_iff: "bb_ok b \<Longrightarrow> rd b = (Inl err, b) \<longleftrightarrow> length (bb_unread b) < width"
  using read_short [of b] read_enough [of b] by (cases "length (bb_unread b) < width") auto

end

lemma scalar_write:
  assumes "bb_ok b" and "length bs = n" and "n < 9223372036854775808"
  shows "(if size_add n (bb_used b) < bb_size b
          then sx_seq (mem_store (bb_used b) bs) (advance_used n) b else (Inr (), b)) =
         (Inr (), if bb_room n b then bb_append bs b else b)"
  using assms store_append [of b bs] by (auto simp: bb_room_def add.commute)

lemma scalar_read:
  assumes "bb_ok b" and "n < 9223372036854775808"
  shows "(if size_add (bb_read b) n > bb_used b then (Inl e, b)
          else sx_bind (mem_load (bb_read b) n) (\<lambda>buf. sx_seq (advance_read n) (sx_return (f buf))) b) =
         (if length (bb_unread b) < n then (Inl e, b)
          else (Inr (f (take n (bb_unread b))), bb_skip n b))"
proof (cases "length (bb_unread b) < n")
  case True
  with assms show ?thesis by (simp add: length_bb_unread) (auto simp: bb_ok_def)
next
  case False
  then have "n \<le> length (bb_unread b)" by simp
  note load_advance [OF assms(1) this, of f]
  moreover have "\<not> bb_used b < bb_read b + n"
    using False assms by (simp add: length_bb_unread) (auto simp: bb_ok_def)
  ultimately show ?thesis using False assms by simp
qed

lemmas bytes_eqs = short_bytes_eq int_bytes_eq long_bytes_eq

lemma writeChar_spec: "bb_ok b \<Longrightarrow> writeChar c b = (Inr (), if bb_room 1 b then bb_append [c] b else b)"
  unfolding writeChar_def by (rule scalar_write) simp_all

lemma writeShort_spec:
  "bb_ok b \<Longrightarrow> writeShort s b = (Inr (), if bb_room 2 b then bb_append (object_bytes 2 s) b else b)"
  unfolding writeShort_def bytes_eqs by (rule scalar_write) simp_all

lemma writeInt_spec:
  "bb_ok b \<Longrightarrow> writeInt i b = (Inr (), if bb_room 4 b then bb_append (object_bytes 4 i) b else b)"
  unfolding writeInt_def bytes_eqs by (rule scalar_write) simp_all

lemma writeLong_spec:
  "bb_ok b \<Longrightarrow> writeLong l b = (Inr (), if bb_room 8 b then bb_append (object_bytes 8 l) b else b)"
  unfolding writeLong_def bytes_eqs by (rule scalar_write) simp_all

lemma writeFloat_spec:
  "bb_ok b \<Longrightarrow> writeFloat f b = (Inr (), if bb_room 4 b then bb_append (object_bytes 4 f) b else b)"
  unfolding writeFloat_def by (rule scalar_write) simp_all

lemma writeDouble_spec:
  "bb_ok b \<Longrightarrow> writeDouble d b = (Inr (), if bb_room 8 b then bb_append (object_bytes 8 d) b else b)"
  unfolding writeDouble_def by (rule scalar_write) simp_all

text \<open>What \<open>writeString\<close> appends: the length cut to 16 bits, then every character.\<close>

definition string_bytes :: "string \<Rightarrow> byte list" where
  "string_bytes s = object_bytes 2 (word_of_nat (length s) :: 16 word) @ map byte_of_char s"

lemma length_string_bytes [simp]: "length (string_bytes s) = length s + 2"
  by (simp add: string_bytes_def)

lemma writeString_spec:
  assumes "bb_ok b" and "length s < 9223372036854775806"
  shows "writeString s b =
    (Inr (), if bb_room (length s + 2) b then bb_append (string_bytes s) b else b)"
proof -
  let ?l = "object_bytes 2 (word_of_nat (length s) :: 16 word)"
  have guard: "size_add (size_add (length s) 2) (bb_used b) < bb_size b \<longleftrightarrow> bb_room (length s + 2) b"
    using assms bb_ok_size(1) [of b "length s + 2"]
    by (simp add: bb_room_def size_modulus_def add.commute)
  show ?thesis
  proof (cases "bb_room (length s + 2) b")
    case True
    then have room: "bb_room 2 b" "bb_room (length ?l) b"
      by (simp_all add: bb_room_def)
    let ?b = "bb_append ?l b"
    have ok: "bb_ok ?b" and room': "bb_room (length (map byte_of_char s)) ?b"
      using assms(1) room True by (auto simp: bb_ok_append bb_room_def)
    have "sx_seq (mem_store (bb_used ?b) (map byte_of_char s)) (advance_used (length s)) ?b =
        (Inr (), bb_append (map byte_of_char s) ?b)"
      using store_append [OF ok room'] by simp
    moreover have "bb_append (map byte_of_char s) ?b = bb_append (string_bytes s) b"
      using assms(1) True by (simp add: bb_append_append string_bytes_def add.commute)
    ultimately show ?thesis
      using True room guard assms(1)
      by (simp add: writeString_def writeShort_spec sx_seq_Inr)
  next
    case False
    then show ?thesis using guard by (simp add: writeString_def)
  qed
qed

section \<open>What each read and write does\<close>

lemma readChar_spec:
  assumes "bb_ok b"
  shows "readChar b = (if length (bb_unread b) < 1 then (Inl beyond_limit, b)
                       else (Inr (bb_unread b ! 0), bb_skip 1 b))"
  unfolding readChar_def using scalar_read [OF assms, of 1 beyond_limit "\<lambda>buf. buf ! 0"] by simp

lemma readShort_spec:
  assumes "bb_ok b"
  shows "readShort b = (if length (bb_unread b) < 2 then (Inl beyond_limit_sp, b)
                        else (Inr (object_value (take 2 (bb_unread b))), bb_skip 2 b))"
  unfolding readShort_def
  using scalar_read [OF assms, of 2 beyond_limit_sp bytes_short] by (simp add: bytes_values)

lemma readInt_spec:
  assumes "bb_ok b"
  shows "readInt b = (if length (bb_unread b) < 4 then (Inl beyond_limit_sp, b)
                      else (Inr (object_value (take 4 (bb_unread b))), bb_skip 4 b))"
  unfolding readInt_def
  using scalar_read [OF assms, of 4 beyond_limit_sp bytes_int] by (simp add: bytes_values)

lemma readLong_spec:
  assumes "bb_ok b"
  shows "readLong b = (if length (bb_unread b) < 8 then (Inl beyond_limit_sp, b)
                       else (Inr (object_value (take 8 (bb_unread b))), bb_skip 8 b))"
  unfolding readLong_def
  using scalar_read [OF assms, of 8 beyond_limit_sp bytes_long] by (simp add: bytes_values)

lemma readFloat_spec:
  assumes "bb_ok b"
  shows "readFloat b = (if length (bb_unread b) < 4 then (Inl beyond_limit_sp, b)
                        else (Inr (object_value (take 4 (bb_unread b))), bb_skip 4 b))"
  unfolding readFloat_def using scalar_read [OF assms, of 4 beyond_limit_sp object_value] by simp

lemma readDouble_spec:
  assumes "bb_ok b"
  shows "readDouble b = (if length (bb_unread b) < 8 then (Inl beyond_limit_sp, b)
                         else (Inr (object_value (take 8 (bb_unread b))), bb_skip 8 b))"
  unfolding readDouble_def using scalar_read [OF assms, of 8 beyond_limit_sp object_value] by simp

lemmas write_specs = writeChar_spec writeShort_spec writeInt_spec writeLong_spec writeFloat_spec
  writeDouble_spec writeString_spec
lemmas read_specs = readChar_spec readShort_spec readInt_spec readLong_spec readFloat_spec readDouble_spec

lemma object_roundtrip: "LENGTH('a) \<le> 8 * n \<Longrightarrow> object_value (object_bytes n w) = (w :: 'a::len word)"
  by (simp add: object_value_bytes take_bit_word_eq_self)

interpretation char_codec: fixed_codec writeChar readChar "\<lambda>c. [c]" "\<lambda>_. True" 1 beyond_limit
  by unfold_locales (auto simp: write_specs read_specs length_Suc_conv)

interpretation short_codec: fixed_codec writeShort readShort "object_bytes 2" "\<lambda>_. True" 2 beyond_limit_sp
  by unfold_locales
    (auto simp: write_specs read_specs object_roundtrip intro!: exI object_bytes_value)

interpretation int_codec: fixed_codec writeInt readInt "object_bytes 4" "\<lambda>_. True" 4 beyond_limit_sp
  by unfold_locales
    (auto simp: write_specs read_specs object_roundtrip intro!: exI object_bytes_value)

interpretation long_codec: fixed_codec writeLong readLong "object_bytes 8" "\<lambda>_. True" 8 beyond_limit_sp
  by unfold_locales
    (auto simp: write_specs read_specs object_roundtrip intro!: exI object_bytes_value)

interpretation float_codec: fixed_codec writeFloat readFloat "object_bytes 4" "\<lambda>_. True" 4 beyond_limit_sp
  by unfold_locales
    (auto simp: write_specs read_specs object_roundtrip intro!: exI object_bytes_value)

interpretation double_codec: fixed_codec writeDouble readDouble "object_bytes 8" "\<lambda>_. True" 8 beyond_limit_sp
  by unfold_locales
    (auto simp: write_specs read_specs object_roundtrip intro!: exI object_bytes_value)

text \<open>Reading a string: the length, then that many bytes or an exception after the length.\<close>

lemma readString_spec:
  assumes "bb_ok b"
  shows "readString b =
    (let u = bb_unread b; n = unat (object_value (take 2 u) :: 16 word)
     in if length u < 2 then (Inl beyond_limit_sp, b)
        else if length u < 2 + n then (Inl beyond_limit_sp, bb_skip 2 b)
        else (Inr (map char_of_byte (take n (drop 2 u))), bb_skip (2 + n) b))"
proof (cases "length (bb_unread b) < 2")
  case True
  then show ?thesis
    using assms by (simp add: readString_def sx_bind_def readShort_spec Let_def)
next
  case False
  let ?n = "unat (object_value (take 2 (bb_unread b)) :: 16 word)"
  have ok: "bb_ok (bb_skip 2 b)" using assms False by (simp add: bb_ok_skip)
  have "?n < 65536"
    using unsigned_less [of "object_value (take 2 (bb_unread b)) :: 16 word", where 'a = nat] by simp
  then have n: "?n < 9223372036854775808" by simp
  have "size_add ?n (bb_read (bb_skip 2 b)) = size_add (bb_read (bb_skip 2 b)) ?n"
    by (simp add: size_add_def add.commute)
  with False show ?thesis
    using assms scalar_read [OF ok n, of beyond_limit_sp "map char_of_byte"]
    by (auto simp: readString_def sx_bind_def readShort_spec Let_def bb_unread_skip)
qed

interpretation string_codec: wire_codec writeString readString string_bytes "\<lambda>s. length s < 65536"
proof unfold_locales
  fix b and s :: string
  assume "bb_ok b" "bb_room (length (string_bytes s)) b"
  moreover then have "length s < 9223372036854775806" by (auto simp: bb_ok_def bb_room_def)
  ultimately show "writeString s b = (Inr (), bb_append (string_bytes s) b)"
    by (simp add: write_specs)
next
  fix b and s :: string
  assume "bb_ok b" "\<not> bb_room (length (string_bytes s)) b" "length (string_bytes s) < 9223372036854775808"
  then show "writeString s b = (Inr (), b)" by (simp add: write_specs)
next
  fix b and s :: string and rest
  assume "bb_ok b" and len: "length s < 65536" and u: "bb_unread b = string_bytes s @ rest"
  have "unat (word_of_nat (length s) :: 16 word) = length s"
    using len by (simp add: unat_of_nat take_bit_eq_mod)
  with u \<open>bb_ok b\<close> show "readString b = (Inr s, bb_skip (length (string_bytes s)) b)"
    by (simp add: readString_spec string_bytes_def Let_def object_roundtrip add.commute)
qed

section \<open>Moving content\<close>

lemma compact_spec:
  assumes "bb_ok b" and "bb_buf b \<noteq> None" and "bb_read b = 0 \<or> length (bb_unread b) \<le> bb_read b"
  shows "\<exists>b'. compact b = (Inr (), b') \<and> bb_ok b' \<and> bb_unread b' = bb_unread b \<and>
    bb_read b' = 0 \<and> bb_used b' = length (bb_unread b) \<and> bb_size b' = bb_size b"
proof -
  from assms obtain d where d: "bb_buf b = Some d" "length d = bb_size b"
    by (auto simp: bb_ok_def)
  let ?u = "bb_unread b"
  have len: "length ?u \<le> bb_size b" using assms(1) by (simp add: length_bb_unread) (auto simp: bb_ok_def)
  let ?b = "b\<lparr>bb_buf := Some (?u @ drop (length ?u) d), bb_read := 0, bb_used := length ?u\<rparr>"
  have "compact b = (Inr (), ?b)"
    using assms d len
    by (auto simp: compact_def Let_def remaining_read load_unread sx_bind_def sx_seq_def
        mem_store_def sx_modify_def setWritePos_def setReadPos_def)
  moreover have "bb_ok ?b" "bb_unread ?b = ?u"
    using assms(1) d len by (auto simp: bb_ok_def bb_unread_def)
  ultimately show ?thesis by auto
qed

lemma appendContent_spec:
  assumes "bb_ok b" and "bb_ok other"
  shows "appendContent other b =
    (if bb_room (bb_used other) b then (Inr True, bb_append (bb_written other) b) else (Inr False, b))"
proof (cases "bb_room (bb_used other) b")
  case True
  have len: "length (bb_written other) = bb_used other"
    using assms(2) by (auto simp: bb_ok_def bb_written_def split: option.splits)
  have "mem_load 0 (bb_used other) other = (Inr (bb_written other), other)"
    using assms(2) by (auto simp: bb_ok_def bb_written_def mem_load_def split: option.splits)
  then show ?thesis
    using True assms store_append [of b "bb_written other"]
    by (auto simp: appendContent_def remaining_write getUsedSize_def len bb_room_def sx_seq_def
        sx_bind_def sx_return_def split: prod.splits sum.splits)
next
  case False
  then show ?thesis using assms
    by (auto simp: appendContent_def remaining_write getUsedSize_def bb_room_def)
qed

lemma ByteBuffer_sized_ok:
  assumes "0 < n" and "n < 9223372036854775808"
  shows "bb_ok (ByteBuffer_sized fresh n)" "bb_used (ByteBuffer_sized fresh n) = 0"
    "bb_read (ByteBuffer_sized fresh n) = 0" "bb_size (ByteBuffer_sized fresh n) = n"
    "bb_unread (ByteBuffer_sized fresh n) = []"
  using assms by (auto simp: ByteBuffer_sized_def resize_def bb_ok_def bb_unread_def)

lemma reset_ok: "bb_ok b \<Longrightarrow> bb_ok (reset b)"
  by (auto simp: bb_ok_def reset_def split: option.splits)

lemma reset_simps [simp]:
  "bb_used (reset b) = 0" "bb_read (reset b) = 0" "bb_size (reset b) = bb_size b"
  "bb_unread (reset b) = []" "bb_written (reset b) = []"
  by (simp_all add: reset_def bb_unread_def bb_written_def split: option.splits)

text \<open>
  \<open>resize\<close> on a well-formed buffer is undefined exactly when the new size is positive
  and smaller than the bytes in use (the copy back overruns the new array); otherwise it
  gives a well-formed buffer of the new size with both cursors at 0, whose array starts with
  the bytes that were in use.
\<close>

lemma resize_cases:
  assumes "bb_ok b" and "n < 9223372036854775808"
  shows "if 0 < n \<and> n < bb_used b then fst (resize fresh n b) = Inl (UB Out_of_bounds)
    else (\<exists>b'. resize fresh n b = (Inr (), b') \<and> bb_ok b' \<and> bb_size b' = n \<and> bb_used b' = 0 \<and>
      bb_read b' = 0 \<and> (0 < n \<longrightarrow> take (bb_used b) (the (bb_buf b')) = bb_written b))"
  using assms
  by (auto simp: resize_def Let_def bb_ok_def bb_written_def split: option.splits)

section \<open>Properties\<close>

text \<open>An outcome that is memory safe: a value or an exception of the buffer, and a well-formed buffer.\<close>

definition safe_outcome :: "(cpp_error + 'a) \<times> bytebuffer \<Rightarrow> bool" where
  "safe_outcome r \<longleftrightarrow> bb_ok (snd r) \<and>
     (case fst r of Inl e \<Rightarrow> e = beyond_limit \<or> e = beyond_limit_sp | Inr x \<Rightarrow> True)"

text \<open>
  Whatever bytes a peer has put into a well-formed buffer, every typed read either
  returns a value or throws the out-of-limit exception; it never leaves the array and the
  buffer stays well-formed, also after the throw.
\<close>

theorem reads_memory_safe:
  assumes "bb_ok b"
  shows "safe_outcome (readChar b) \<and> safe_outcome (readShort b) \<and> safe_outcome (readInt b) \<and>
    safe_outcome (readLong b) \<and> safe_outcome (readFloat b) \<and> safe_outcome (readDouble b) \<and>
    safe_outcome (readString b)"
  using assms
  by (auto simp: safe_outcome_def read_specs readString_spec Let_def Suc_le_eq intro!: bb_ok_skip)

theorem reads_memory_safe_witness:
  "safe_outcome (readString (bb_append [5, 0, 104] (ByteBuffer_sized (\<lambda>_. 0) 16)))"
proof -
  have "bb_ok (bb_append [5, 0, 104] (ByteBuffer_sized (\<lambda>_. 0) 16))"
    by (rule bb_ok_append) (simp_all add: ByteBuffer_sized_ok bb_room_def)
  from reads_memory_safe [OF this] show ?thesis by blast
qed

text \<open>
  Property C33. The typed writes refine appending to the sequence of written bytes: on a
  well-formed buffer every write returns normally, appends exactly the encoding of the value
  when it fits below the last byte of the array, and changes nothing at all otherwise; the read
  cursor and the size never change and the buffer stays well-formed.
\<close>

theorem writes_refine_append:
  assumes "bb_ok b" and "length s < 9223372036854775806"
    and "(op, bs) \<in> {(writeChar c, [c]), (writeShort h, object_bytes 2 h), (writeInt i, object_bytes 4 i),
      (writeLong l, object_bytes 8 l), (writeFloat f, object_bytes 4 f),
      (writeDouble d, object_bytes 8 d), (writeString s, string_bytes s)}"
  shows "\<exists>b'. op b = (Inr (), b') \<and> bb_ok b' \<and> bb_size b' = bb_size b \<and>
    bb_read b' = bb_read b \<and>
    (if bb_used b + length bs < bb_size b
     then bb_written b' = bb_written b @ bs \<and> bb_unread b' = bb_unread b @ bs else b' = b)"
proof -
  have "op b = (Inr (), if bb_room (length bs) b then bb_append bs b else b)"
    using assms(2,3) by (auto simp: write_specs [OF assms(1)] add.commute)
  then show ?thesis
    using assms(1) bb_ok_append bb_written_append bb_unread_append
    by (cases "bb_room (length bs) b") (simp_all add: bb_room_def)
qed

theorem writes_refine_append_witness:
  "\<exists>b'. writeInt 258 (ByteBuffer_sized (\<lambda>_. 0) 16) = (Inr (), b') \<and> bb_ok b' \<and> bb_size b' = 16 \<and>
    bb_written b' = [2, 1, 0, 0]"
proof -
  let ?b = "ByteBuffer_sized (\<lambda>_. 0) 16"
  have ok: "bb_ok ?b" by (rule ByteBuffer_sized_ok) simp_all
  have len: "length ''a'' < 9223372036854775806" by simp
  have mem: "(writeInt 258, object_bytes 4 (258 :: 32 word)) \<in> {(writeChar 0, [0]), (writeShort 0, object_bytes 2 (0 :: 16 word)),
     (writeInt 258, object_bytes 4 (258 :: 32 word)), (writeLong 0, object_bytes 8 (0 :: 64 word)),
     (writeFloat 0, object_bytes 4 (0 :: 32 word)), (writeDouble 0, object_bytes 8 (0 :: 64 word)),
     (writeString ''a'', string_bytes ''a'')}" by simp
  have empty: "bb_written ?b = []" by (simp add: bb_written_def ByteBuffer_sized_ok split: option.splits)
  have bytes: "object_bytes 4 (258 :: 32 word) = [2, 1, 0, 0]"
    by (simp add: object_bytes_def upt_rec)
  from writes_refine_append [OF ok len mem] show ?thesis
    by (auto simp: ByteBuffer_sized_ok empty bytes)
qed

text \<open>
  A string of at most 65535 characters written into a well-formed buffer with room
  is read back unchanged, and reading consumes exactly what was written.
\<close>

theorem string_roundtrip:
  assumes "bb_ok b" and "length s < 65536" and "bb_used b + length s + 2 < bb_size b"
    and "bb_unread b = []"
  shows "\<exists>b'. sx_seq (writeString s) readString b = (Inr s, b') \<and> bb_ok b' \<and> bb_unread b' = []"
proof -
  have room: "bb_room (length (string_bytes s)) b" using assms(3) by (simp add: bb_room_def)
  note string_codec.roundtrip [OF assms(1) room assms(2) assms(4)]
  moreover have "bb_unread (bb_append (string_bytes s) b) = string_bytes s"
    using bb_unread_append [OF assms(1) room] assms(4) by simp
  ultimately show ?thesis
    using bb_ok_append [OF assms(1) room] by (auto simp: bb_ok_skip bb_unread_skip)
qed

theorem string_roundtrip_witness:
  "\<exists>b'. sx_seq (writeString ''remolon'') readString (ByteBuffer_sized (\<lambda>_. 0) 32) = (Inr ''remolon'', b') \<and>
    bb_ok b' \<and> bb_unread b' = []"
  by (rule string_roundtrip) (simp_all add: ByteBuffer_sized_ok)

text \<open>
  The shift-and-mask encodings lose nothing at any width: a short, an int, a long, a
  float or a double that fits is read back bit for bit, whatever its sign.
\<close>

theorem scalar_roundtrip:
  assumes "bb_ok b" and "bb_used b + 8 < bb_size b" and "bb_unread b = []"
  shows "fst (sx_seq (writeShort h) readShort b) = Inr h \<and>
    fst (sx_seq (writeInt i) readInt b) = Inr i \<and>
    fst (sx_seq (writeLong l) readLong b) = Inr l \<and>
    fst (sx_seq (writeFloat f) readFloat b) = Inr f \<and>
    fst (sx_seq (writeDouble d) readDouble b) = Inr d"
proof -
  have room: "bb_room n b" if "n \<le> 8" for n using that assms(2) by (simp add: bb_room_def)
  show ?thesis
    by (simp add: short_codec.roundtrip int_codec.roundtrip long_codec.roundtrip
        float_codec.roundtrip double_codec.roundtrip assms room)
qed

theorem scalar_roundtrip_witness:
  "fst (sx_seq (writeInt (- 2)) readInt (ByteBuffer_sized (\<lambda>_. 0) 16)) = Inr (- 2)"
  using scalar_roundtrip [of "ByteBuffer_sized (\<lambda>_. 0) 16" 0 "- 2" 0 0 0]
  by (simp add: ByteBuffer_sized_ok)

text \<open>
  \<open>compact\<close> moves the unread bytes to the front and keeps them, unless the move
  overlaps itself: with a read cursor strictly between 0 and the number of unread bytes the
  \<open>memcpy\<close> is undefined.
\<close>

theorem compact_keeps_unread:
  assumes "bb_ok b" and "bb_buf b \<noteq> None"
  shows "if 0 < bb_read b \<and> bb_read b < length (bb_unread b)
    then compact b = (Inl (UB Overlapping_copy), b)
    else (\<exists>b'. compact b = (Inr (), b') \<and> bb_ok b' \<and> bb_unread b' = bb_unread b \<and> bb_read b' = 0)"
proof (cases "0 < bb_read b \<and> bb_read b < length (bb_unread b)")
  case True
  then show ?thesis using assms by (simp add: compact_def Let_def remaining_read)
next
  case False
  then show ?thesis using compact_spec [OF assms] by auto
qed

theorem compact_keeps_unread_witness:
  "compact (bb_skip 1 (bb_append [1, 2, 3, 4] (ByteBuffer_sized (\<lambda>_. 0) 16))) =
    (Inl (UB Overlapping_copy), bb_skip 1 (bb_append [1, 2, 3, 4] (ByteBuffer_sized (\<lambda>_. 0) 16)))"
proof -
  let ?a = "bb_append [1, 2, 3, 4] (ByteBuffer_sized (\<lambda>_. 0) 16)"
  have ok: "bb_ok ?a" by (rule bb_ok_append) (simp_all add: ByteBuffer_sized_ok bb_room_def)
  have u: "bb_unread ?a = [1, 2, 3, 4]"
    using bb_unread_append [of "ByteBuffer_sized (\<lambda>_. 0) 16" "[1, 2, 3, 4]"]
    by (simp add: ByteBuffer_sized_ok bb_room_def)
  have ok': "bb_ok (bb_skip 1 ?a)" using ok u by (simp add: bb_ok_skip)
  have buf: "bb_buf (bb_skip 1 ?a) \<noteq> None"
    by (simp add: bb_append_def ByteBuffer_sized_def resize_def)
  show ?thesis
    using compact_keeps_unread [OF ok' buf] by (simp add: bb_unread_skip u ByteBuffer_sized_ok)
qed

end
