(* ===== verification/Packet.thy ===== *)
theory Packet
  imports ByteBuffer
begin

text \<open>
  The packet base classes of \<open>ReMoLON_Util/Packet.h\<close> and \<open>src/Packet.cpp\<close>.

  A packet holds a pointer \<open>_buf\<close> to the buffer of whoever sends or receives it. The functions
  here act on what the pointer refers to: the state of a sendable packet is
  \<open>bytebuffer option\<close> with \<open>None\<close> for the null pointer, which every typed access tests and
  \<open>writePacket\<close> does not. A receivable packet may also change the receiving program
  (\<open>clientpackets::NodeInfo\<close> does so while it is read), so its state is a pair of a world
  \<open>'w\<close> and the pointed-to buffer. The virtual functions \<open>getOpcode\<close>, \<open>writeImpl\<close> and
  \<open>readImpl\<close> of the concrete packet are arguments.
\<close>

section \<open>SendablePacket\<close>

definition on_buffer :: "(bytebuffer, unit) sx \<Rightarrow> (bytebuffer option, unit) sx" where
  "on_buffer m bo =
     (case bo of
        None \<Rightarrow> (Inr (), None)
      | Some b \<Rightarrow> (case m b of (r, b') \<Rightarrow> (r, Some b')))"

definition sp_writeChar :: "byte \<Rightarrow> (bytebuffer option, unit) sx" where
  "sp_writeChar c = on_buffer (writeChar c)"

definition sp_writeShort :: "16 word \<Rightarrow> (bytebuffer option, unit) sx" where
  "sp_writeShort s = on_buffer (writeShort s)"

definition sp_writeInt :: "32 word \<Rightarrow> (bytebuffer option, unit) sx" where
  "sp_writeInt i = on_buffer (writeInt i)"

definition sp_writeLong :: "64 word \<Rightarrow> (bytebuffer option, unit) sx" where
  "sp_writeLong l = on_buffer (writeLong l)"

definition sp_writeFloat :: "32 word \<Rightarrow> (bytebuffer option, unit) sx" where
  "sp_writeFloat f = on_buffer (writeFloat f)"

definition sp_writeDouble :: "64 word \<Rightarrow> (bytebuffer option, unit) sx" where
  "sp_writeDouble d = on_buffer (writeDouble d)"

definition sp_writeString :: "string \<Rightarrow> (bytebuffer option, unit) sx" where
  "sp_writeString s = on_buffer (writeString s)"

text \<open>
  \<open>short PacketSize = (short) after - contentStart\<close>: the cast binds to \<open>after\<close> alone, the
  subtraction is done in \<open>std::size_t\<close> and the result is narrowed again.
\<close>

definition packet_size :: "nat \<Rightarrow> nat \<Rightarrow> 16 word" where
  "packet_size after contentStart =
     ucast ((scast (word_of_nat after :: 16 word) :: 64 word) - word_of_nat contentStart)"

definition writePacket :: "byte \<Rightarrow> (bytebuffer option, unit) sx \<Rightarrow> (bytebuffer option, unit) sx" where
  "writePacket opcode writeImpl bo =
     (case bo of
        None \<Rightarrow> (Inl (UB Null_deref), None)
      | Some b \<Rightarrow>
          (let before = getWritePos b;
               contentStart = size_add (size_add before 1) 2
           in case writeImpl (Some (setWritePos contentStart b)) of
                (Inl e, bo') \<Rightarrow> (Inl e, bo')
              | (Inr _, None) \<Rightarrow> (Inl (UB Null_deref), None)
              | (Inr _, Some b1) \<Rightarrow>
                  (let after = getWritePos b1;
                       PacketSize = packet_size after contentStart
                   in on_buffer
                        (sx_seq (sx_modify (setWritePos before))
                          (sx_seq (writeChar opcode)
                            (sx_seq (writeShort PacketSize)
                              (sx_modify (setWritePos after)))))
                        (Some b1))))"

section \<open>ReceivablePacket\<close>

text \<open>A read through a null buffer pointer returns the default value of its type.\<close>

definition from_buffer :: "'a \<Rightarrow> (bytebuffer, 'a) sx \<Rightarrow> ('w \<times> bytebuffer option, 'a) sx" where
  "from_buffer dflt m st =
     (case st of
        (w, None) \<Rightarrow> (Inr dflt, (w, None))
      | (w, Some b) \<Rightarrow> (case m b of (r, b') \<Rightarrow> (r, (w, Some b'))))"

definition rp_readChar :: "('w \<times> bytebuffer option, byte) sx" where
  "rp_readChar = from_buffer 0 readChar"

definition rp_readShort :: "('w \<times> bytebuffer option, 16 word) sx" where
  "rp_readShort = from_buffer 0 readShort"

definition rp_readInt :: "('w \<times> bytebuffer option, 32 word) sx" where
  "rp_readInt = from_buffer 0 readInt"

definition rp_readLong :: "('w \<times> bytebuffer option, 64 word) sx" where
  "rp_readLong = from_buffer 0 readLong"

definition rp_readFloat :: "('w \<times> bytebuffer option, 32 word) sx" where
  "rp_readFloat = from_buffer 0 readFloat"

definition rp_readDouble :: "('w \<times> bytebuffer option, 64 word) sx" where
  "rp_readDouble = from_buffer 0 readDouble"

definition rp_readString :: "('w \<times> bytebuffer option, string) sx" where
  "rp_readString = from_buffer [] readString"

text \<open>\<open>ReceivablePacket::run\<close> executes the packet's action; the base \<open>Packet::run\<close> does nothing.\<close>

definition Packet_run :: "('w, unit) sx" where
  "Packet_run = sx_return ()"

definition ReceivablePacket_run :: "('w, unit) sx \<Rightarrow> ('w, unit) sx" where
  "ReceivablePacket_run executePacketAction = executePacketAction"

section \<open>Content of packets\<close>

text \<open>
  \<open>writes_bytes p bs\<close>: on any well-formed buffer with room, \<open>p\<close> appends exactly \<open>bs\<close>.
  \<open>reads_bytes m bs x\<close>: with \<open>bs\<close> at the front of the unread bytes, \<open>m\<close> takes them off,
  returns \<open>x\<close> and leaves the world alone. Both compose over sequences of accesses.
\<close>

definition writes_bytes :: "(bytebuffer option, unit) sx \<Rightarrow> byte list \<Rightarrow> bool" where
  "writes_bytes p bs \<longleftrightarrow>
     (\<forall>b. bb_ok b \<and> bb_room (length bs) b \<longrightarrow> p (Some b) = (Inr (), Some (bb_append bs b)))"

definition reads_bytes :: "('w \<times> bytebuffer option, 'a) sx \<Rightarrow> byte list \<Rightarrow> 'a \<Rightarrow> bool" where
  "reads_bytes m bs x \<longleftrightarrow>
     (\<forall>w b rest. bb_ok b \<and> bb_unread b = bs @ rest \<longrightarrow>
        m (w, Some b) = (Inr x, (w, Some (bb_skip (length bs) b))))"

named_theorems content_intros "composition of packet contents"

lemma writes_bytes_seq [content_intros]:
  assumes "writes_bytes p bs" and "writes_bytes q cs"
  shows "writes_bytes (sx_seq p q) (bs @ cs)"
  unfolding writes_bytes_def
proof (intro allI impI, elim conjE)
  fix b assume ok: "bb_ok b" and room: "bb_room (length (bs @ cs)) b"
  then have "bb_room (length bs) b" "bb_room (length bs + length cs) b"
    by (simp_all add: bb_room_def)
  moreover from this ok have "bb_ok (bb_append bs b)" "bb_room (length cs) (bb_append bs b)"
    by (auto simp: bb_ok_append bb_room_def)
  ultimately show "sx_seq p q (Some b) = (Inr (), Some (bb_append (bs @ cs) b))"
    using assms ok by (simp add: writes_bytes_def sx_seq_Inr bb_append_append)
qed

lemma writes_bytes_return [content_intros]: "writes_bytes (sx_return ()) []"
  by (auto simp: writes_bytes_def sx_return_def bb_append_def map_option.id [unfolded id_def]
      intro!: bytebuffer.equality split: option.splits)

lemma writes_char [content_intros]: "writes_bytes (sp_writeChar c) [c]"
  by (simp add: writes_bytes_def sp_writeChar_def on_buffer_def writeChar_spec)

lemma writes_short [content_intros]: "writes_bytes (sp_writeShort s) (object_bytes 2 s)"
  by (simp add: writes_bytes_def sp_writeShort_def on_buffer_def writeShort_spec)

lemma writes_int [content_intros]: "writes_bytes (sp_writeInt i) (object_bytes 4 i)"
  by (simp add: writes_bytes_def sp_writeInt_def on_buffer_def writeInt_spec)

lemma writes_string [content_intros]: "writes_bytes (sp_writeString s) (string_bytes s)"
  by (simp add: writes_bytes_def sp_writeString_def on_buffer_def string_codec.write_room)

lemma reads_bytes_bind [content_intros]:
  assumes "reads_bytes m bs x" and "reads_bytes (f x) cs y"
  shows "reads_bytes (sx_bind m f) (bs @ cs) y"
  unfolding reads_bytes_def
proof (intro allI impI, elim conjE)
  fix w :: 'a and b rest assume ok: "bb_ok b" and u: "bb_unread b = (bs @ cs) @ rest"
  have "m (w, Some b) = (Inr x, (w, Some (bb_skip (length bs) b)))"
    using assms(1) ok u by (simp add: reads_bytes_def)
  moreover have "bb_ok (bb_skip (length bs) b)" using ok u by (simp add: bb_ok_skip)
  moreover have "bb_unread (bb_skip (length bs) b) = cs @ rest" using u by (simp add: bb_unread_skip)
  ultimately show "sx_bind m f (w, Some b) = (Inr y, (w, Some (bb_skip (length (bs @ cs)) b)))"
    using assms(2) by (simp add: reads_bytes_def sx_bind_Inr)
qed

lemma reads_bytes_return [content_intros]: "reads_bytes (sx_return x) [] x"
  by (simp add: reads_bytes_def sx_return_def)

lemma reads_bytes_last:
  assumes "reads_bytes m bs x" and "f x = y"
  shows "reads_bytes (sx_bind m (\<lambda>z. sx_return (f z))) bs y"
proof -
  have "reads_bytes (sx_bind m (\<lambda>z. sx_return (f z))) (bs @ []) (f x)"
    by (rule reads_bytes_bind [OF assms(1)]) (rule reads_bytes_return)
  then show ?thesis using assms(2) by simp
qed

lemma reads_short [content_intros]: "reads_bytes rp_readShort (object_bytes 2 s) s"
  by (simp add: reads_bytes_def rp_readShort_def from_buffer_def short_codec.read_back)

lemma reads_int [content_intros]: "reads_bytes rp_readInt (object_bytes 4 i) i"
  by (simp add: reads_bytes_def rp_readInt_def from_buffer_def int_codec.read_back)

lemma reads_string [content_intros]:
  "length s < 65536 \<Longrightarrow> reads_bytes rp_readString (string_bytes s) s"
  by (simp add: reads_bytes_def rp_readString_def from_buffer_def string_codec.read_back)

section \<open>Framing\<close>

lemma ucast_diff_64_16: "(ucast (x - y :: 64 word) :: 16 word) = ucast x - ucast y"
proof transfer
  fix x y :: int
  have "(x - y) mod 65536 = (x mod 18446744073709551616 - y mod 18446744073709551616) mod 65536"
    by (rule mod_diff_cong) (simp_all add: mod_mod_cancel)
  then show "take_bit LENGTH(16) (take_bit LENGTH(64) (x - y)) =
      take_bit LENGTH(16) (take_bit LENGTH(64) x - take_bit LENGTH(64) y)"
    by (simp add: take_bit_eq_mod mod_mod_cancel)
qed

lemma ucast_scast_16: "(ucast (scast (w :: 16 word) :: 64 word) :: 16 word) = w"
  by (rule bit_word_eqI) (auto simp: bit_simps)

lemma ucast_of_nat_16: "(ucast (word_of_nat n :: 64 word) :: 16 word) = word_of_nat n"
  by transfer (simp add: take_bit_eq_mod mod_simps mod_mod_cancel)

lemma bb_header_gap:
  assumes "bb_ok b" and "bb_room (k + length cs) b" and "length hdr = k"
  shows "bb_append hdr (setWritePos (bb_used b) (bb_append cs (setWritePos (bb_used b + k) b)))
     \<lparr>bb_used := bb_used b + k + length cs\<rparr> = bb_append (hdr @ cs) b"
  using assms(1,2)
  by (rule bb_ok_room_buf) (use assms(3) in \<open>auto simp: bb_append_def setWritePos_def min_def algebra_simps\<close>)

text \<open>
  A packet with content \<open>cs\<close> is framed as opcode, length and content, provided the whole frame
  fits.
\<close>

definition frame :: "byte \<Rightarrow> byte list \<Rightarrow> byte list" where
  "frame opcode cs = opcode # object_bytes 2 (word_of_nat (length cs) :: 16 word) @ cs"

lemma length_frame [simp]: "length (frame opcode cs) = length cs + 3"
  by (simp add: frame_def)

lemma packet_size_eq:
  assumes "contentStart \<le> after"
  shows "packet_size after contentStart = word_of_nat (after - contentStart)"
proof -
  have "packet_size after contentStart = word_of_nat after - word_of_nat contentStart"
    by (simp add: packet_size_def ucast_diff_64_16 ucast_scast_16 ucast_of_nat_16)
  also have "\<dots> = word_of_nat (after - contentStart)" using assms by (simp add: of_nat_diff)
  finally show ?thesis .
qed

lemma bb_ok_setWritePos:
  "bb_ok b \<Longrightarrow> bb_read b \<le> n \<Longrightarrow> n \<le> bb_size b \<Longrightarrow> bb_ok (setWritePos n b)"
  by (cases "bb_buf b") (simp_all add: bb_ok_def setWritePos_def)

lemma writePacket_frame:
  assumes ok: "bb_ok b" and room: "bb_room (length cs + 3) b" and w: "writes_bytes p cs"
  shows "writePacket opcode p (Some b) = (Inr (), Some (bb_append (frame opcode cs) b))"
proof -
  let ?u = "bb_used b"
  let ?b0 = "setWritePos (?u + 3) b"
  let ?b1 = "bb_append cs ?b0"
  let ?b2 = "setWritePos ?u ?b1"
  let ?sz = "word_of_nat (length cs) :: 16 word"
  have lt: "?u + length cs + 3 < bb_size b" "bb_read b \<le> ?u" "?u + 3 < size_modulus"
    using room ok by (auto simp: bb_room_def bb_ok_def size_modulus_def)
  have ok0: "bb_ok ?b0" using ok lt by (intro bb_ok_setWritePos) auto
  have room0: "bb_room (length cs) ?b0" using lt by (simp add: bb_room_def setWritePos_def)
  have content: "p (Some ?b0) = (Inr (), Some ?b1)"
    using w ok0 room0 by (simp add: writes_bytes_def)
  have ok1: "bb_ok ?b1" using ok0 room0 by (rule bb_ok_append)
  have ok2: "bb_ok ?b2"
    using ok1 lt by (intro bb_ok_setWritePos) (auto simp: setWritePos_def)
  have used2: "bb_used ?b2 = ?u" "bb_size ?b2 = bb_size b" by (simp_all add: setWritePos_def)
  have room2: "bb_room 1 ?b2" "bb_room 2 (bb_append [opcode] ?b2)"
      "bb_room (length [opcode] + length (object_bytes 2 ?sz)) ?b2"
    using lt by (simp_all add: bb_room_def used2)
  have ok3: "bb_ok (bb_append [opcode] ?b2)" using ok2 room2 by (simp add: bb_ok_append)
  have size: "packet_size (getWritePos ?b1) (?u + 3) = ?sz"
    by (simp add: packet_size_eq getWritePos_def setWritePos_def)
  have hdr: "bb_append (object_bytes 2 ?sz) (bb_append [opcode] ?b2) = bb_append (opcode # object_bytes 2 ?sz) ?b2"
    using bb_append_append [OF ok2 room2(3)] by simp
  have "setWritePos (getWritePos ?b1) (bb_append (opcode # object_bytes 2 ?sz) ?b2) = bb_append (frame opcode cs) b"
    using bb_header_gap [of b 3 cs "opcode # object_bytes 2 ?sz"] ok room
    by (simp add: frame_def setWritePos_def getWritePos_def add.commute)
  then have tail: "on_buffer
      (sx_seq (sx_modify (setWritePos (getWritePos b)))
        (sx_seq (writeChar opcode)
          (sx_seq (writeShort ?sz) (sx_modify (setWritePos (getWritePos ?b1)))))) (Some ?b1) =
      (Inr (), Some (bb_append (frame opcode cs) b))"
    using hdr ok2 ok3 room2
    by (simp add: getWritePos_def [of b] on_buffer_def sx_seq_def sx_bind_def sx_modify_def
        writeChar_spec writeShort_spec)
  have start: "size_add (size_add (getWritePos b) 1) 2 = ?u + 3"
    using lt by (simp add: getWritePos_def)
  show ?thesis
    unfolding writePacket_def Let_def option.case start content prod.case sum.case size tail ..
qed

section \<open>Properties\<close>

text \<open>
  Property C23. \<open>writePacket\<close> reserves the header, writes the content behind it and comes back to
  fill the header in. When the whole frame fits, the result is exactly opcode, content length
  and content appended to the buffer: the cast of \<open>after\<close> alone does not spoil the length,
  whatever the position of the packet in the buffer. Nothing else is touched: the bytes before and
  behind the frame, the read cursor and the size are as before.
\<close>

theorem writePacket_appends_frame:
  assumes "bb_ok b" and "bb_used b + length cs + 3 < bb_size b" and "writes_bytes p cs"
    and f: "f = [opcode] @ object_bytes 2 (word_of_nat (length cs) :: 16 word) @ cs"
  shows "\<exists>b'. writePacket opcode p (Some b) = (Inr (), Some b') \<and> bb_ok b' \<and>
    b' = b\<lparr>bb_buf := map_option (\<lambda>d. take (bb_used b) d @ f @ drop (bb_used b + length f) d) (bb_buf b),
           bb_used := bb_used b + length f\<rparr> \<and>
    bb_written b' = bb_written b @ f \<and> bb_unread b' = bb_unread b @ f"
proof -
  have room: "bb_room (length cs + 3) b" "bb_room (length (frame opcode cs)) b"
    using assms(2) by (simp_all add: bb_room_def)
  show ?thesis
    using writePacket_frame [OF assms(1) room(1) assms(3)] bb_ok_append [OF assms(1) room(2)]
      bb_written_append [OF assms(1) room(2)] bb_unread_append [OF assms(1) room(2)]
    by (simp add: frame_def bb_append_def f)
qed

theorem writePacket_appends_frame_witness:
  "\<exists>b'. writePacket 2 (sp_writeString ''ab'') (Some (ByteBuffer_sized (\<lambda>_. 0) 16)) = (Inr (), Some b') \<and>
    bb_ok b' \<and> bb_read b' = 0 \<and> bb_size b' = 16 \<and> bb_written b' = [2, 4, 0, 2, 0, 97, 98]"
proof -
  let ?b = "ByteBuffer_sized (\<lambda>_. 0) 16"
  have ok: "bb_ok ?b" by (rule ByteBuffer_sized_ok) simp_all
  have room: "bb_used ?b + length (string_bytes ''ab'') + 3 < bb_size ?b"
    by (simp add: ByteBuffer_sized_ok)
  have empty: "bb_written ?b = []" by (simp add: bb_written_def ByteBuffer_sized_ok split: option.splits)
  have bytes: "object_bytes 2 (4 :: 16 word) = [4, 0]" "string_bytes ''ab'' = [2, 0, 97, 98]"
    by (simp_all add: object_bytes_def upt_rec string_bytes_def byte_of_char_def)
  from writePacket_appends_frame [OF ok room writes_string refl, of 2] show ?thesis
    by (auto simp: empty bytes ByteBuffer_sized_ok)
qed

text \<open>
  The length field written for a packet is the content length modulo 65536: up to
  65535 bytes of content it is exact, above that the receiver is told a smaller packet.
\<close>

theorem packet_size_modulo:
  assumes "contentStart \<le> after"
  shows "unat (packet_size after contentStart) = (after - contentStart) mod 65536"
  by (simp add: packet_size_eq [OF assms] unat_of_nat take_bit_eq_mod)

theorem packet_size_modulo_witness: "unat (packet_size 40000 3) = 39997"
  using packet_size_modulo [of 3 40000] by simp

end
