(* ===== verification/PacketHandler.thy ===== *)
theory PacketHandler
  imports Packet
begin

text \<open>
  The packet handler of \<open>ReMoLON_Util/PacketHandler.h\<close> and \<open>src/PacketHandler.cpp\<close>: the table of
  packet factories indexed by opcode, and \<open>handlePacket\<close>, which takes one packet off the
  front of a receive buffer.

  A factory is the kind \<open>'k\<close> of packet it creates; \<open>readImpl\<close> is the virtual function of that
  kind. \<open>char\<close> is signed on the platforms the project builds on, so an opcode is sign-extended
  where it becomes an index or an \<open>unsigned int\<close>.

  The locale \<open>frame_protocol\<close> is the interface between a sending and a receiving packet class:
  the content one writes is the content the other reads.
\<close>

section \<open>The handler\<close>

record 'k packetHandler =
  packetFactories :: "'k option list"

definition PacketHandler_new :: "'k packetHandler" where
  "PacketHandler_new = \<lparr>packetFactories = replicate 256 None\<rparr>"

text \<open>\<open>derived\<close> is the compile-time test that the class is a \<open>ReceivablePacket\<close>.\<close>

definition registerPacketFactory ::
  "bool \<Rightarrow> byte \<Rightarrow> 'k \<Rightarrow> 'k packetHandler \<Rightarrow> (cpp_error + unit) \<times> 'k packetHandler" where
  "registerPacketFactory derived packetOpcode factory h =
     (if derived
      then (let opcode = unat (scast packetOpcode :: 32 word)
            in if opcode \<ge> length (packetFactories h)
               then (Inl (Runtime_error ''packetHandler: Attempted to register a packet with a higher opcode than supoorted''), h)
               else (Inr (), h\<lparr>packetFactories := (packetFactories h)[opcode := Some factory]\<rparr>))
      else (Inl (Runtime_error ''packetHandler: Attempted to create a packet factory of a non-derived packet class''), h))"

text \<open>\<open>_packetFactories [ packetOpcode ]\<close>: an unchecked access.\<close>

definition factory_at :: "'k packetHandler \<Rightarrow> byte \<Rightarrow> cpp_error + 'k option" where
  "factory_at h packetOpcode =
     (let i = unat (scast packetOpcode :: 64 word)
      in if i < length (packetFactories h) then Inr (packetFactories h ! i) else Inl (UB Out_of_bounds))"

definition unknown_packet :: "byte \<Rightarrow> string \<Rightarrow> cpp_error" where
  "unknown_packet packetOpcode clientAddress =
     Runtime_error (''unknown packet with opcode '' @ to_string_int (sint packetOpcode) @
       '' from '' @ clientAddress)"

definition on_world :: "(bytebuffer, 'a) sx \<Rightarrow> ('w \<times> bytebuffer, 'a) sx" where
  "on_world m st = (case st of (w, b) \<Rightarrow> (case m b of (r, b') \<Rightarrow> (r, (w, b'))))"

text \<open>The body of the loop: it returns or throws on every path.\<close>

definition handle_one ::
  "('k \<Rightarrow> ('w \<times> bytebuffer option, 'p) sx) \<Rightarrow> 'k packetHandler \<Rightarrow> string \<Rightarrow>
   ('w \<times> bytebuffer, 'p option) sx" where
  "handle_one readImpl h clientAddress st =
     (let packetBeginsAt = getReadPos (snd st) in
      sx_bind (on_world readChar) (\<lambda>packetOpcode.
      sx_bind (on_world readShort) (\<lambda>rawSize. \<lambda>(w, b).
        (let packetSize = unat rawSize in
         if packetSize > getSize b \<and> packetBeginsAt = 0
         then (Inl (Runtime_error ''packet size is bigger than buffer ''), (w, b))
         else if packetSize > getRemainingReadSize b
         then sx_seq (on_world compact) (sx_return None) (w, setReadPos packetBeginsAt b)
         else (case factory_at h packetOpcode of
                 Inl e \<Rightarrow> (Inl e, (w, b))
               | Inr None \<Rightarrow> (Inl (unknown_packet packetOpcode clientAddress), (w, b))
               | Inr (Some kind) \<Rightarrow>
                   (case readImpl kind (w, Some b) of
                      (r, (w', bo)) \<Rightarrow>
                        (map_sum id Some r, (w', (case bo of None \<Rightarrow> b | Some b' \<Rightarrow> b')))))))) st)"

definition handlePacket ::
  "('k \<Rightarrow> ('w \<times> bytebuffer option, 'p) sx) \<Rightarrow> 'k packetHandler \<Rightarrow> string \<Rightarrow>
   ('w \<times> bytebuffer, 'p option) sx" where
  "handlePacket readImpl h clientAddress st =
     (if getReadPos (snd st) < getWritePos (snd st)
      then handle_one readImpl h clientAddress st
      else (Inr None, st))"

section \<open>Header parsing\<close>

text \<open>\<open>reads_as m bs out\<close> is \<open>reads_bytes\<close> for a read that also acts on the world.\<close>

definition reads_as ::
  "('w \<times> bytebuffer option, 'a) sx \<Rightarrow> byte list \<Rightarrow> ('w \<Rightarrow> 'a \<times> 'w) \<Rightarrow> bool" where
  "reads_as m bs out \<longleftrightarrow>
     (\<forall>w b rest. bb_ok b \<and> bb_unread b = bs @ rest \<longrightarrow>
        m (w, Some b) = (Inr (fst (out w)), (snd (out w), Some (bb_skip (length bs) b))))"

lemma reads_bytes_as: "reads_bytes m bs x \<Longrightarrow> reads_as m bs (\<lambda>w. (x, w))"
  by (simp add: reads_bytes_def reads_as_def)

lemma reads_as_bind:
  assumes "reads_bytes m bs x" and "reads_as (f x) cs out"
  shows "reads_as (sx_bind m f) (bs @ cs) out"
  unfolding reads_as_def
proof (intro allI impI, elim conjE)
  fix w :: 'a and b rest assume ok: "bb_ok b" and u: "bb_unread b = (bs @ cs) @ rest"
  have "m (w, Some b) = (Inr x, (w, Some (bb_skip (length bs) b)))"
    using assms(1) ok u by (simp add: reads_bytes_def)
  moreover have "bb_ok (bb_skip (length bs) b)" using ok u by (simp add: bb_ok_skip)
  moreover have "bb_unread (bb_skip (length bs) b) = cs @ rest" using u by (simp add: bb_unread_skip)
  ultimately show "sx_bind m f (w, Some b) =
      (Inr (fst (out w)), (snd (out w), Some (bb_skip (length (bs @ cs)) b)))"
    using assms(2) by (simp add: reads_as_def sx_bind_Inr)
qed

lemma index_small:
  "unat packetOpcode < 128 \<Longrightarrow> unat (scast (packetOpcode :: byte) :: 64 word) = unat packetOpcode"
  by (simp add: unat_scast_byte)

lemma index_large:
  "128 \<le> unat packetOpcode \<Longrightarrow> 256 \<le> unat (scast (packetOpcode :: byte) :: 64 word)"
  by (simp add: unat_scast_byte)

lemma handlePacket_idle: "bb_ok b \<Longrightarrow> bb_unread b = [] \<Longrightarrow> handlePacket rd h addr (w, b) = (Inr None, (w, b))"
  by (auto simp: handlePacket_def getReadPos_def getWritePos_def dest: length_bb_unread)

lemma handle_header:
  assumes "bb_ok b" and "bb_unread b = op # object_bytes 2 (sz :: 16 word) @ rest"
  shows "handlePacket rd h addr (w, b) =
    (let b' = bb_skip 3 b; packetSize = unat sz in
     if packetSize > bb_size b \<and> bb_read b = 0
     then (Inl (Runtime_error ''packet size is bigger than buffer ''), (w, b'))
     else if packetSize > length rest
     then (case compact b of (r, b2) \<Rightarrow> (map_sum id (\<lambda>_. None) r, (w, b2)))
     else (case factory_at h op of
             Inl e \<Rightarrow> (Inl e, (w, b'))
           | Inr None \<Rightarrow> (Inl (unknown_packet op addr), (w, b'))
           | Inr (Some kind) \<Rightarrow>
               (case rd kind (w, Some b') of
                  (r, (w', bo)) \<Rightarrow>
                    (map_sum id Some r, (w', (case bo of None \<Rightarrow> b' | Some b1 \<Rightarrow> b1))))))"
proof -
  have lt: "bb_read b < bb_used b"
    using assms length_bb_unread [OF assms(1)] by (cases "bb_read b < bb_used b") auto
  have c: "readChar b = (Inr op, bb_skip 1 b)"
    using char_codec.read_back [OF assms(1), of op "object_bytes 2 sz @ rest"] assms(2) by simp
  have ok1: "bb_ok (bb_skip 1 b)" using assms by (simp add: bb_ok_skip)
  have u1: "bb_unread (bb_skip 1 b) = object_bytes 2 sz @ rest" using assms(2) by (simp add: bb_unread_skip)
  have s: "readShort (bb_skip 1 b) = (Inr sz, bb_skip 3 b)"
    using short_codec.read_back [OF ok1 _ u1] by simp
  have ok3: "bb_ok (bb_skip 3 b)" using assms by (simp add: bb_ok_skip)
  have "bb_unread (bb_skip 3 b) = rest" using assms(2) by (simp add: bb_unread_skip numeral_eq_Suc)
  then have rem: "getRemainingReadSize (bb_skip 3 b) = length rest"
    using remaining_read [OF ok3] by simp
  have restore: "setReadPos (bb_read b) (bb_skip 3 b) = b"
    by (simp add: setReadPos_def bb_skip_def)
  have step1: "on_world readChar (w, b) = (Inr op, (w, bb_skip 1 b))" by (simp add: on_world_def c)
  have step2: "on_world readShort (w, bb_skip 1 b) = (Inr sz, (w, bb_skip 3 b))"
    using s by (simp add: on_world_def)
  have bind1: "sx_bind (on_world readChar) f (w, b) = f op (w, bb_skip 1 b)" for f
    using step1 by (simp add: sx_bind_def)
  have bind2: "sx_bind (on_world readShort) f (w, bb_skip 1 b) = f sz (w, bb_skip 3 b)" for f
    using step2 by (simp add: sx_bind_def)
  have cmp: "sx_seq (on_world compact) (sx_return None) (w, b) =
      (case compact b of (r, b2) \<Rightarrow> (map_sum id (\<lambda>_. None) r, (w, b2)))"
    by (simp add: sx_seq_def sx_bind_def on_world_def sx_return_def split: sum.splits prod.splits)
  have run: "handlePacket rd h addr (w, b) = handle_one rd h addr (w, b)"
    using lt by (simp add: handlePacket_def getReadPos_def getWritePos_def)
  show ?thesis
    unfolding run handle_one_def snd_conv Let_def bind1 bind2 prod.case
      getReadPos_def getSize_def rem restore cmp bb_skip_simps ..
qed

lemma unat_length_16: "n < 65536 \<Longrightarrow> unat (word_of_nat n :: 16 word) = n"
  by (simp add: unat_of_nat take_bit_eq_mod)

lemma factory_at_small:
  "unat op < 128 \<Longrightarrow> unat op < length (packetFactories h) \<Longrightarrow>
   factory_at h op = Inr (packetFactories h ! unat op)"
  by (simp add: factory_at_def Let_def index_small)

lemma factory_at_large:
  "128 \<le> unat op \<Longrightarrow> length (packetFactories h) \<le> 256 \<Longrightarrow> factory_at h op = Inl (UB Out_of_bounds)"
  using index_large [of op] by (simp add: factory_at_def Let_def)

lemma handle_frame:
  assumes ok: "bb_ok b" and u: "bb_unread b = frame op cs @ rest" and len: "length cs < 65536"
    and fac: "factory_at h op = Inr (Some k)" and rd: "reads_as (rd k) cs out"
  shows "handlePacket rd h addr (w, b) =
    (Inr (Some (fst (out w))), (snd (out w), bb_skip (length cs + 3) b))"
proof -
  let ?sz = "word_of_nat (length cs) :: 16 word"
  have sz: "unat ?sz = length cs" by (rule unat_length_16 [OF len])
  have u': "bb_unread b = op # object_bytes 2 ?sz @ cs @ rest" using u by (simp add: frame_def)
  have ok3: "bb_ok (bb_skip 3 b)" using ok u' by (simp add: bb_ok_skip)
  have u3: "bb_unread (bb_skip 3 b) = cs @ rest" using u' by (simp add: bb_unread_skip numeral_eq_Suc)
  have "length (bb_unread b) \<le> bb_size b" using ok by (simp add: length_bb_unread) (auto simp: bb_ok_def)
  then have fits: "\<not> bb_size b < length cs" using u' by simp
  have r: "rd k (w, Some (bb_skip 3 b)) =
      (Inr (fst (out w)), (snd (out w), Some (bb_skip (length cs) (bb_skip 3 b))))"
    using rd ok3 u3 by (simp add: reads_as_def)
  show ?thesis
    unfolding handle_header [OF ok u'] Let_def sz
    using fits fac r by (simp add: add.commute)
qed

section \<open>Sender and receiver of a packet class\<close>

text \<open>
  What a class that is sent and the class it is received as agree on: the opcode, the content,
  and what the receiver makes of it (\<open>deliver\<close>, which may change the receiving program).
\<close>

locale frame_protocol =
  fixes opcode :: byte
    and writeImpl :: "'p \<Rightarrow> (bytebuffer option, unit) sx"
    and content :: "'p \<Rightarrow> byte list"
    and readImpl :: "('w \<times> bytebuffer option, 'q) sx"
    and deliver :: "'p \<Rightarrow> 'w \<Rightarrow> 'q \<times> 'w"
    and fits :: "'p \<Rightarrow> bool"
  assumes opcode_small: "unat opcode < 128"
    and writes: "writes_bytes (writeImpl p) (content p)"
    and reads: "fits p \<Longrightarrow> reads_as readImpl (content p) (deliver p)"
    and content_small: "fits p \<Longrightarrow> length (content p) < 65536"
begin

text \<open>The frame \<open>writePacket\<close> makes is the packet the handler delivers, whatever follows it.\<close>

lemma received:
  assumes "bb_ok b" and "bb_unread b = frame opcode (content p) @ rest" and "fits p"
    and "factory_at h opcode = Inr (Some k)" and "rd k = readImpl"
  shows "handlePacket rd h addr (w, b) =
    (Inr (Some (fst (deliver p w))), (snd (deliver p w), bb_skip (length (content p) + 3) b))"
proof -
  have "reads_as (rd k) (content p) (deliver p)" using assms(3,5) reads by simp
  from handle_frame [where rd = rd and k = k and out = "deliver p",
      OF assms(1,2) content_small [OF assms(3)] assms(4) this] show ?thesis .
qed

lemma sent:
  assumes "bb_ok b" and "bb_room (length (content p) + 3) b"
  shows "writePacket opcode (writeImpl p) (Some b) = (Inr (), Some (bb_append (frame opcode (content p)) b))"
  using writePacket_frame [OF assms writes] .

lemma transfer_packet:
  assumes "bb_ok b" and "bb_room (length (content p) + 3) b" and "bb_unread b = []" and "fits p"
    and "factory_at h opcode = Inr (Some k)" and "rd k = readImpl"
  shows "\<exists>b1 b2. writePacket opcode (writeImpl p) (Some b) = (Inr (), Some b1) \<and>
    handlePacket rd h addr (w, b1) = (Inr (Some (fst (deliver p w))), (snd (deliver p w), b2)) \<and>
    bb_ok b2 \<and> bb_unread b2 = []"
proof -
  let ?f = "frame opcode (content p)"
  have room: "bb_room (length ?f) b" using assms(2) by (simp add: bb_room_def)
  have ok: "bb_ok (bb_append ?f b)" using assms(1) room by (rule bb_ok_append)
  have u: "bb_unread (bb_append ?f b) = ?f @ []" using bb_unread_append [OF assms(1) room] assms(3) by simp
  show ?thesis
    using sent [OF assms(1,2)] received [where rd = rd and k = k, OF ok u assms(4-6)] u
    by (auto simp: bb_ok_skip ok bb_unread_skip)
qed

end

section \<open>Properties\<close>

text \<open>
  Property C24. When a receive buffer starts with a complete frame of a registered opcode and the
  packet class reads that content, \<open>handlePacket\<close> returns the packet, lets it act on the
  program, and leaves exactly the bytes behind the frame unread.
\<close>

theorem handlePacket_delivers:
  assumes "bb_ok b" and "bb_unread b = frame op cs @ rest" and "length cs < 65536"
    and "length (packetFactories h) = 256" and "unat op < 128" and "packetFactories h ! unat op = Some k"
    and "reads_as (rd k) cs out"
  shows "\<exists>b'. handlePacket rd h addr (w, b) = (Inr (Some (fst (out w))), (snd (out w), b')) \<and>
    bb_ok b' \<and> bb_unread b' = rest"
proof -
  have fac: "factory_at h op = Inr (Some k)" using assms(4-6) by (simp add: factory_at_small)
  from handle_frame [where rd = rd and k = k and out = out, OF assms(1-3) fac assms(7)] show ?thesis
    using assms(1,2) by (auto simp: bb_ok_skip bb_unread_skip)
qed

theorem handlePacket_delivers_witness:
  "\<exists>b'. handlePacket (\<lambda>_. rp_readShort)
      \<lparr>packetFactories = (replicate 256 None)[1 := Some ()]\<rparr> ''10.0.0.1''
      ((), bb_append (frame 1 (object_bytes 2 (7 :: 16 word)) @ [2]) (ByteBuffer_sized (\<lambda>_. 0) 32)) =
    (Inr (Some 7), ((), b')) \<and> bb_ok b' \<and> bb_unread b' = [2]"
proof -
  let ?b = "bb_append (frame 1 (object_bytes 2 (7 :: 16 word)) @ [2]) (ByteBuffer_sized (\<lambda>_. 0) 32)"
  let ?h = "\<lparr>packetFactories = (replicate 256 None)[1 := Some ()]\<rparr>"
  have room: "bb_room (length (frame 1 (object_bytes 2 (7 :: 16 word)) @ [2])) (ByteBuffer_sized (\<lambda>_. 0) 32)"
    by (simp add: bb_room_def ByteBuffer_sized_ok)
  have ok: "bb_ok ?b" using room by (intro bb_ok_append) (simp_all add: ByteBuffer_sized_ok)
  have u: "bb_unread ?b = frame 1 (object_bytes 2 (7 :: 16 word)) @ [2]"
    using bb_unread_append [OF _ room] by (simp add: ByteBuffer_sized_ok)
  have rd: "reads_as rp_readShort (object_bytes 2 (7 :: 16 word)) (\<lambda>w :: unit. (7, w))"
    by (rule reads_bytes_as) (rule reads_short)
  have fac: "length (packetFactories ?h) = 256" "unat (1 :: byte) < 128"
    "packetFactories ?h ! unat (1 :: byte) = Some ()" by simp_all
  show ?thesis
    using handlePacket_delivers [OF ok u _ fac, of "\<lambda>_. rp_readShort", OF _ rd, of "''10.0.0.1''" "()"] by simp
qed

text \<open>
  A frame whose header is there but whose content has not all arrived is kept for the
  next reading: with the frame at the start of the buffer, \<open>handlePacket\<close> returns no packet
  and the unread bytes are the same as before, at the start of the buffer.
\<close>

theorem handlePacket_keeps_partial_frame:
  assumes "bb_ok b" and "bb_read b = 0" and "bb_unread b = op # object_bytes 2 (sz :: 16 word) @ part"
    and "length part < unat sz" and "unat sz \<le> bb_size b"
  shows "\<exists>b'. handlePacket rd h addr (w, b) = (Inr None, (w, b')) \<and> bb_ok b' \<and>
    bb_unread b' = bb_unread b \<and> bb_read b' = 0"
proof -
  have buf: "bb_buf b \<noteq> None" using assms(3) by (cases "bb_buf b") (simp_all add: bb_unread_def)
  have "bb_read b = 0 \<or> length (bb_unread b) \<le> bb_read b" using assms(2) by simp
  from compact_spec [OF assms(1) buf this] obtain b' where
    "compact b = (Inr (), b')" "bb_ok b'" "bb_unread b' = bb_unread b" "bb_read b' = 0" by blast
  then show ?thesis
    unfolding handle_header [OF assms(1,3)] Let_def using assms(2,4,5) by simp
qed

theorem handlePacket_keeps_partial_frame_witness:
  "\<exists>b'. handlePacket (\<lambda>_. rp_readShort) (PacketHandler_new :: unit packetHandler) ''''
      ((), bb_append [1, 2, 0, 9] (ByteBuffer_sized (\<lambda>_. 0) 32)) = (Inr None, ((), b')) \<and>
    bb_ok b' \<and> bb_unread b' = [1, 2, 0, 9] \<and> bb_read b' = 0"
proof -
  let ?b = "bb_append [1, 2, 0, 9] (ByteBuffer_sized (\<lambda>_. 0) 32)"
  have room: "bb_room (length [1, 2, 0, 9 :: byte]) (ByteBuffer_sized (\<lambda>_. 0) 32)"
    by (simp add: bb_room_def ByteBuffer_sized_ok)
  have ok: "bb_ok ?b" using room by (intro bb_ok_append) (simp_all add: ByteBuffer_sized_ok)
  have u: "bb_unread ?b = [1, 2, 0, 9]"
    using bb_unread_append [OF _ room] by (simp add: ByteBuffer_sized_ok)
  have bytes: "object_bytes 2 (2 :: 16 word) = [2, 0]" by (simp add: object_bytes_def upt_rec)
  have u': "bb_unread ?b = 1 # object_bytes 2 (2 :: 16 word) @ [9]" by (simp add: u bytes)
  have "bb_read ?b = 0" by (simp add: ByteBuffer_sized_ok)
  from handlePacket_keeps_partial_frame [OF ok this u', of "\<lambda>_. rp_readShort" PacketHandler_new "''''" "()"]
  show ?thesis by (simp add: u ByteBuffer_sized_ok)
qed

text \<open>
  A frame split inside its three-byte header is not kept: with one or two bytes
  unread \<open>handlePacket\<close> throws, and the first byte, the opcode, is gone from the buffer.
\<close>

theorem handlePacket_loses_split_header:
  assumes "bb_ok b" and "length (bb_unread b) = 1 \<or> length (bb_unread b) = 2"
  shows "\<exists>b'. handlePacket rd h addr (w, b) = (Inl beyond_limit_sp, (w, b')) \<and>
    bb_unread b' = tl (bb_unread b)"
proof -
  have lt: "bb_read b < bb_used b" and ne: "bb_unread b \<noteq> []"
    using assms length_bb_unread [OF assms(1)] by auto
  have ok1: "bb_ok (bb_skip 1 b)" using assms by (intro bb_ok_skip) auto
  have c: "on_world readChar (w, b) = (Inr (bb_unread b ! 0), (w, bb_skip 1 b))"
    using assms(1) ne by (simp add: on_world_def readChar_spec)
  have s: "on_world readShort (w, bb_skip 1 b) = (Inl beyond_limit_sp, (w, bb_skip 1 b))"
    using ok1 assms(2) by (auto simp: on_world_def readShort_spec bb_unread_skip)
  have "handlePacket rd h addr (w, b) = (Inl beyond_limit_sp, (w, bb_skip 1 b))"
    using lt c s by (simp add: handlePacket_def handle_one_def getReadPos_def getWritePos_def Let_def sx_bind_def)
  then show ?thesis by (simp add: bb_unread_skip drop_Suc)
qed

theorem handlePacket_loses_split_header_witness:
  "\<exists>b'. handlePacket (\<lambda>_. rp_readShort) (PacketHandler_new :: unit packetHandler) ''''
      ((), bb_append [1, 2] (ByteBuffer_sized (\<lambda>_. 0) 32)) = (Inl beyond_limit_sp, ((), b')) \<and>
    bb_unread b' = [2]"
proof -
  let ?b = "bb_append [1, 2] (ByteBuffer_sized (\<lambda>_. 0) 32)"
  have room: "bb_room (length [1, 2 :: byte]) (ByteBuffer_sized (\<lambda>_. 0) 32)"
    by (simp add: bb_room_def ByteBuffer_sized_ok)
  have ok: "bb_ok ?b" using room by (intro bb_ok_append) (simp_all add: ByteBuffer_sized_ok)
  have u: "bb_unread ?b = [1, 2]" using bb_unread_append [OF _ room] by (simp add: ByteBuffer_sized_ok)
  have "length (bb_unread ?b) = 1 \<or> length (bb_unread ?b) = 2" by (simp add: u)
  from handlePacket_loses_split_header [OF ok this, of "\<lambda>_. rp_readShort" PacketHandler_new "''''" "()"]
  show ?thesis by (simp add: u)
qed

lemma unread_header_cases:
  assumes "3 \<le> length (bb_unread b)"
  obtains op and sz :: "16 word" and rest where "bb_unread b = op # object_bytes 2 sz @ rest"
proof -
  obtain op x y rest where u: "bb_unread b = op # x # y # rest"
    using assms by (auto simp: numeral_eq_Suc Suc_le_length_iff)
  have "object_bytes 2 (object_value [x, y] :: 16 word) = [x, y]" by (rule object_bytes_value) simp_all
  then have "bb_unread b = op # object_bytes 2 (object_value [x, y] :: 16 word) @ rest" using u by simp
  then show ?thesis by (rule that)
qed

text \<open>
  Where \<open>handlePacket\<close> can go wrong on bytes a peer chooses: if the registered
  classes read without undefined behaviour, a complete header leads to undefined behaviour
  exactly when a complete frame has an opcode of 128 or more (the signed \<open>char\<close> becomes an
  index far outside the table) or when an incomplete frame behind other packets is compacted
  onto itself. Everything else is a packet, no packet, or an exception.
\<close>

theorem handlePacket_undefined_iff:
  assumes ok: "bb_ok b" and fs: "length (packetFactories h) = 256"
    and rd: "\<And>k w b u. bb_ok b \<Longrightarrow> fst (rd k (w, Some b)) \<noteq> Inl (UB u)"
    and ub: "bb_unread b = op # object_bytes 2 (sz :: 16 word) @ rest"
    and fit: "bb_read b \<noteq> 0 \<or> unat sz \<le> bb_size b"
  shows "(\<exists>k. fst (handlePacket rd h addr (w, b)) = Inl (UB k)) \<longleftrightarrow>
    (if unat sz \<le> length rest then 128 \<le> unat op
     else 0 < bb_read b \<and> bb_read b < length (bb_unread b))"
proof -
  have ok3: "bb_ok (bb_skip 3 b)" using ok ub by (simp add: bb_ok_skip)
  have rd3: "rd k (w, Some (bb_skip 3 b)) \<noteq> (Inl (UB u), x)" for k u x
    using rd [OF ok3, of k w u] by auto
  have buf: "bb_buf b \<noteq> None" using ub by (cases "bb_buf b") (simp_all add: bb_unread_def)
  have size: "\<not> (bb_size b < unat sz \<and> bb_read b = 0)" using fit by auto
  show ?thesis
  proof (cases "unat sz \<le> length rest")
    case True
    have "(\<exists>k. fst (handlePacket rd h addr (w, b)) = Inl (UB k)) \<longleftrightarrow> 128 \<le> unat op"
      unfolding handle_header [OF ok ub] Let_def
      using True size rd3 factory_at_small [of op h] factory_at_large [of op h] fs
      by (cases "128 \<le> unat op")
        (auto simp: unknown_packet_def map_sum_def split: option.splits prod.splits sum.splits)
    then show ?thesis using True by simp
  next
    case False
    have "(\<exists>k. fst (handlePacket rd h addr (w, b)) = Inl (UB k)) \<longleftrightarrow> (\<exists>k. fst (compact b) = Inl (UB k))"
      unfolding handle_header [OF ok ub] Let_def using False size
      by (auto split: prod.splits sum.splits simp: map_sum_def)
    also have "\<dots> \<longleftrightarrow> 0 < bb_read b \<and> bb_read b < length (bb_unread b)"
    proof (cases "0 < bb_read b \<and> bb_read b < length (bb_unread b)")
      case True
      then show ?thesis using ok by (simp add: compact_def Let_def remaining_read)
    next
      case f: False
      then have "bb_read b = 0 \<or> length (bb_unread b) \<le> bb_read b" by auto
      from compact_spec [OF ok buf this] f show ?thesis by auto
    qed
    finally show ?thesis using False by simp
  qed
qed

theorem handlePacket_undefined_iff_witness:
  "\<exists>k. fst (handlePacket (\<lambda>_ :: unit. sx_return (0 :: nat)) PacketHandler_new ''''
      ((), bb_append [200, 0, 0] (ByteBuffer_sized (\<lambda>_. 0) 32))) = Inl (UB k)"
proof -
  let ?b = "bb_append [200, 0, 0] (ByteBuffer_sized (\<lambda>_. 0) 32)"
  have room: "bb_room (length [200, 0, 0 :: byte]) (ByteBuffer_sized (\<lambda>_. 0) 32)"
    by (simp add: bb_room_def ByteBuffer_sized_ok)
  have ok: "bb_ok ?b" using room by (intro bb_ok_append) (simp_all add: ByteBuffer_sized_ok)
  have bytes: "object_bytes 2 (0 :: 16 word) = [0, 0]" by (simp add: object_bytes_def upt_rec)
  have u: "bb_unread ?b = 200 # object_bytes 2 (0 :: 16 word) @ []"
    using bb_unread_append [OF _ room] by (simp add: ByteBuffer_sized_ok bytes)
  have fs: "length (packetFactories (PacketHandler_new :: unit packetHandler)) = 256"
    by (simp add: PacketHandler_new_def)
  have rd: "fst (sx_return (0 :: nat) (w :: unit, Some b)) \<noteq> Inl (UB u)" for w b u
    by (simp add: sx_return_def)
  show ?thesis
    using handlePacket_undefined_iff [where rd = "\<lambda>_ :: unit. sx_return (0 :: nat)" and w = "()" and addr = "''''",
        OF ok fs rd u] by simp
qed

text \<open>
  Registering a class puts its factory at its opcode and leaves the other 255 entries
  alone; an opcode of 128 or more is refused by an exception and changes nothing.
\<close>

theorem registerPacketFactory_effect:
  assumes "length (packetFactories h) = 256"
  shows "if unat op < 128
    then (\<exists>h'. registerPacketFactory True op k h = (Inr (), h') \<and> length (packetFactories h') = 256 \<and>
            factory_at h' op = Inr (Some k) \<and>
            (\<forall>op'. op' \<noteq> op \<longrightarrow> factory_at h' op' = factory_at h op'))
    else (\<exists>m. registerPacketFactory True op k h = (Inl (Runtime_error m), h))"
proof (cases "unat op < 128")
  case True
  have i: "unat (scast op :: 32 word) = unat op" using True by (simp add: unat_scast_byte_32)
  have inj: "unat (scast op' :: 64 word) \<noteq> unat op" if "op' \<noteq> op" for op' :: byte
    using that True unat_byte_less [of op] by (auto simp: unat_scast_byte dest: word_unat_eq_iff [THEN iffD2])
  have inj': "unat op \<noteq> unat (scast op' :: 64 word)" if "op' \<noteq> op" for op' :: byte
    using inj [OF that] by metis
  let ?h = "h\<lparr>packetFactories := (packetFactories h)[unat op := Some k]\<rparr>"
  have "registerPacketFactory True op k h = (Inr (), ?h)"
    using True assms by (simp add: registerPacketFactory_def Let_def i)
  moreover have "factory_at ?h op = Inr (Some k)"
    using True assms by (simp add: factory_at_small)
  moreover have "factory_at ?h op' = factory_at h op'" if "op' \<noteq> op" for op'
    using inj' [OF that] by (simp add: factory_at_def Let_def)
  ultimately show ?thesis using True assms by simp
next
  case False
  then have "256 \<le> unat (scast op :: 32 word)" by (simp add: unat_scast_byte_32)
  then show ?thesis using False assms by (simp add: registerPacketFactory_def Let_def)
qed

theorem registerPacketFactory_effect_witness:
  "\<exists>m. registerPacketFactory True 200 () PacketHandler_new = (Inl (Runtime_error m), PacketHandler_new)"
  using registerPacketFactory_effect [of PacketHandler_new 200 "()"] by (simp add: PacketHandler_new_def)

end
