(* ===== verification/PortPool.thy ===== *)
theory PortPool
  imports Prelude
begin

text \<open>
  Both daemons hand out ports from a table from port to a flag "in use": the session manager
  of a node from \<open>_usedPorts\<close>, \<open>_usedSockPorts\<close> and \<open>_usedRTCPorts\<close>, the front end from the
  \<open>_slotTracker\<close> of a visualization node. \<open>take_free\<close> is the search loop they share: the
  first entry in iteration order whose flag is clear is set and its key returned.

  The locale \<open>slot_pool\<close> is the contract of such a table towards the components that
  allocate from it.
\<close>

fun take_free :: "('k, bool) umap \<Rightarrow> ('k \<times> ('k, bool) umap) option" where
  "take_free [] = None"
| "take_free ((k, used) # m) =
     (if used
      then (case take_free m of None \<Rightarrow> None | Some (k', m') \<Rightarrow> Some (k', (k, used) # m'))
      else Some (k, (k, True) # m))"

definition used_keys :: "('k, bool) umap \<Rightarrow> 'k set" where
  "used_keys m = {k. um_find m k = Some True}"

abbreviation free_slots :: "('k, bool) umap \<Rightarrow> nat" where
  "free_slots m \<equiv> um_count Not m"

lemma take_free_None_iff: "take_free m = None \<longleftrightarrow> free_slots m = 0"
  by (induction m rule: take_free.induct) (auto split: option.splits)

lemma take_free_Some:
  assumes "um_wf m" and "take_free m = Some (k, m')"
  shows "um_find m k = Some False \<and> m' = um_replace k True m"
  using assms
proof (induction m arbitrary: m' rule: take_free.induct)
  case 1
  then show ?case by simp
next
  case (2 k0 used m)
  show ?case
  proof (cases used)
    case True
    then obtain m0 where m0: "take_free m = Some (k, m0)" "m' = (k0, used) # m0"
      using "2.prems"(2) by (auto split: option.splits)
    then have IH: "um_find m k = Some False" "m0 = um_replace k True m"
      using 2 True by (auto simp: um_wf_Cons)
    then have "k \<noteq> k0" using "2.prems"(1) um_find_None_iff [of m k] by (auto simp: um_wf_Cons)
    with IH m0 show ?thesis by simp
  next
    case False
    with "2.prems" show ?thesis by auto
  qed
qed

lemma take_free_set:
  assumes "um_wf m" and "take_free m = Some (k, m')"
  shows "m' = um_set k True m"
  using take_free_Some [OF assms] by (simp add: um_set_def)

lemma take_free_count:
  assumes "um_wf m" and "take_free m = Some (k, m')"
  shows "free_slots m = Suc (free_slots m')"
  using take_free_Some [OF assms] um_count_replace [of m k False Not True] by auto

lemma free_slots_set_True:
  "um_find m k = Some u \<Longrightarrow> free_slots (um_set k True m) + (if u then 0 else 1) = free_slots m"
  using um_count_replace [of m k u Not True] by (cases u) (simp_all add: um_set_def)

lemma free_slots_set_False:
  "um_find m k = Some u \<Longrightarrow> free_slots (um_set k False m) = free_slots m + (if u then 1 else 0)"
  using um_count_replace [of m k u Not False] by (cases u) (simp_all add: um_set_def)

lemma used_keys_set:
  "used_keys (um_set k u m) = (if u then insert k (used_keys m) else used_keys m - {k})"
  by (auto simp: used_keys_def um_find_set)

section \<open>The contract of a table of slots\<close>

locale slot_pool =
  fixes alloc :: "'m \<Rightarrow> ('k \<times> 'm) option"
    and release :: "'k \<Rightarrow> 'm \<Rightarrow> 'm"
    and keys :: "'m \<Rightarrow> 'k set"
    and used :: "'m \<Rightarrow> 'k set"
    and ok :: "'m \<Rightarrow> bool"
  assumes alloc_ok: "ok m \<Longrightarrow> alloc m = Some (k, m') \<Longrightarrow> ok m'"
    and alloc_fresh: "ok m \<Longrightarrow> alloc m = Some (k, m') \<Longrightarrow> k \<in> keys m \<and> k \<notin> used m"
    and alloc_used: "ok m \<Longrightarrow> alloc m = Some (k, m') \<Longrightarrow> used m' = insert k (used m) \<and> keys m' = keys m"
    and alloc_full: "ok m \<Longrightarrow> alloc m = None \<longleftrightarrow> keys m \<subseteq> used m"
    and release_ok: "ok m \<Longrightarrow> k \<in> keys m \<Longrightarrow> ok (release k m)"
    and release_used: "ok m \<Longrightarrow> k \<in> keys m \<Longrightarrow> used (release k m) = used m - {k} \<and> keys (release k m) = keys m"
begin

text \<open>Two allocations without a release in between never give the same slot.\<close>

lemma alloc_distinct:
  assumes "ok m" and "alloc m = Some (k, m1)" and "alloc m1 = Some (k', m2)"
  shows "k' \<noteq> k"
  using alloc_used [OF assms(1,2)] alloc_fresh [OF alloc_ok [OF assms(1,2)] assms(3)] by auto

text \<open>A slot that was allocated can be had again once it is released.\<close>

lemma alloc_release:
  assumes "ok m" and "alloc m = Some (k, m')"
  shows "used (release k m') = used m \<and> alloc (release k m') \<noteq> None"
proof -
  have ok': "ok m'" and k: "k \<in> keys m'" "k \<notin> used m" "used m' = insert k (used m)"
    using alloc_ok [OF assms] alloc_fresh [OF assms] alloc_used [OF assms] by auto
  have r: "used (release k m') = used m" "keys (release k m') = keys m'"
    using release_used [OF ok' k(1)] k by auto
  then show ?thesis using alloc_full [OF release_ok [OF ok' k(1)]] k by auto
qed

end

interpretation port_table: slot_pool take_free "\<lambda>k m. um_set k False m" um_keys used_keys um_wf
proof unfold_locales
  fix m m' :: "('k, bool) umap" and k
  assume wf: "um_wf m" and t: "take_free m = Some (k, m')"
  note s = take_free_set [OF wf t] take_free_Some [OF wf t]
  show "um_wf m'" using s wf by (simp add: um_wf_set)
  show "k \<in> um_keys m \<and> k \<notin> used_keys m"
    using s um_find_key [of m k] by (auto simp: used_keys_def)
  show "used_keys m' = insert k (used_keys m) \<and> um_keys m' = um_keys m"
    using s um_find_key [of m k] by (auto simp: used_keys_set um_keys_set)
next
  fix m :: "('k, bool) umap"
  assume wf: "um_wf m"
  have "free_slots m = 0 \<longleftrightarrow> (\<forall>(k, u) \<in> set m. u)"
    by (auto simp: um_count_def filter_empty_conv)
  also have "\<dots> \<longleftrightarrow> um_keys m \<subseteq> used_keys m"
  proof
    show "um_keys m \<subseteq> used_keys m" if "\<forall>(k, u) \<in> set m. u"
      using that um_find_in [OF wf] by (fastforce simp: um_keys_def used_keys_def)
    show "\<forall>(k, u) \<in> set m. u" if "um_keys m \<subseteq> used_keys m"
      using that um_find_in [OF wf] by (fastforce simp: um_keys_def used_keys_def)
  qed
  finally show "take_free m = None \<longleftrightarrow> um_keys m \<subseteq> used_keys m" by (simp add: take_free_None_iff)
next
  fix m :: "('k, bool) umap" and k
  assume "um_wf m" "k \<in> um_keys m"
  then show "um_wf (um_set k False m)" "used_keys (um_set k False m) = used_keys m - {k} \<and>
      um_keys (um_set k False m) = um_keys m"
    by (auto simp: um_wf_set used_keys_set um_keys_set)
qed

end
