(* ===== verification/StreamingSession.thy ===== *)
theory StreamingSession
  imports PortPool
begin

text \<open>
  A streaming session on a node: \<open>ReMoLON/include/StreamingSession.h\<close> and
  \<open>src/StreamingSession.cpp\<close>.

  The ports are \<open>unsigned int\<close> members that the constructor leaves unassigned, as it leaves
  \<open>_connection\<close>: the pointer starts as \<open>Uninit\<close>, and the manager assigns the ports right
  after it creates the object. A connection is a name of type \<open>'c\<close>.

  \<open>tryLaunchSession\<close> starts a thread that forks; the thread's effect is modelled apart as
  \<open>streaming_thread\<close>. \<open>getpwnam\<close> (the password database, as far as the code reads it: the
  home directory) is a parameter, and so is the outcome of \<open>fork\<close>. The command line is built
  from C strings, and \<open>HOME=\<close> goes through a \<open>char\<close> array of 65535 bytes.
\<close>

record 'c streamingSession =
  ss_sessionName :: string
  ss_sessionOwner :: string
  ss_sessionOwnerAddress :: string
  ss_sessionPort :: "32 word"
  ss_sessionSockPort :: "32 word"
  ss_sessionRTCPort :: "32 word"
  ss_allowedUsers :: "(string, string) umap"
  ss_connection :: "'c pointer"

text \<open>The object \<open>operator[]\<close> of the session list creates; \<open>junk\<close> is what the port members hold.\<close>

definition StreamingSession_new :: "32 word \<Rightarrow> 'c streamingSession" where
  "StreamingSession_new junk =
     \<lparr>ss_sessionName = [], ss_sessionOwner = [], ss_sessionOwnerAddress = [],
      ss_sessionPort = junk, ss_sessionSockPort = junk, ss_sessionRTCPort = junk,
      ss_allowedUsers = [], ss_connection = Uninit\<rparr>"

definition setSessionName :: "string \<Rightarrow> 'c streamingSession \<Rightarrow> 'c streamingSession" where
  "setSessionName sessionName s = s\<lparr>ss_sessionName := sessionName\<rparr>"

definition setSessionOwner :: "string \<Rightarrow> 'c streamingSession \<Rightarrow> 'c streamingSession" where
  "setSessionOwner sessionOwner s = s\<lparr>ss_sessionOwner := sessionOwner\<rparr>"

definition setSessionOwnerAddress :: "string \<Rightarrow> 'c streamingSession \<Rightarrow> 'c streamingSession" where
  "setSessionOwnerAddress ownerAddress s = s\<lparr>ss_sessionOwnerAddress := ownerAddress\<rparr>"

text \<open>The \<open>uint16_t\<close> arguments widen to \<open>unsigned int\<close>.\<close>

definition setSessionPorts ::
  "16 word \<Rightarrow> 16 word \<Rightarrow> 16 word \<Rightarrow> 'c streamingSession \<Rightarrow> 'c streamingSession" where
  "setSessionPorts port sockPort rtcPort s =
     s\<lparr>ss_sessionPort := ucast port, ss_sessionSockPort := ucast sockPort, ss_sessionRTCPort := ucast rtcPort\<rparr>"

definition setConnection :: "'c pointer \<Rightarrow> 'c streamingSession \<Rightarrow> 'c streamingSession" where
  "setConnection con s = s\<lparr>ss_connection := con\<rparr>"

definition addAllowedUser :: "string \<Rightarrow> string \<Rightarrow> 'c streamingSession \<Rightarrow> 'c streamingSession" where
  "addAllowedUser userName userAddress s =
     s\<lparr>ss_allowedUsers := um_set userName userAddress (ss_allowedUsers s)\<rparr>"

definition getSessionName :: "'c streamingSession \<Rightarrow> string" where
  "getSessionName s = ss_sessionName s"

definition getSessionOwner :: "'c streamingSession \<Rightarrow> string" where
  "getSessionOwner s = ss_sessionOwner s"

definition getSessionOwnerAddress :: "'c streamingSession \<Rightarrow> string" where
  "getSessionOwnerAddress s = ss_sessionOwnerAddress s"

definition getSessionPort :: "'c streamingSession \<Rightarrow> 32 word" where
  "getSessionPort s = ss_sessionPort s"

definition getSessionSocketPort :: "'c streamingSession \<Rightarrow> 32 word" where
  "getSessionSocketPort s = ss_sessionSockPort s"

definition getSessionRTCPort :: "'c streamingSession \<Rightarrow> 32 word" where
  "getSessionRTCPort s = ss_sessionRTCPort s"

lemmas session_getters = getSessionName_def getSessionOwner_def getSessionOwnerAddress_def getSessionPort_def
  getSessionSocketPort_def getSessionRTCPort_def

text \<open>
  \<open>finishSession\<close> queues a \<open>RequestFinishSession\<close> on the connection of the streaming process:
  the result is the connection it goes to.
\<close>

definition session_finish :: "'c streamingSession \<Rightarrow> cpp_error + 'c" where
  "session_finish s =
     (case ss_connection s of
        Uninit \<Rightarrow> Inl (UB Uninitialised_deref)
      | Null \<Rightarrow> Inl (UB Null_deref)
      | Ptr c \<Rightarrow> Inr c)"

section \<open>Launching\<close>

text \<open>\<open>tryLaunchSession\<close> reports whether the thread could be created.\<close>

definition tryLaunchSession :: "bool \<Rightarrow> bool" where
  "tryLaunchSession threadCreated = threadCreated"

text \<open>The path of the writer: the configured directory, a slash unless it ends in one.\<close>

definition xinitrc_binary :: "string \<Rightarrow> cpp_error + string" where
  "xinitrc_binary dir =
     (if dir = [] then Inl (UB Out_of_bounds)
      else Inr (dir @ (if last dir = CHR ''/'' then '''' else ''/'') @ ''xinitrc_writer''))"

record exec_call =
  exec_path :: string
  exec_argv :: "string list"
  exec_env :: "string list"

definition streaming_command ::
  "(string \<Rightarrow> string option) \<Rightarrow> string \<Rightarrow> string \<Rightarrow> 'c streamingSession \<Rightarrow> cpp_error + exec_call" where
  "streaming_command getpwnam xinitrcDir remotooBinDir s =
     (case getpwnam (c_str (getSessionOwner s)) of
        None \<Rightarrow> Inl (UB Null_deref)
      | Some pw_dir \<Rightarrow>
          (if length (''HOME='' @ pw_dir) \<ge> 65535 then Inl (UB Out_of_bounds) else
           case xinitrc_binary xinitrcDir of
             Inl e \<Rightarrow> Inl e
           | Inr xinitrcBin \<Rightarrow>
               Inr \<lparr>exec_path = ''/usr/bin/sudo'',
                    exec_argv = [''sudo'', ''-u'', c_str (getSessionOwner s), c_str xinitrcBin, c_str remotooBinDir,
                      c_str (getSessionName s), c_str (getSessionOwner s), c_str (getSessionOwnerAddress s),
                      to_string_nat (unat (getSessionPort s)),
                      to_string_nat (unat (getSessionSocketPort s)),
                      to_string_nat (unat (getSessionRTCPort s))],
                    exec_env = [''HOME='' @ pw_dir]\<rparr>))"

datatype fork_result = Fork_child | Fork_parent | Fork_failed

datatype thread_effect =
    Exec exec_call
  | Clear_session
  | No_effect

text \<open>
  The thread's body: the child executes the command, the parent waits for it and clears the
  session, and a failed \<open>fork\<close> does nothing at all.
\<close>

definition streaming_thread ::
  "(string \<Rightarrow> string option) \<Rightarrow> string \<Rightarrow> string \<Rightarrow> fork_result \<Rightarrow> 'c streamingSession \<Rightarrow>
   cpp_error + thread_effect" where
  "streaming_thread getpwnam xinitrcDir remotooBinDir child s =
     (case child of
        Fork_child \<Rightarrow> map_sum id Exec (streaming_command getpwnam xinitrcDir remotooBinDir s)
      | Fork_parent \<Rightarrow> Inr Clear_session
      | Fork_failed \<Rightarrow> Inr No_effect)"

end
