(* ===== verification/SessionManager.thy ===== *)
theory SessionManager
  imports StreamingSession
begin

text \<open>
  The session manager of a node: \<open>ReMoLON/include/SessionManager.h\<close> and
  \<open>src/SessionManager.cpp\<close>. It owns the three port tables and the sessions by owner and name.

  Starting, closing and clearing run under \<open>_mtx\<close>, so concurrent packets and exiting processes are
  sequences of these operations (\<open>NodeAtomic\<close> has the proof); here \<open>getStreamSession\<close> with the use of its
  pointer, which run without it, are one operation too. The packet an operation sends to the front
  end is part of its result: \<open>startNewSession\<close> returns the status of the
  \<open>StartStreamingSessionResult\<close> it sends on every path.

  The invariant \<open>sm_inv\<close> says that the ports of the sessions are marked as in use and that
  no two sessions share one; \<open>sm_step\<close> and \<open>sm_reachable\<close> are the runs of the daemon.
\<close>

type_synonym 'c sessionList = "(string, 'c streamingSession) umap"
type_synonym portTable = "(16 word, bool) umap"

record 'c sessionManager =
  sm_publicAddress :: string
  sm_usedPorts :: portTable
  sm_usedSockPorts :: portTable
  sm_usedRTCPorts :: portTable
  sm_streamSessions :: "(string, 'c sessionList) umap"

datatype launch_status =
    SESSION_LAUNCH_OK
  | SESSION_LAUNCH_DUPLICATE_NAME
  | SESSION_LAUNCH_PORT_UNAVAILABLE
  | SESSION_LAUNCH_CRASHED

fun launch_code :: "launch_status \<Rightarrow> 32 word" where
  "launch_code SESSION_LAUNCH_OK = 0"
| "launch_code SESSION_LAUNCH_DUPLICATE_NAME = 1"
| "launch_code SESSION_LAUNCH_PORT_UNAVAILABLE = 2"
| "launch_code SESSION_LAUNCH_CRASHED = 3"

definition SessionManager_new :: "'c sessionManager" where
  "SessionManager_new =
     \<lparr>sm_publicAddress = [], sm_usedPorts = [], sm_usedSockPorts = [], sm_usedRTCPorts = [],
      sm_streamSessions = []\<rparr>"

definition setPublicAddress :: "string \<Rightarrow> 'c sessionManager \<Rightarrow> 'c sessionManager" where
  "setPublicAddress address sm = sm\<lparr>sm_publicAddress := address\<rparr>"

definition addAvailablePort :: "16 word \<Rightarrow> 'c sessionManager \<Rightarrow> 'c sessionManager" where
  "addAvailablePort port sm = sm\<lparr>sm_usedPorts := um_set port False (sm_usedPorts sm)\<rparr>"

definition addAvailableSocketPort :: "16 word \<Rightarrow> 'c sessionManager \<Rightarrow> 'c sessionManager" where
  "addAvailableSocketPort port sm = sm\<lparr>sm_usedSockPorts := um_set port False (sm_usedSockPorts sm)\<rparr>"

definition addAvailableRTCPort :: "16 word \<Rightarrow> 'c sessionManager \<Rightarrow> 'c sessionManager" where
  "addAvailableRTCPort port sm = sm\<lparr>sm_usedRTCPorts := um_set port False (sm_usedRTCPorts sm)\<rparr>"

definition findAvailablePort :: "portTable \<Rightarrow> 16 word \<times> portTable" where
  "findAvailablePort source =
     (case take_free source of None \<Rightarrow> (0, source) | Some (port, source') \<Rightarrow> (port, source'))"

text \<open>\<open>_streamSessions [ ownerName_ ]\<close>: an owner without a list gets an empty one.\<close>

definition sessions_of :: "string \<Rightarrow> 'c sessionManager \<Rightarrow> 'c sessionList" where
  "sessions_of owner sm = (case um_find (sm_streamSessions sm) owner of None \<Rightarrow> [] | Some l \<Rightarrow> l)"

definition put_sessions :: "string \<Rightarrow> 'c sessionList \<Rightarrow> 'c sessionManager \<Rightarrow> 'c sessionManager" where
  "put_sessions owner l sm = sm\<lparr>sm_streamSessions := um_set owner l (sm_streamSessions sm)\<rparr>"

definition startNewSession ::
  "bool \<Rightarrow> 32 word \<Rightarrow> string \<Rightarrow> string \<Rightarrow> string \<Rightarrow> 16 word \<Rightarrow> 'c sessionManager \<Rightarrow>
   launch_status \<times> 'c sessionManager" where
  "startNewSession threadCreated junk ownerName ownerAddress sessionName port sm =
     (let portIt = um_find (sm_usedPorts sm) port;
          (sockPort, socks) = findAvailablePort (sm_usedSockPorts sm);
          (rtcPort, rtcs) = findAvailablePort (sm_usedRTCPorts sm);
          sm1 = sm\<lparr>sm_usedSockPorts := socks, sm_usedRTCPorts := rtcs\<rparr>
      in if portIt = None \<or> portIt = Some True \<or> sockPort = 0 \<or> rtcPort = 0
         then (SESSION_LAUNCH_PORT_UNAVAILABLE, sm1)
         else
           (let sm2 = sm1\<lparr>sm_usedPorts := um_set port True (sm_usedPorts sm1)\<rparr>;
                sList = sessions_of ownerName sm2
            in if um_find sList sessionName \<noteq> None
               then (SESSION_LAUNCH_DUPLICATE_NAME, put_sessions ownerName sList sm2)
               else
                 (let session = setSessionPorts port sockPort rtcPort
                        (setSessionOwnerAddress ownerAddress
                          (setSessionOwner ownerName
                            (setSessionName sessionName (StreamingSession_new junk))));
                      sm3 = put_sessions ownerName (um_set sessionName session sList) sm2
                  in (if tryLaunchSession threadCreated then SESSION_LAUNCH_OK else SESSION_LAUNCH_CRASHED,
                      sm3))))"

text \<open>
  \<open>finishSession\<close> returns the connection that is told to finish, if the session exists;
  \<open>getStreamSession\<close> looks a session up; both create an empty list for a new owner.
\<close>

definition finishSession :: "string \<Rightarrow> string \<Rightarrow> ('c sessionManager, 'c option) sx" where
  "finishSession ownerName sessionName sm =
     (let sList = sessions_of ownerName sm;
          sm' = put_sessions ownerName sList sm
      in case um_find sList sessionName of
           None \<Rightarrow> (Inr None, sm')
         | Some session \<Rightarrow> (map_sum id Some (session_finish session), sm'))"

definition getStreamSession ::
  "string \<Rightarrow> string \<Rightarrow> 'c sessionManager \<Rightarrow> 'c streamingSession option \<times> 'c sessionManager" where
  "getStreamSession ownerName sessionName sm =
     (let sList = sessions_of ownerName sm
      in (um_find sList sessionName, put_sessions ownerName sList sm))"

text \<open>The \<open>unsigned int\<close> ports of the session become \<open>uint16_t\<close> keys again.\<close>

definition clearSession :: "'c streamingSession \<Rightarrow> 'c sessionManager \<Rightarrow> 'c sessionManager" where
  "clearSession session sm =
     (let sm1 = sm\<lparr>sm_usedPorts := um_set (ucast (getSessionPort session)) False (sm_usedPorts sm),
                   sm_usedSockPorts := um_set (ucast (getSessionSocketPort session)) False (sm_usedSockPorts sm),
                   sm_usedRTCPorts := um_set (ucast (getSessionRTCPort session)) False (sm_usedRTCPorts sm)\<rparr>;
          sList = sessions_of (getSessionOwner session) sm1
      in if um_find sList (getSessionName session) = None
         then put_sessions (getSessionOwner session) sList sm1
         else put_sessions (getSessionOwner session) (um_erase (getSessionName session) sList) sm1)"

text \<open>Every session of every owner is told to finish; the first bad pointer stops the loop.\<close>

fun finish_list :: "'c streamingSession list \<Rightarrow> cpp_error + 'c list" where
  "finish_list [] = Inr []"
| "finish_list (s # ss) =
     (case session_finish s of
        Inl e \<Rightarrow> Inl e
      | Inr c \<Rightarrow> map_sum id (\<lambda>cs. c # cs) (finish_list ss))"

definition finishAllSessions :: "'c sessionManager \<Rightarrow> cpp_error + 'c list" where
  "finishAllSessions sm = finish_list (concat (map (\<lambda>(owner, l). map snd l) (sm_streamSessions sm)))"

text \<open>\<open>SessionInfo\<close> hands the session its connection through the pointer it looked up.\<close>

definition set_session_connection ::
  "string \<Rightarrow> string \<Rightarrow> 'c pointer \<Rightarrow> 'c sessionManager \<Rightarrow> 'c sessionManager" where
  "set_session_connection ownerName sessionName con sm =
     (case getStreamSession ownerName sessionName sm of
        (None, sm') \<Rightarrow> sm'
      | (Some s, sm') \<Rightarrow>
          put_sessions ownerName (um_set sessionName (setConnection con s) (sessions_of ownerName sm')) sm')"

definition getPublicAddress :: "'c sessionManager \<Rightarrow> string" where
  "getPublicAddress sm = sm_publicAddress sm"

definition getPortList :: "'c sessionManager \<Rightarrow> portTable" where
  "getPortList sm = sm_usedPorts sm"

section \<open>Lookup of sessions\<close>

definition live :: "'c sessionManager \<Rightarrow> string \<Rightarrow> string \<Rightarrow> 'c streamingSession option" where
  "live sm owner name = um_find (sessions_of owner sm) name"

named_theorems sm_simps "effect of the operations on the parts of the manager"

lemma sessions_of_put [sm_simps]:
  "sessions_of o1 (put_sessions o2 l sm) = (if o1 = o2 then l else sessions_of o1 sm)"
  by (simp add: sessions_of_def put_sessions_def um_find_set)

lemma live_put:
  "live (put_sessions o2 l sm) = (\<lambda>o1 n. if o1 = o2 then um_find l n else live sm o1 n)"
  by (rule ext)+ (simp add: live_def sessions_of_put)

lemma put_sessions_tables [sm_simps]:
  "sm_usedPorts (put_sessions o2 l sm) = sm_usedPorts sm"
  "sm_usedSockPorts (put_sessions o2 l sm) = sm_usedSockPorts sm"
  "sm_usedRTCPorts (put_sessions o2 l sm) = sm_usedRTCPorts sm"
  "sm_publicAddress (put_sessions o2 l sm) = sm_publicAddress sm"
  by (simp_all add: put_sessions_def)

lemma live_tables [sm_simps]:
  "live (sm\<lparr>sm_usedPorts := t\<rparr>) = live sm"
  "live (sm\<lparr>sm_usedSockPorts := t\<rparr>) = live sm"
  "live (sm\<lparr>sm_usedRTCPorts := t\<rparr>) = live sm"
  by (rule ext, rule ext, simp add: live_def sessions_of_def)+

lemma sessions_of_tables [sm_simps]:
  "sessions_of owner (sm\<lparr>sm_usedPorts := t\<rparr>) = sessions_of owner sm"
  "sessions_of owner (sm\<lparr>sm_usedSockPorts := t\<rparr>) = sessions_of owner sm"
  "sessions_of owner (sm\<lparr>sm_usedRTCPorts := t\<rparr>) = sessions_of owner sm"
  by (simp_all add: sessions_of_def)

text \<open>Well-formed maps, one list per owner.\<close>

definition sessions_wf :: "'c sessionManager \<Rightarrow> bool" where
  "sessions_wf sm \<longleftrightarrow> um_wf (sm_streamSessions sm) \<and> (\<forall>owner. um_wf (sessions_of owner sm))"

lemma sessions_wf_put [sm_simps]: "sessions_wf sm \<Longrightarrow> um_wf l \<Longrightarrow> sessions_wf (put_sessions owner l sm)"
  by (simp add: sessions_wf_def sessions_of_put) (simp add: put_sessions_def um_wf_set)

lemma sessions_wf_tables [sm_simps]:
  "sessions_wf (sm\<lparr>sm_usedPorts := t\<rparr>) = sessions_wf sm"
  "sessions_wf (sm\<lparr>sm_usedSockPorts := t\<rparr>) = sessions_wf sm"
  "sessions_wf (sm\<lparr>sm_usedRTCPorts := t\<rparr>) = sessions_wf sm"
  by (simp_all add: sessions_wf_def sessions_of_tables)

section \<open>A port table and the sessions that hold its ports\<close>

text \<open>
  \<open>pool_inv t f L\<close>: the port \<open>f s\<close> of every session \<open>s\<close> of \<open>L\<close> is marked in the table \<open>t\<close>, and
  different sessions have different ports.
\<close>

type_synonym 'c liveSessions = "string \<Rightarrow> string \<Rightarrow> 'c streamingSession option"

definition pool_inv :: "portTable \<Rightarrow> ('c streamingSession \<Rightarrow> 16 word) \<Rightarrow> 'c liveSessions \<Rightarrow> bool" where
  "pool_inv t f L \<longleftrightarrow> um_wf t \<and>
     (\<forall>a n s. L a n = Some s \<longrightarrow> um_find t (f s) = Some True) \<and>
     (\<forall>a n s a' n' s'. L a n = Some s \<and> L a' n' = Some s' \<and> f s = f s' \<longrightarrow> a = a' \<and> n = n')"

definition update_live :: "string \<Rightarrow> string \<Rightarrow> 'c streamingSession option \<Rightarrow> 'c liveSessions \<Rightarrow> 'c liveSessions" where
  "update_live a n x L = (\<lambda>a' n'. if a' = a \<and> n' = n then x else L a' n')"

lemma pool_inv_wf: "pool_inv t f L \<Longrightarrow> um_wf t"
  by (simp add: pool_inv_def)

lemma pool_inv_marked: "pool_inv t f L \<Longrightarrow> L a n = Some s \<Longrightarrow> um_find t (f s) = Some True"
  unfolding pool_inv_def by blast

lemma pool_inv_inj:
  "pool_inv t f L \<Longrightarrow> L a n = Some s \<Longrightarrow> L a' n' = Some s' \<Longrightarrow> f s = f s' \<Longrightarrow> a = a' \<and> n = n'"
  unfolding pool_inv_def by blast

lemma pool_inv_mark: "pool_inv t f L \<Longrightarrow> pool_inv (um_set p True t) f L"
  by (auto simp: pool_inv_def um_find_set um_wf_set)

lemma pool_inv_add:
  assumes "pool_inv t f L" and "um_find t p = Some False" and "f s = p" and "L a n = None"
  shows "pool_inv (um_set p True t) f (update_live a n (Some s) L)"
proof -
  have fresh: "f s' \<noteq> p" if "L a' n' = Some s'" for a' n' s'
    using assms(1,2) that by (auto simp: pool_inv_def)
  show ?thesis
    using assms fresh unfolding pool_inv_def update_live_def
    by (auto simp: um_find_set um_wf_set split: if_splits)
qed

lemma pool_inv_remove:
  assumes "pool_inv t f L" and "L a n = Some s"
  shows "pool_inv (um_set (f s) False t) f (update_live a n None L)"
proof -
  have "um_find (um_set (f s) False t) (f s') = Some True"
    if "L a' n' = Some s'" "\<not> (a' = a \<and> n' = n)" for a' n' s'
    using pool_inv_inj [OF assms(1,2) that(1)] pool_inv_marked [OF assms(1) that(1)] that(2)
    by (auto simp: um_find_set)
  then show ?thesis
    using assms pool_inv_inj [OF assms(1)]
    by (simp add: pool_inv_def update_live_def um_wf_set split: if_splits)
qed

lemma pool_inv_replace:
  assumes "pool_inv t f L" and "L a n = Some s" and "f x = f s"
  shows "pool_inv t f (update_live a n (Some x) L)"
proof -
  have wf: "um_wf t" and mark: "\<And>a n s. L a n = Some s \<Longrightarrow> um_find t (f s) = Some True"
    and inj: "\<And>a n s a' n' s'. L a n = Some s \<Longrightarrow> L a' n' = Some s' \<Longrightarrow> f s = f s' \<Longrightarrow> a = a' \<and> n = n'"
    using pool_inv_wf [OF assms(1)] pool_inv_marked [OF assms(1)] pool_inv_inj [OF assms(1)] by blast+
  have lift: "\<exists>s2. L a' n' = Some s2 \<and> f s2 = f s1" if "update_live a n (Some x) L a' n' = Some s1" for a' n' s1
    using that assms(2,3) by (auto simp: update_live_def split: if_splits)
  show ?thesis
    unfolding pool_inv_def
  proof (intro conjI allI impI; (elim conjE)?)
    show "um_find t (f s1) = Some True" if "update_live a n (Some x) L a' n' = Some s1" for a' n' s1
      using lift [OF that] mark by metis
    fix a1 n1 s1 a2 n2 s2
    assume "update_live a n (Some x) L a1 n1 = Some s1" "update_live a n (Some x) L a2 n2 = Some s2" "f s1 = f s2"
    then show "a1 = a2" "n1 = n2" using lift inj by metis+
  qed (fact wf)
qed

section \<open>The invariant\<close>

definition web_port :: "'c streamingSession \<Rightarrow> 16 word" where
  "web_port s = ucast (ss_sessionPort s)"

definition sock_port :: "'c streamingSession \<Rightarrow> 16 word" where
  "sock_port s = ucast (ss_sessionSockPort s)"

definition rtc_port :: "'c streamingSession \<Rightarrow> 16 word" where
  "rtc_port s = ucast (ss_sessionRTCPort s)"

definition sm_inv :: "'c sessionManager \<Rightarrow> bool" where
  "sm_inv sm \<longleftrightarrow> sessions_wf sm \<and>
     (\<forall>a n s. live sm a n = Some s \<longrightarrow> ss_sessionOwner s = a \<and> ss_sessionName s = n) \<and>
     pool_inv (sm_usedPorts sm) web_port (live sm) \<and>
     pool_inv (sm_usedSockPorts sm) sock_port (live sm) \<and>
     pool_inv (sm_usedRTCPorts sm) rtc_port (live sm)"

lemma ucast_port [simp]: "(ucast (ucast (p :: 16 word) :: 32 word) :: 16 word) = p"
  by (rule bit_word_eqI) (auto simp: bit_simps)

lemma findAvailablePort_cases:
  assumes "um_wf t" and "findAvailablePort t = (p, t')"
  shows "t' = t \<and> p = 0 \<and> free_slots t = 0 \<or> um_find t p = Some False \<and> t' = um_set p True t"
  using assms take_free_set [OF assms(1)] take_free_Some [OF assms(1)] take_free_None_iff [of t]
  by (auto simp: findAvailablePort_def split: option.splits)

text \<open>The session a successful start creates.\<close>

definition new_session ::
  "32 word \<Rightarrow> string \<Rightarrow> string \<Rightarrow> string \<Rightarrow> 16 word \<Rightarrow> 16 word \<Rightarrow> 16 word \<Rightarrow> 'c streamingSession" where
  "new_session junk a addr n port sockPort rtcPort =
     setSessionPorts port sockPort rtcPort
       (setSessionOwnerAddress addr (setSessionOwner a (setSessionName n (StreamingSession_new junk))))"

lemmas session_defs = new_session_def setSessionPorts_def setSessionOwnerAddress_def setSessionOwner_def
  setSessionName_def StreamingSession_new_def

lemma new_session_simps [simp]:
  "ss_sessionOwner (new_session junk a addr n p q r) = a"
  "ss_sessionName (new_session junk a addr n p q r) = n"
  "ss_sessionOwnerAddress (new_session junk a addr n p q r) = addr"
  "ss_connection (new_session junk a addr n p q r) = Uninit"
  "web_port (new_session junk a addr n p q r) = p"
  "sock_port (new_session junk a addr n p q r) = q"
  "rtc_port (new_session junk a addr n p q r) = r"
  by (simp_all add: session_defs web_port_def sock_port_def rtc_port_def)

text \<open>The three ways a start ends, with the tables and sessions it leaves.\<close>

lemma startNewSession_cases:
  assumes "startNewSession ok junk a addr n port sm = (st, sm')"
    and "findAvailablePort (sm_usedSockPorts sm) = (q, socks)"
    and "findAvailablePort (sm_usedRTCPorts sm) = (r, rtcs)"
  obtains (unavailable) "st = SESSION_LAUNCH_PORT_UNAVAILABLE"
      "um_find (sm_usedPorts sm) port \<noteq> Some False \<or> q = 0 \<or> r = 0"
      "sm' = sm\<lparr>sm_usedSockPorts := socks, sm_usedRTCPorts := rtcs\<rparr>"
    | (duplicate) "st = SESSION_LAUNCH_DUPLICATE_NAME"
      "um_find (sm_usedPorts sm) port = Some False" "q \<noteq> 0" "r \<noteq> 0" "live sm a n \<noteq> None"
      "sm' = put_sessions a (sessions_of a sm) (sm\<lparr>sm_usedSockPorts := socks, sm_usedRTCPorts := rtcs,
         sm_usedPorts := um_set port True (sm_usedPorts sm)\<rparr>)"
    | (created) "st = (if ok then SESSION_LAUNCH_OK else SESSION_LAUNCH_CRASHED)"
      "um_find (sm_usedPorts sm) port = Some False" "q \<noteq> 0" "r \<noteq> 0" "live sm a n = None"
      "sm' = put_sessions a (um_set n (new_session junk a addr n port q r) (sessions_of a sm))
         (sm\<lparr>sm_usedSockPorts := socks, sm_usedRTCPorts := rtcs,
         sm_usedPorts := um_set port True (sm_usedPorts sm)\<rparr>)"
proof (cases "um_find (sm_usedPorts sm) port = None \<or> um_find (sm_usedPorts sm) port = Some True \<or> q = 0 \<or> r = 0")
  case True
  show thesis
  proof (rule unavailable)
    show "um_find (sm_usedPorts sm) port \<noteq> Some False \<or> q = 0 \<or> r = 0" using True by auto
    show "st = SESSION_LAUNCH_PORT_UNAVAILABLE" "sm' = sm\<lparr>sm_usedSockPorts := socks, sm_usedRTCPorts := rtcs\<rparr>"
      using True assms by (auto simp: startNewSession_def Let_def)
  qed
next
  case False
  then have free: "um_find (sm_usedPorts sm) port = Some False" "q \<noteq> 0" "r \<noteq> 0"
    by auto
  show thesis
  proof (cases "live sm a n")
    case None
    then show thesis
      using assms free created
      by (auto simp: startNewSession_def Let_def sm_simps live_def tryLaunchSession_def new_session_def)
  next
    case (Some s)
    then show thesis
      using assms free duplicate by (auto simp: startNewSession_def Let_def sm_simps live_def)
  qed
qed

lemma sm_invD:
  assumes "sm_inv sm"
  shows "sessions_wf sm" "pool_inv (sm_usedPorts sm) web_port (live sm)"
    "pool_inv (sm_usedSockPorts sm) sock_port (live sm)" "pool_inv (sm_usedRTCPorts sm) rtc_port (live sm)"
    "live sm a n = Some s \<Longrightarrow> ss_sessionOwner s = a \<and> ss_sessionName s = n"
  using assms by (auto simp: sm_inv_def)

lemma sm_invI:
  assumes "sessions_wf sm" and "pool_inv (sm_usedPorts sm) web_port (live sm)"
    and "pool_inv (sm_usedSockPorts sm) sock_port (live sm)" and "pool_inv (sm_usedRTCPorts sm) rtc_port (live sm)"
    and "\<And>a n s. live sm a n = Some s \<Longrightarrow> ss_sessionOwner s = a \<and> ss_sessionName s = n"
  shows "sm_inv sm"
  using assms by (auto simp: sm_inv_def)

text \<open>What the operations do to the lookup of sessions.\<close>

lemma live_put_same [sm_simps]: "live (put_sessions a (sessions_of a sm) sm) = live sm"
  by (rule ext)+ (simp add: live_put, simp add: live_def)

lemma live_put_add [sm_simps]:
  "live (put_sessions a (um_set n s (sessions_of a sm)) sm) = update_live a n (Some s) (live sm)"
  by (rule ext)+ (auto simp: live_put um_find_set update_live_def live_def)

lemma live_put_erase [sm_simps]:
  "sessions_wf sm \<Longrightarrow>
   live (put_sessions a (um_erase n (sessions_of a sm)) sm) = update_live a n None (live sm)"
  by (rule ext)+ (auto simp: live_put um_find_erase update_live_def live_def sessions_wf_def)

lemma sessions_wf_list: "sessions_wf sm \<Longrightarrow> um_wf (sessions_of a sm)"
  by (simp add: sessions_wf_def)

lemma findAvailablePort_pool:
  assumes "pool_inv t f L" and "findAvailablePort t = (p, t')"
  shows "pool_inv t' f L"
  using findAvailablePort_cases [OF pool_inv_wf [OF assms(1)] assms(2)] assms(1) by (auto intro: pool_inv_mark)

lemma findAvailablePort_pool_add:
  assumes "pool_inv t f L" and "findAvailablePort t = (p, t')" and "p \<noteq> 0" and "f s = p" and "L a n = None"
  shows "pool_inv t' f (update_live a n (Some s) L)"
  using findAvailablePort_cases [OF pool_inv_wf [OF assms(1)] assms(2)] assms by (auto intro: pool_inv_add)

lemma sm_inv_start:
  assumes inv: "sm_inv sm" and st: "startNewSession ok junk a addr n port sm = (st, sm')"
  shows "sm_inv sm'"
proof -
  obtain q socks r rtcs where
    q: "findAvailablePort (sm_usedSockPorts sm) = (q, socks)" and
    r: "findAvailablePort (sm_usedRTCPorts sm) = (r, rtcs)"
    by fastforce
  note I = sm_invD [OF inv]
  from st q r show ?thesis
  proof (cases rule: startNewSession_cases)
    case unavailable
    then show ?thesis
      using I findAvailablePort_pool [OF I(3) q] findAvailablePort_pool [OF I(4) r]
      by (intro sm_invI) (simp_all add: sm_simps)
  next
    case duplicate
    then have "live sm' = live sm" by (simp add: sm_simps live_put fun_eq_iff) (simp add: live_def)
    then show ?thesis
      using duplicate I findAvailablePort_pool [OF I(3) q] findAvailablePort_pool [OF I(4) r]
      by (intro sm_invI) (simp_all add: sm_simps sessions_wf_list pool_inv_mark)
  next
    case created
    define s :: "'a streamingSession" where "s = new_session junk a addr n port q r"
    have l: "live sm' = update_live a n (Some s) (live sm)"
      using created
      by (simp add: s_def sm_simps live_put fun_eq_iff um_find_set update_live_def) (simp add: live_def)
    have "pool_inv (um_set port True (sm_usedPorts sm)) web_port (update_live a n (Some s) (live sm))"
      using created I by (intro pool_inv_add) (simp_all add: s_def)
    moreover have "pool_inv socks sock_port (update_live a n (Some s) (live sm))"
      using created I by (intro findAvailablePort_pool_add [OF _ q]) (simp_all add: s_def)
    moreover have "pool_inv rtcs rtc_port (update_live a n (Some s) (live sm))"
      using created I by (intro findAvailablePort_pool_add [OF _ r]) (simp_all add: s_def)
    moreover have "ss_sessionOwner s' = a' \<and> ss_sessionName s' = n'"
      if "update_live a n (Some s) (live sm) a' n' = Some s'" for a' n' s'
      using that I(5) by (auto simp: update_live_def s_def split: if_splits)
    moreover have "sessions_wf sm'"
      using created(6) I(1) by (simp add: sm_simps sessions_wf_list um_wf_set)
    moreover have "sm_usedPorts sm' = um_set port True (sm_usedPorts sm)" "sm_usedSockPorts sm' = socks"
      "sm_usedRTCPorts sm' = rtcs"
      using created(6) by (simp_all add: sm_simps)
    ultimately show ?thesis
      by (intro sm_invI) (simp_all add: l)
  qed
qed

lemma sm_inv_put_same: "sm_inv sm \<Longrightarrow> sm_inv (put_sessions a (sessions_of a sm) sm)"
  by (simp add: sm_inv_def sm_simps sessions_wf_list)

lemma finishSession_state: "snd (finishSession a n sm) = put_sessions a (sessions_of a sm) sm"
  by (simp add: finishSession_def Let_def split: option.split)

lemma getStreamSession_eq:
  "getStreamSession a n sm = (live sm a n, put_sessions a (sessions_of a sm) sm)"
  by (simp add: getStreamSession_def Let_def live_def)

lemma clearSession_live:
  assumes "sm_inv sm" and "live sm a n = Some s"
  shows "live (clearSession s sm) = update_live a n None (live sm)"
    "sm_usedPorts (clearSession s sm) = um_set (web_port s) False (sm_usedPorts sm)"
    "sm_usedSockPorts (clearSession s sm) = um_set (sock_port s) False (sm_usedSockPorts sm)"
    "sm_usedRTCPorts (clearSession s sm) = um_set (rtc_port s) False (sm_usedRTCPorts sm)"
    "sessions_wf (clearSession s sm)"
proof -
  have o: "ss_sessionOwner s = a" "ss_sessionName s = n" and wf: "sessions_wf sm"
    using sm_invD(5) [OF assms] sm_invD(1) [OF assms(1)] by auto
  have "um_find (sessions_of a sm) n = Some s" using assms(2) by (simp add: live_def)
  then show "live (clearSession s sm) = update_live a n None (live sm)"
    "sm_usedPorts (clearSession s sm) = um_set (web_port s) False (sm_usedPorts sm)"
    "sm_usedSockPorts (clearSession s sm) = um_set (sock_port s) False (sm_usedSockPorts sm)"
    "sm_usedRTCPorts (clearSession s sm) = um_set (rtc_port s) False (sm_usedRTCPorts sm)"
    "sessions_wf (clearSession s sm)"
    using o wf sessions_wf_list [OF wf]
    by (auto simp: clearSession_def session_getters Let_def sm_simps web_port_def sock_port_def rtc_port_def um_wf_erase
        fun_eq_iff um_find_erase update_live_def live_def)
qed

lemma sm_inv_clear:
  assumes "sm_inv sm" and "live sm a n = Some s"
  shows "sm_inv (clearSession s sm)"
  using sm_invD [OF assms(1)] assms(2)
  by (intro sm_invI) (auto simp: clearSession_live [OF assms] intro: pool_inv_remove,
      auto simp: update_live_def split: if_splits)

lemma sm_inv_update:
  assumes inv: "sm_inv sm" and s: "live sm a n = Some s"
    and p: "web_port s' = web_port s" "sock_port s' = sock_port s" "rtc_port s' = rtc_port s"
    and o: "ss_sessionOwner s' = ss_sessionOwner s" "ss_sessionName s' = ss_sessionName s"
  shows "sm_inv (put_sessions a (um_set n s' (sessions_of a sm)) sm)"
proof -
  note I = sm_invD [OF inv]
  have l: "live (put_sessions a (um_set n s' (sessions_of a sm)) sm) = update_live a n (Some s') (live sm)"
    by (simp add: sm_simps)
  have "ss_sessionOwner x = a' \<and> ss_sessionName x = n'"
    if "update_live a n (Some s') (live sm) a' n' = Some x" for a' n' x
    using that I(5) [OF s] I(5) [of a' n' x] o by (auto simp: update_live_def split: if_splits)
  then show ?thesis
    using I s p
    by (intro sm_invI)
      (simp_all add: l put_sessions_tables sessions_wf_put sessions_wf_list um_wf_set pool_inv_replace)
qed

lemma sm_inv_set_connection:
  assumes inv: "sm_inv sm" shows "sm_inv (set_session_connection a n con sm)"
proof (cases "live sm a n")
  case None
  then show ?thesis using inv by (simp add: set_session_connection_def getStreamSession_eq sm_inv_put_same)
next
  case (Some s)
  have "live (put_sessions a (sessions_of a sm) sm) a n = Some s" using Some by (simp add: live_put_same)
  from sm_inv_update [OF sm_inv_put_same [OF inv] this, of "setConnection con s"] Some show ?thesis
    by (simp add: set_session_connection_def getStreamSession_eq setConnection_def
        web_port_def sock_port_def rtc_port_def)
qed

section \<open>The runs of the daemon\<close>

text \<open>
  Configuration adds ports before the first packet. After that, a step is one locked operation:
  a start or a close requested by the front end, the connection announced by a streaming
  process, or the end of the process of a live session. \<open>junk\<close>, the outcome of the thread's
  creation and every argument are arbitrary.
\<close>

definition sm_configured :: "'c sessionManager \<Rightarrow> bool" where
  "sm_configured sm \<longleftrightarrow> sm_streamSessions sm = [] \<and> um_wf (sm_usedPorts sm) \<and>
     um_wf (sm_usedSockPorts sm) \<and> um_wf (sm_usedRTCPorts sm)"

inductive sm_step :: "'c sessionManager \<Rightarrow> 'c sessionManager \<Rightarrow> bool" where
  start: "startNewSession ok junk a addr n port sm = (st, sm') \<Longrightarrow> sm_step sm sm'"
| finish: "finishSession a n sm = (r, sm') \<Longrightarrow> sm_step sm sm'"
| info: "sm_step sm (set_session_connection a n con sm)"
| exited: "live sm a n = Some s \<Longrightarrow> sm_step sm (clearSession s sm)"

inductive sm_reachable :: "'c sessionManager \<Rightarrow> bool" where
  init: "sm_configured sm \<Longrightarrow> sm_reachable sm"
| step: "sm_reachable sm \<Longrightarrow> sm_step sm sm' \<Longrightarrow> sm_reachable sm'"

lemma sm_inv_configured: "sm_configured sm \<Longrightarrow> sm_inv sm"
  by (simp add: sm_configured_def sm_inv_def sessions_wf_def pool_inv_def live_def sessions_of_def um_wf_def)

lemma sm_inv_step:
  assumes "sm_step sm sm'" and "sm_inv sm" shows "sm_inv sm'"
  using assms(1)
proof (cases rule: sm_step.cases)
  case (finish a n r)
  then show ?thesis using finishSession_state [of a n sm] sm_inv_put_same [OF assms(2), of a] by simp
qed (use assms(2) sm_inv_start sm_inv_set_connection sm_inv_clear in blast)+

lemma sm_reachable_inv: "sm_reachable sm \<Longrightarrow> sm_inv sm"
  by (induction rule: sm_reachable.induct) (auto intro: sm_inv_configured sm_inv_step)

lemma sm_inv_ports:
  assumes "sm_inv sm" and "live sm a n = Some s" and "live sm a' n' = Some s'" and "(a, n) \<noteq> (a', n')"
  shows "web_port s \<noteq> web_port s' \<and> sock_port s \<noteq> sock_port s' \<and> rtc_port s \<noteq> rtc_port s' \<and>
    web_port s \<in> used_keys (sm_usedPorts sm) \<and> sock_port s \<in> used_keys (sm_usedSockPorts sm) \<and>
    rtc_port s \<in> used_keys (sm_usedRTCPorts sm)"
proof -
  note I = sm_invD [OF assms(1)]
  show ?thesis
    using pool_inv_inj [OF I(2) assms(2,3)] pool_inv_inj [OF I(3) assms(2,3)] pool_inv_inj [OF I(4) assms(2,3)]
      pool_inv_marked [OF I(2) assms(2)] pool_inv_marked [OF I(3) assms(2)] pool_inv_marked [OF I(4) assms(2)]
      assms(4)
    by (auto simp: used_keys_def)
qed

text \<open>
  Property C2. In every reachable state of a session manager, whatever the interleaving of
  requests, announcements and exits, two different live sessions never share a web port, a
  socket port or an RTC port, and every port a live session holds is marked as in use, so the
  next start cannot hand it out again.
\<close>

theorem sessions_never_share_ports:
  assumes "sm_reachable sm"
    and "live sm a n = Some s" and "live sm a' n' = Some s'" and "(a, n) \<noteq> (a', n')"
  shows "web_port s \<noteq> web_port s' \<and> sock_port s \<noteq> sock_port s' \<and> rtc_port s \<noteq> rtc_port s' \<and>
    web_port s \<in> used_keys (sm_usedPorts sm) \<and> sock_port s \<in> used_keys (sm_usedSockPorts sm) \<and>
    rtc_port s \<in> used_keys (sm_usedRTCPorts sm)"
  using sm_inv_ports [OF sm_reachable_inv [OF assms(1)] assms(2-4)] .

text \<open>Three web ports, three socket ports and three RTC ports, as a configuration file would list them.\<close>

definition example_manager :: "nat sessionManager" where
  "example_manager =
     foldr addAvailablePort [8001, 8002, 8003]
       (foldr addAvailableSocketPort [9001, 9002, 9003]
         (foldr addAvailableRTCPort [10001, 10002, 10003] (setPublicAddress ''node'' SessionManager_new)))"

lemmas example_simps = example_manager_def addAvailablePort_def addAvailableSocketPort_def
  addAvailableRTCPort_def setPublicAddress_def SessionManager_new_def

lemma example_configured: "sm_configured example_manager"
  by (simp add: sm_configured_def example_simps um_set_def um_wf_def)

definition example_two_sessions :: "nat sessionManager" where
  "example_two_sessions =
     snd (startNewSession True 0 ''ann'' ''10.0.0.1'' ''a'' 8001
       (snd (startNewSession True 0 ''bob'' ''10.0.0.2'' ''b'' 8002 example_manager)))"

lemma example_two_reachable: "sm_reachable example_two_sessions"
  unfolding example_two_sessions_def
  by (intro sm_reachable.step [OF sm_reachable.step [OF sm_reachable.init [OF example_configured]]])
    (rule sm_step.start, rule surjective_pairing)+

lemma example_two_live:
  "live example_two_sessions ''ann'' ''a'' =
     Some (new_session 0 ''ann'' ''10.0.0.1'' ''a'' 8001 9002 10002)"
  "live example_two_sessions ''bob'' ''b'' =
     Some (new_session 0 ''bob'' ''10.0.0.2'' ''b'' 8002 9001 10001)"
  by (simp_all add: example_two_sessions_def example_simps startNewSession_def Let_def findAvailablePort_def
      um_set_def sessions_of_def put_sessions_def live_def tryLaunchSession_def new_session_def)

theorem sessions_never_share_ports_witness:
  "web_port (new_session 0 ''ann'' ''10.0.0.1'' ''a'' 8001 9002 10002 :: nat streamingSession) \<noteq>
     web_port (new_session 0 ''bob'' ''10.0.0.2'' ''b'' 8002 9001 10001 :: nat streamingSession) \<and>
   9002 \<in> used_keys (sm_usedSockPorts example_two_sessions)"
  using sessions_never_share_ports [OF example_two_reachable example_two_live] by simp

section \<open>Starting a session\<close>

lemma take_free_key: "um_wf t \<Longrightarrow> take_free t = Some (p, t') \<Longrightarrow> p \<in> um_keys t \<and> p \<notin> used_keys t"
  by (rule port_table.alloc_fresh)

lemma findAvailablePort_0:
  assumes "um_wf t" and "0 \<notin> um_keys t" and "findAvailablePort t = (p, t')"
  shows "p = 0 \<longleftrightarrow> free_slots t = 0" and "p \<noteq> 0 \<Longrightarrow> p \<in> um_keys t - used_keys t"
  using assms take_free_key [OF assms(1)] take_free_None_iff [of t]
  by (auto simp: findAvailablePort_def split: option.splits)

text \<open>
  \<open>takes_one t p t'\<close>: a full table stays as it is and gives port 0, any other marks one free port.
\<close>

definition takes_one :: "portTable \<Rightarrow> 16 word \<Rightarrow> portTable \<Rightarrow> bool" where
  "takes_one t p t' \<longleftrightarrow>
     (if free_slots t = 0 then p = 0 \<and> t' = t else p \<in> um_keys t - used_keys t \<and> t' = um_set p True t)"

lemma findAvailablePort_takes_one:
  assumes "um_wf t" and "findAvailablePort t = (p, t')"
  shows "takes_one t p t'"
  using assms take_free_key [OF assms(1)] take_free_None_iff [of t] take_free_set [OF assms(1)]
  by (auto simp: takes_one_def findAvailablePort_def split: option.splits)

text \<open>
  Property C12. The outcome of a start request on every branch, provided port 0 is not
  configured: it is refused exactly when the requested web port is unknown or in use or one of
  the other two tables is full, it is a duplicate exactly when the owner already has a session
  of that name, and otherwise a session is registered. On every branch one free socket port and
  one free RTC port are marked where there is one, a refused start included; the web port is
  marked unless the start is refused, and no other port changes. The sessions change in the
  last case only, and then only by the new one, which holds the three marked ports.
\<close>

theorem startNewSession_outcome:
  assumes inv: "sm_inv sm" and 0: "0 \<notin> um_keys (sm_usedSockPorts sm)" "0 \<notin> um_keys (sm_usedRTCPorts sm)"
    and st: "startNewSession ok junk a addr n port sm = (st, sm')"
  shows "st = (if um_find (sm_usedPorts sm) port \<noteq> Some False \<or> free_slots (sm_usedSockPorts sm) = 0 \<or>
                  free_slots (sm_usedRTCPorts sm) = 0 then SESSION_LAUNCH_PORT_UNAVAILABLE
               else if live sm a n \<noteq> None then SESSION_LAUNCH_DUPLICATE_NAME
               else if ok then SESSION_LAUNCH_OK else SESSION_LAUNCH_CRASHED) \<and>
    sm_usedPorts sm' = (if st = SESSION_LAUNCH_PORT_UNAVAILABLE then sm_usedPorts sm
                        else um_set port True (sm_usedPorts sm)) \<and>
    sm_publicAddress sm' = sm_publicAddress sm \<and>
    (\<exists>q r. takes_one (sm_usedSockPorts sm) q (sm_usedSockPorts sm') \<and>
       takes_one (sm_usedRTCPorts sm) r (sm_usedRTCPorts sm') \<and>
       live sm' = (if st = SESSION_LAUNCH_OK \<or> st = SESSION_LAUNCH_CRASHED
                   then update_live a n (Some (new_session junk a addr n port q r)) (live sm) else live sm))"
proof -
  obtain q socks r rtcs where
    q: "findAvailablePort (sm_usedSockPorts sm) = (q, socks)" and
    r: "findAvailablePort (sm_usedRTCPorts sm) = (r, rtcs)"
    by fastforce
  note wf = sm_invD(3,4) [OF inv, THEN pool_inv_wf]
  note Q = findAvailablePort_0 [OF wf(1) 0(1) q] and R = findAvailablePort_0 [OF wf(2) 0(2) r]
  note T = findAvailablePort_takes_one [OF wf(1) q] findAvailablePort_takes_one [OF wf(2) r]
  from st q r show ?thesis
  proof (cases rule: startNewSession_cases)
    case unavailable
    then show ?thesis using Q(1) R(1) T by (auto simp: sm_simps)
  next
    case duplicate
    then have "live sm' = live sm" by (simp add: sm_simps live_put fun_eq_iff) (simp add: live_def)
    then show ?thesis using duplicate Q(1) R(1) T by (auto simp: put_sessions_tables)
  next
    case created
    then have "live sm' = update_live a n (Some (new_session junk a addr n port q r)) (live sm)"
      by (simp add: sm_simps live_put fun_eq_iff um_find_set update_live_def) (simp add: live_def)
    then show ?thesis using created Q R T by (cases ok) (auto simp: put_sessions_tables)
  qed
qed

theorem startNewSession_outcome_witness:
  "fst (startNewSession True 0 ''ann'' ''10.0.0.1'' ''a'' 8001 example_manager) = SESSION_LAUNCH_OK \<and>
   um_find (sm_usedPorts (snd (startNewSession True 0 ''ann'' ''10.0.0.1'' ''a'' 8001 example_manager))) 8001 = Some True \<and>
   fst (startNewSession True 0 ''ann'' ''10.0.0.1'' ''a'' 8009 example_manager) = SESSION_LAUNCH_PORT_UNAVAILABLE"
proof -
  have c: "sm_inv example_manager" by (rule sm_inv_configured [OF example_configured])
  have k: "0 \<notin> um_keys (sm_usedSockPorts example_manager)" "0 \<notin> um_keys (sm_usedRTCPorts example_manager)"
    by (simp_all add: example_simps um_set_def um_keys_def)
  have v: "um_find (sm_usedPorts example_manager) 8001 = Some False" "um_find (sm_usedPorts example_manager) 8009 = None"
    "free_slots (sm_usedSockPorts example_manager) = 3" "free_slots (sm_usedRTCPorts example_manager) = 3"
    "live example_manager ''ann'' ''a'' = None"
    by (simp_all add: example_simps um_set_def um_count_def live_def sessions_of_def)
  show ?thesis
    using startNewSession_outcome [OF c k surjective_pairing, of True 0 "''ann''" "''10.0.0.1''" "''a''" 8001]
      startNewSession_outcome [OF c k surjective_pairing, of True 0 "''ann''" "''10.0.0.1''" "''a''" 8009]
    by (simp add: v um_find_set)
qed

section \<open>Ports lost by failed starts\<close>

lemma findAvailablePort_count:
  assumes "um_wf t" and "findAvailablePort t = (p, t')"
  shows "free_slots t' = free_slots t - 1" and "um_wf t'"
  using findAvailablePort_cases [OF assms] assms(1) free_slots_set_True [of t p False]
  by (auto simp: um_wf_set)

lemma findAvailablePort_full: "free_slots t = 0 \<Longrightarrow> findAvailablePort t = (0, t)"
  using take_free_None_iff [of t] by (simp add: findAvailablePort_def)

text \<open>One refused start: no session, no web port, but a socket port and an RTC port are gone.\<close>

lemma refused_start:
  assumes "um_find (sm_usedPorts sm) port \<noteq> Some False" and "um_wf (sm_usedSockPorts sm)"
    and "startNewSession ok junk a addr n port sm = (st, sm')"
  shows "live sm' = live sm" "sm_usedPorts sm' = sm_usedPorts sm" "um_wf (sm_usedSockPorts sm')"
    "free_slots (sm_usedSockPorts sm') = free_slots (sm_usedSockPorts sm) - 1"
proof -
  obtain q socks r rtcs where
    q: "findAvailablePort (sm_usedSockPorts sm) = (q, socks)" and
    r: "findAvailablePort (sm_usedRTCPorts sm) = (r, rtcs)"
    by fastforce
  have "sm' = sm\<lparr>sm_usedSockPorts := socks, sm_usedRTCPorts := rtcs\<rparr>"
    using assms(3) q r assms(1) by (cases rule: startNewSession_cases) auto
  then show "live sm' = live sm" "sm_usedPorts sm' = sm_usedPorts sm" "um_wf (sm_usedSockPorts sm')"
    "free_slots (sm_usedSockPorts sm') = free_slots (sm_usedSockPorts sm) - 1"
    using findAvailablePort_count [OF assms(2) q] by (simp_all add: sm_simps)
qed

definition refused_starts ::
  "nat \<Rightarrow> string \<Rightarrow> string \<Rightarrow> string \<Rightarrow> 16 word \<Rightarrow> 'c sessionManager \<Rightarrow> 'c sessionManager" where
  "refused_starts k a addr n port = (\<lambda>sm. snd (startNewSession True 0 a addr n port sm)) ^^ k"

lemma refused_starts_effect:
  assumes "um_find (sm_usedPorts sm) port \<noteq> Some False" and "um_wf (sm_usedSockPorts sm)"
  shows "live (refused_starts k a addr n port sm) = live sm \<and>
    sm_usedPorts (refused_starts k a addr n port sm) = sm_usedPorts sm \<and>
    um_wf (sm_usedSockPorts (refused_starts k a addr n port sm)) \<and>
    free_slots (sm_usedSockPorts (refused_starts k a addr n port sm)) = free_slots (sm_usedSockPorts sm) - k"
proof (induction k)
  case 0
  then show ?case using assms by (simp add: refused_starts_def)
next
  case (Suc k)
  define sm1 where "sm1 = refused_starts k a addr n port sm"
  have s: "refused_starts (Suc k) a addr n port sm = snd (startNewSession True 0 a addr n port sm1)"
    by (simp add: refused_starts_def sm1_def)
  have "um_find (sm_usedPorts sm1) port \<noteq> Some False" "um_wf (sm_usedSockPorts sm1)"
    using Suc assms by (simp_all add: sm1_def)
  from refused_start [OF this surjective_pairing, of True 0 a addr n] Suc
  show ?case by (simp add: s flip: sm1_def)
qed

text \<open>
  Property C39. The socket and RTC ports are marked before the request is checked, and a refused
  start does not give them back: as many refused starts as there are free socket ports leave
  the registered sessions unchanged and make every later start fail, for every user, name and
  web port.
\<close>

theorem refused_starts_exhaust_ports:
  assumes "um_find (sm_usedPorts sm) port \<noteq> Some False" and "um_wf (sm_usedSockPorts sm)"
    and "free_slots (sm_usedSockPorts sm) \<le> k"
  shows "live (refused_starts k a addr n port sm) = live sm \<and>
    fst (startNewSession ok junk a' addr' n' port' (refused_starts k a addr n port sm)) =
      SESSION_LAUNCH_PORT_UNAVAILABLE"
proof -
  note E = refused_starts_effect [OF assms(1,2), of k a addr n]
  then have "findAvailablePort (sm_usedSockPorts (refused_starts k a addr n port sm)) =
      (0, sm_usedSockPorts (refused_starts k a addr n port sm))"
    using assms(3) by (intro findAvailablePort_full) simp
  then show ?thesis using E by (simp add: startNewSession_def Let_def split: prod.split)
qed

theorem refused_starts_exhaust_ports_witness:
  "fst (startNewSession True 0 ''ann'' ''10.0.0.1'' ''a'' 8001
      (refused_starts 3 ''eve'' ''10.0.0.9'' ''x'' 1 example_manager)) = SESSION_LAUNCH_PORT_UNAVAILABLE"
  using refused_starts_exhaust_ports [of example_manager 1 3 "''eve''" "''10.0.0.9''" "''x''" True 0
      "''ann''" "''10.0.0.1''" "''a''" 8001]
  by (simp add: example_simps um_set_def um_count_def um_wf_def)

section \<open>The end of a session\<close>

lemma created_session:
  assumes "startNewSession ok junk a addr n port sm = (st, sm')" and "st = SESSION_LAUNCH_OK \<or> st = SESSION_LAUNCH_CRASHED"
    and "sm_inv sm"
  obtains q r where
    "um_find (sm_usedPorts sm) port = Some False" "um_find (sm_usedSockPorts sm) q = Some False"
    "um_find (sm_usedRTCPorts sm) r = Some False" "live sm a n = None"
    "live sm' = update_live a n (Some (new_session junk a addr n port q r)) (live sm)"
    "sm_usedPorts sm' = um_set port True (sm_usedPorts sm)"
    "sm_usedSockPorts sm' = um_set q True (sm_usedSockPorts sm)"
    "sm_usedRTCPorts sm' = um_set r True (sm_usedRTCPorts sm)"
proof -
  obtain q socks r rtcs where
    q: "findAvailablePort (sm_usedSockPorts sm) = (q, socks)" and
    r: "findAvailablePort (sm_usedRTCPorts sm) = (r, rtcs)"
    by fastforce
  note wf = sm_invD(3,4) [OF assms(3), THEN pool_inv_wf]
  from assms(1) q r show thesis
  proof (cases rule: startNewSession_cases)
    case created
    then have "live sm' = update_live a n (Some (new_session junk a addr n port q r)) (live sm)"
      by (simp add: sm_simps live_put fun_eq_iff um_find_set update_live_def) (simp add: live_def)
    then show thesis
      using created findAvailablePort_cases [OF wf(1) q] findAvailablePort_cases [OF wf(2) r]
      by (intro that [of q r]) (auto simp: sm_simps)
  qed (use assms(2) in auto)
qed

lemma update_live_same: "L a n = x \<Longrightarrow> update_live a n x L = L"
  by (auto simp: update_live_def fun_eq_iff)

lemma update_live_twice: "L a n = None \<Longrightarrow> update_live a n None (update_live a n x L) = L"
  by (auto simp: update_live_def fun_eq_iff)

lemma finishSession_result:
  "fst (finishSession a n sm) =
     (case live sm a n of None \<Rightarrow> Inr None | Some s \<Rightarrow> map_sum id Some (session_finish s))"
  by (simp add: finishSession_def Let_def live_def split: option.split)

lemma live_set_connection:
  "live (set_session_connection a n con sm) =
     (case live sm a n of None \<Rightarrow> live sm | Some s \<Rightarrow> update_live a n (Some (setConnection con s)) (live sm))"
proof (cases "live sm a n")
  case (Some s)
  define sm1 where "sm1 = put_sessions a (sessions_of a sm) sm"
  have "live sm1 = live sm" by (simp add: sm1_def sm_simps)
  with Some show ?thesis
    by (simp add: set_session_connection_def getStreamSession_eq sm_simps flip: sm1_def)
qed (simp add: set_session_connection_def getStreamSession_eq sm_simps)

text \<open>
  Property C35. When the process of a session ends, in every state a manager can reach and
  whatever was done with the session before, announced or not, exactly that session disappears
  and exactly its three ports, which were in use, become free again; no port is added or lost.
\<close>

theorem session_end_frees_its_ports:
  assumes "sm_reachable sm" and s: "live sm a n = Some s"
  shows "live (clearSession s sm) = update_live a n None (live sm) \<and>
    web_port s \<in> used_keys (sm_usedPorts sm) \<and> sock_port s \<in> used_keys (sm_usedSockPorts sm) \<and>
    rtc_port s \<in> used_keys (sm_usedRTCPorts sm) \<and>
    used_keys (sm_usedPorts (clearSession s sm)) = used_keys (sm_usedPorts sm) - {web_port s} \<and>
    used_keys (sm_usedSockPorts (clearSession s sm)) = used_keys (sm_usedSockPorts sm) - {sock_port s} \<and>
    used_keys (sm_usedRTCPorts (clearSession s sm)) = used_keys (sm_usedRTCPorts sm) - {rtc_port s} \<and>
    um_keys (sm_usedPorts (clearSession s sm)) = um_keys (sm_usedPorts sm) \<and>
    um_keys (sm_usedSockPorts (clearSession s sm)) = um_keys (sm_usedSockPorts sm) \<and>
    um_keys (sm_usedRTCPorts (clearSession s sm)) = um_keys (sm_usedRTCPorts sm)"
proof -
  have inv: "sm_inv sm" by (rule sm_reachable_inv [OF assms(1)])
  note I = sm_invD [OF inv]
  have in_use: "f s \<in> used_keys t \<and> f s \<in> um_keys t" if "pool_inv t f (live sm)" for t f
    using pool_inv_marked [OF that s] um_find_key [of t "f s"] by (auto simp: used_keys_def)
  show ?thesis
    using in_use [OF I(2)] in_use [OF I(3)] in_use [OF I(4)]
    by (auto simp: clearSession_live [OF inv s] used_keys_set um_keys_set)
qed

theorem session_end_frees_its_ports_witness:
  "live (clearSession (new_session 0 ''ann'' ''10.0.0.1'' ''a'' 8001 9002 10002) example_two_sessions) ''ann'' ''a'' = None \<and>
   9001 \<in> used_keys (sm_usedSockPorts (clearSession (new_session 0 ''ann'' ''10.0.0.1'' ''a'' 8001 9002 10002)
     example_two_sessions))"
proof -
  have "9001 \<in> used_keys (sm_usedSockPorts example_two_sessions)"
    using sm_inv_ports [OF sm_reachable_inv [OF example_two_reachable] example_two_live(2,1)] by simp
  with session_end_frees_its_ports [OF example_two_reachable example_two_live(1)]
  show ?thesis by (simp add: update_live_def)
qed

text \<open>
  A start, with or without the announcement of its process, followed by the end of the process
  leaves the same ports in use and the same sessions as before the start.
\<close>

theorem start_then_exit_restores:
  assumes inv: "sm_inv sm" and st: "startNewSession ok junk a addr n port sm = (st, sm1)"
    and announced: "sm' \<in> {sm1, set_session_connection a n con sm1}"
    and s: "live sm' a n = Some s" and new: "live sm a n = None"
  shows "live (clearSession s sm') = live sm \<and>
    used_keys (sm_usedPorts (clearSession s sm')) = used_keys (sm_usedPorts sm) \<and>
    used_keys (sm_usedSockPorts (clearSession s sm')) = used_keys (sm_usedSockPorts sm) \<and>
    used_keys (sm_usedRTCPorts (clearSession s sm')) = used_keys (sm_usedRTCPorts sm)"
proof -
  have inv1: "sm_inv sm1" by (rule sm_inv_start [OF inv st])
  have inv': "sm_inv sm'" using announced inv1 sm_inv_set_connection [OF inv1, of a n con] by blast
  have tables: "sm_usedPorts sm' = sm_usedPorts sm1" "sm_usedSockPorts sm' = sm_usedSockPorts sm1"
    "sm_usedRTCPorts sm' = sm_usedRTCPorts sm1"
    using announced
    by (auto simp: set_session_connection_def getStreamSession_eq put_sessions_tables split: option.splits)
  have "\<exists>s1. live sm1 a n = Some s1 \<and> live sm' = update_live a n (Some s) (live sm1) \<and>
    web_port s = web_port s1 \<and> sock_port s = sock_port s1 \<and> rtc_port s = rtc_port s1"
  proof (cases "sm' = sm1")
    case True
    then show ?thesis using s by (intro exI [of _ s]) (simp add: update_live_same)
  next
    case False
    then have sm': "sm' = set_session_connection a n con sm1" using announced by simp
    obtain s1 where s1: "live sm1 a n = Some s1"
      using s by (cases "live sm1 a n") (simp_all add: sm' live_set_connection)
    then have "s = setConnection con s1" using s by (simp add: sm' live_set_connection update_live_def)
    then show ?thesis
      using s1 by (intro exI [of _ s1])
        (simp add: sm' live_set_connection web_port_def sock_port_def rtc_port_def setConnection_def)
  qed
  then obtain s1 where s1: "live sm1 a n = Some s1" "live sm' = update_live a n (Some s) (live sm1)"
    "web_port s = web_port s1" "sock_port s = sock_port s1" "rtc_port s = rtc_port s1"
    by blast
  have ok: "st = SESSION_LAUNCH_OK \<or> st = SESSION_LAUNCH_CRASHED"
  proof -
    obtain q socks r rtcs where
      "findAvailablePort (sm_usedSockPorts sm) = (q, socks)" "findAvailablePort (sm_usedRTCPorts sm) = (r, rtcs)"
      by fastforce
    with st show ?thesis by (cases rule: startNewSession_cases) (use s1(1) new in \<open>auto simp: sm_simps\<close>)
  qed
  from st ok inv show ?thesis
  proof (rule created_session)
    fix q r
    assume *: "um_find (sm_usedPorts sm) port = Some False" "um_find (sm_usedSockPorts sm) q = Some False"
      "um_find (sm_usedRTCPorts sm) r = Some False"
      "live sm1 = update_live a n (Some (new_session junk a addr n port q r)) (live sm)"
      "sm_usedPorts sm1 = um_set port True (sm_usedPorts sm)"
      "sm_usedSockPorts sm1 = um_set q True (sm_usedSockPorts sm)"
      "sm_usedRTCPorts sm1 = um_set r True (sm_usedRTCPorts sm)"
    then have "s1 = new_session junk a addr n port q r" using s1(1) by (simp add: update_live_def)
    moreover have "live (clearSession s sm') = live sm"
      using new by (simp add: clearSession_live [OF inv' s] s1(2) *(4)) (auto simp: update_live_def fun_eq_iff)
    moreover have "insert x (used_keys t) - {x} = used_keys t" if "um_find t x = Some False" for x and t :: portTable
      using that by (auto simp: used_keys_def)
    ultimately show ?thesis
      by (simp add: clearSession_live(2-4) [OF inv' s] tables s1(3-5) *(1-3,5-7) used_keys_set)
  qed
qed

theorem start_then_exit_restores_witness:
  "live (clearSession (setConnection (Ptr 4) (new_session 0 ''ann'' ''10.0.0.1'' ''a'' 8001 9001 10001))
     (set_session_connection ''ann'' ''a'' (Ptr 4)
       (snd (startNewSession True 0 ''ann'' ''10.0.0.1'' ''a'' 8001 example_manager)))) ''ann'' ''a'' = None"
proof -
  let ?sm = "snd (startNewSession True 0 ''ann'' ''10.0.0.1'' ''a'' 8001 example_manager)"
  have l: "live ?sm ''ann'' ''a'' = Some (new_session 0 ''ann'' ''10.0.0.1'' ''a'' 8001 9001 10001)"
    and new: "live example_manager ''ann'' ''a'' = None"
    by (simp_all add: example_simps startNewSession_def Let_def findAvailablePort_def
        um_set_def sessions_of_def put_sessions_def live_def tryLaunchSession_def new_session_def)
  have s: "live (set_session_connection ''ann'' ''a'' (Ptr 4) ?sm) ''ann'' ''a'' =
      Some (setConnection (Ptr 4) (new_session 0 ''ann'' ''10.0.0.1'' ''a'' 8001 9001 10001))"
    by (simp add: live_set_connection l update_live_def)
  from start_then_exit_restores [OF sm_inv_configured [OF example_configured] surjective_pairing insertI2 [OF singletonI] s new]
    new show ?thesis by simp
qed

text \<open>
  Between the start of a session and the \<open>SessionInfo\<close> packet of its process,
  closing the session reads a connection pointer that nothing has assigned; once the process
  has announced itself on a connection, closing sends the request to that connection. In
  neither case does closing unregister the session.
\<close>

theorem close_needs_announcement:
  assumes inv: "sm_inv sm" and st: "startNewSession ok junk a addr n port sm = (SESSION_LAUNCH_OK, sm')"
  shows "fst (finishSession a n sm') = Inl (UB Uninitialised_deref) \<and>
    fst (finishSession a n (set_session_connection a n (Ptr c) sm')) = Inr (Some c) \<and>
    live (snd (finishSession a n sm')) = live sm'"
proof -
  show ?thesis
    by (rule created_session [OF st _ inv])
      (auto simp: finishSession_result live_set_connection finishSession_state sm_simps update_live_def
        session_finish_def setConnection_def)
qed

theorem close_needs_announcement_witness:
  "fst (finishSession ''ann'' ''a'' (snd (startNewSession True 0 ''ann'' ''10.0.0.1'' ''a'' 8001 example_manager)))
     = Inl (UB Uninitialised_deref)"
proof -
  have "fst (startNewSession True 0 ''ann'' ''10.0.0.1'' ''a'' 8001 example_manager) = SESSION_LAUNCH_OK"
    by (simp add: example_simps startNewSession_def Let_def findAvailablePort_def
        um_set_def sessions_of_def put_sessions_def tryLaunchSession_def)
  then have "startNewSession True 0 ''ann'' ''10.0.0.1'' ''a'' 8001 example_manager = (SESSION_LAUNCH_OK,
      snd (startNewSession True 0 ''ann'' ''10.0.0.1'' ''a'' 8001 example_manager))"
    by (metis prod.collapse)
  from close_needs_announcement [OF sm_inv_configured [OF example_configured] this] show ?thesis by simp
qed

end
