(* ===== verification/NodePackets.thy ===== *)
theory NodePackets
  imports PacketHandler SessionManager
begin

text \<open>
  The packet classes of a node, \<open>ReMoLON/include/*packets\<close> and \<open>src/*packets\<close>: what it
  sends to the front end (\<open>frontendclientpackets\<close>), what it receives from it
  (\<open>frontendserverpackets\<close>), and its dialogue with the streaming processes
  (\<open>remotooserverpackets\<close>, \<open>remotooclientpackets\<close>).

  A class is a record of its members with \<open>getOpcode\<close>, \<open>writeImpl\<close> or \<open>readImpl\<close>, and
  \<open>executePacketAction\<close>. The actions work on the record \<open>node\<close>: the session manager, the
  packets queued for the front end, and the connections of streaming processes that have been
  told to finish. \<open>int\<close> is 32 bits wide.
\<close>

section \<open>Packets to the front end\<close>

record startStreamingSessionResult =
  ssr_userName :: string
  ssr_sessionName :: string
  ssr_status :: "32 word"

definition StartStreamingSessionResult_getOpcode :: byte where
  "StartStreamingSessionResult_getOpcode = 0x01"

definition StartStreamingSessionResult_writeImpl :: "startStreamingSessionResult \<Rightarrow> (bytebuffer option, unit) sx" where
  "StartStreamingSessionResult_writeImpl p =
     sx_seq (sp_writeString (ssr_userName p))
       (sx_seq (sp_writeString (ssr_sessionName p)) (sp_writeInt (ssr_status p)))"

record closeSessionResult =
  csr_userName :: string
  csr_sessioName :: string
  csr_status :: "32 word"

definition CloseSessionResult_getOpcode :: byte where
  "CloseSessionResult_getOpcode = 0x02"

definition CloseSessionResult_writeImpl :: "closeSessionResult \<Rightarrow> (bytebuffer option, unit) sx" where
  "CloseSessionResult_writeImpl p =
     sx_seq (sp_writeString (csr_userName p))
       (sx_seq (sp_writeString (csr_sessioName p)) (sp_writeInt (csr_status p)))"

text \<open>\<open>NodeInfo\<close> has no members: it reads the session manager when it is written.\<close>

definition NodeInfo_getOpcode :: byte where
  "NodeInfo_getOpcode = 0x00"

fun write_ports :: "portTable \<Rightarrow> (bytebuffer option, unit) sx" where
  "write_ports [] = sx_return ()"
| "write_ports ((port, used) # ports) =
     sx_seq (sp_writeInt (ucast port))
       (sx_seq (sp_writeInt (if used then 1 else 0)) (write_ports ports))"

definition NodeInfo_writeImpl :: "'c sessionManager \<Rightarrow> (bytebuffer option, unit) sx" where
  "NodeInfo_writeImpl sm =
     sx_seq (sp_writeString (getPublicAddress sm))
       (sx_seq (sp_writeInt (word_of_nat (length (getPortList sm)))) (write_ports (getPortList sm)))"

section \<open>The node's state\<close>

datatype front_packet =
    StartResult startStreamingSessionResult
  | CloseResult closeSessionResult
  | NodeInfo

record 'c node =
  nd_manager :: "'c sessionManager"
  nd_toFrontend :: "front_packet list"
  nd_finishing :: "'c list"

definition node_send :: "front_packet \<Rightarrow> 'c node \<Rightarrow> 'c node" where
  "node_send p nd = nd\<lparr>nd_toFrontend := nd_toFrontend nd @ [p]\<rparr>"

section \<open>Packets from the front end\<close>

definition RequestNodeInfo_getOpcode :: byte where
  "RequestNodeInfo_getOpcode = 0x00"

definition RequestNodeInfo_readImpl :: "('w \<times> bytebuffer option, unit) sx" where
  "RequestNodeInfo_readImpl = sx_return ()"

definition RequestNodeInfo_execute :: "'c node \<Rightarrow> 'c node" where
  "RequestNodeInfo_execute nd = node_send NodeInfo nd"

record requestStartStreamingSession =
  rss_user :: string
  rss_userAddress :: string
  rss_sessionName :: string
  rss_port :: "32 word"

definition RequestStartStreamingSession_getOpcode :: byte where
  "RequestStartStreamingSession_getOpcode = 0x01"

definition RequestStartStreamingSession_readImpl :: "('w \<times> bytebuffer option, requestStartStreamingSession) sx" where
  "RequestStartStreamingSession_readImpl =
     sx_bind rp_readString (\<lambda>user.
     sx_bind rp_readString (\<lambda>userAddress.
     sx_bind rp_readString (\<lambda>sessionName.
     sx_bind rp_readInt (\<lambda>port.
     sx_return \<lparr>rss_user = user, rss_userAddress = userAddress, rss_sessionName = sessionName, rss_port = port\<rparr>))))"

text \<open>
  \<open>startNewSession\<close> takes a \<open>uint16_t\<close>: the port is narrowed. On every path it sends the
  result packet to the front end.
\<close>

definition RequestStartStreamingSession_execute ::
  "bool \<Rightarrow> 32 word \<Rightarrow> requestStartStreamingSession \<Rightarrow> 'c node \<Rightarrow> 'c node" where
  "RequestStartStreamingSession_execute threadCreated junk p nd =
     (case startNewSession threadCreated junk (rss_user p) (rss_userAddress p) (rss_sessionName p)
             (ucast (rss_port p)) (nd_manager nd) of
        (status, sm) \<Rightarrow>
          node_send (StartResult \<lparr>ssr_userName = rss_user p, ssr_sessionName = rss_sessionName p,
              ssr_status = launch_code status\<rparr>)
            (nd\<lparr>nd_manager := sm\<rparr>))"

record requestCloseUserSession =
  rcs_userName :: string
  rcs_sessionName :: string

definition RequestCloseUserSession_getOpcode :: byte where
  "RequestCloseUserSession_getOpcode = 0x02"

definition RequestCloseUserSession_readImpl :: "('w \<times> bytebuffer option, requestCloseUserSession) sx" where
  "RequestCloseUserSession_readImpl =
     sx_bind rp_readString (\<lambda>userName.
     sx_bind rp_readString (\<lambda>sessionName.
     sx_return \<lparr>rcs_userName = userName, rcs_sessionName = sessionName\<rparr>))"

definition RequestCloseUserSession_execute :: "requestCloseUserSession \<Rightarrow> ('c node, unit) sx" where
  "RequestCloseUserSession_execute p nd =
     (case finishSession (rcs_userName p) (rcs_sessionName p) (nd_manager nd) of
        (Inl e, sm) \<Rightarrow> (Inl e, nd\<lparr>nd_manager := sm\<rparr>)
      | (Inr told, sm) \<Rightarrow>
          (Inr (),
           node_send (CloseResult \<lparr>csr_userName = rcs_userName p, csr_sessioName = rcs_sessionName p, csr_status = 0\<rparr>)
             (nd\<lparr>nd_manager := sm,
                 nd_finishing := nd_finishing nd @ (case told of None \<Rightarrow> [] | Some c \<Rightarrow> [c])\<rparr>)))"

section \<open>The dialogue with the streaming processes\<close>

definition RequestSessionInfo_getOpcode :: byte where
  "RequestSessionInfo_getOpcode = 0x00"

definition RequestSessionInfo_writeImpl :: "(bytebuffer option, unit) sx" where
  "RequestSessionInfo_writeImpl = sx_return ()"

definition RequestFinishSession_getOpcode :: byte where
  "RequestFinishSession_getOpcode = 0x02"

definition RequestFinishSession_writeImpl :: "(bytebuffer option, unit) sx" where
  "RequestFinishSession_writeImpl = sx_return ()"

record requestAllowAddress =
  raa_address :: string

definition RequestAllowAddress_getOpcode :: byte where
  "RequestAllowAddress_getOpcode = 0x01"

definition RequestAllowAddress_writeImpl :: "requestAllowAddress \<Rightarrow> (bytebuffer option, unit) sx" where
  "RequestAllowAddress_writeImpl p = sp_writeString (raa_address p)"

record sessionInfo =
  si_sessionName :: string
  si_userOwner :: string

definition SessionInfo_getOpcode :: byte where
  "SessionInfo_getOpcode = 0x00"

definition SessionInfo_readImpl :: "('w \<times> bytebuffer option, sessionInfo) sx" where
  "SessionInfo_readImpl =
     sx_bind rp_readString (\<lambda>sessionName.
     sx_bind rp_readString (\<lambda>userOwner.
     sx_return \<lparr>si_sessionName = sessionName, si_userOwner = userOwner\<rparr>))"

text \<open>\<open>con\<close> is the connection the packet came in on.\<close>

definition SessionInfo_execute :: "'c pointer \<Rightarrow> sessionInfo \<Rightarrow> 'c node \<Rightarrow> 'c node" where
  "SessionInfo_execute con p nd =
     nd\<lparr>nd_manager := set_session_connection (si_userOwner p) (si_sessionName p) con (nd_manager nd)\<rparr>"

record allowAddressAnswer =
  aaa_targetAddress :: string
  aaa_allowed :: bool

definition AllowAddressAnswer_getOpcode :: byte where
  "AllowAddressAnswer_getOpcode = 0x01"

definition AllowAddressAnswer_readImpl :: "('w \<times> bytebuffer option, allowAddressAnswer) sx" where
  "AllowAddressAnswer_readImpl =
     sx_bind rp_readString (\<lambda>targetAddress.
     sx_bind rp_readInt (\<lambda>allowed.
     sx_return \<lparr>aaa_targetAddress = targetAddress, aaa_allowed = (0 < sint allowed)\<rparr>))"

definition AllowAddressAnswer_execute :: "'c node \<Rightarrow> 'c node" where
  "AllowAddressAnswer_execute nd = nd"

section \<open>Contents\<close>

definition result_content :: "string \<Rightarrow> string \<Rightarrow> 32 word \<Rightarrow> byte list" where
  "result_content user session status = string_bytes user @ string_bytes session @ object_bytes 4 status"

lemma StartStreamingSessionResult_content:
  "writes_bytes (StartStreamingSessionResult_writeImpl p)
     (result_content (ssr_userName p) (ssr_sessionName p) (ssr_status p))"
  unfolding StartStreamingSessionResult_writeImpl_def result_content_def by (intro content_intros)

lemma CloseSessionResult_content:
  "writes_bytes (CloseSessionResult_writeImpl p)
     (result_content (csr_userName p) (csr_sessioName p) (csr_status p))"
  unfolding CloseSessionResult_writeImpl_def result_content_def by (intro content_intros)

definition port_bytes :: "portTable \<Rightarrow> byte list" where
  "port_bytes t =
     concat (map (\<lambda>(port, used). object_bytes 4 (ucast port :: 32 word) @ object_bytes 4 (if used then 1 else 0 :: 32 word)) t)"

lemma port_bytes_simps [simp]:
  "port_bytes [] = []"
  "port_bytes ((port, used) # t) =
     object_bytes 4 (ucast port :: 32 word) @ object_bytes 4 (if used then 1 else 0 :: 32 word) @ port_bytes t"
  by (simp_all add: port_bytes_def)

lemma length_port_bytes [simp]: "length (port_bytes t) = 8 * length t"
  by (induction t) (auto simp: object_bytes_def)

lemma write_ports_content: "writes_bytes (write_ports t) (port_bytes t)"
  by (induction t rule: write_ports.induct) (auto intro!: content_intros)

definition node_info_content :: "'c sessionManager \<Rightarrow> byte list" where
  "node_info_content sm =
     string_bytes (sm_publicAddress sm) @
     object_bytes 4 (word_of_nat (length (sm_usedPorts sm)) :: 32 word) @ port_bytes (sm_usedPorts sm)"

lemma NodeInfo_content: "writes_bytes (NodeInfo_writeImpl sm) (node_info_content sm)"
  unfolding NodeInfo_writeImpl_def node_info_content_def getPublicAddress_def getPortList_def
  by (intro content_intros write_ports_content)

definition start_request_content :: "requestStartStreamingSession \<Rightarrow> byte list" where
  "start_request_content p =
     string_bytes (rss_user p) @ string_bytes (rss_userAddress p) @ string_bytes (rss_sessionName p) @
     object_bytes 4 (rss_port p)"

lemma RequestStartStreamingSession_reads:
  assumes "length (rss_user p) < 65536" and "length (rss_userAddress p) < 65536"
    and "length (rss_sessionName p) < 65536"
  shows "reads_bytes RequestStartStreamingSession_readImpl (start_request_content p) p"
  using assms unfolding RequestStartStreamingSession_readImpl_def start_request_content_def
  by (intro reads_bytes_bind [OF reads_string] reads_bytes_last [OF reads_int]) simp_all

definition close_request_content :: "requestCloseUserSession \<Rightarrow> byte list" where
  "close_request_content p = string_bytes (rcs_userName p) @ string_bytes (rcs_sessionName p)"

lemma RequestCloseUserSession_reads:
  assumes "length (rcs_userName p) < 65536" and "length (rcs_sessionName p) < 65536"
  shows "reads_bytes RequestCloseUserSession_readImpl (close_request_content p) p"
  using assms unfolding RequestCloseUserSession_readImpl_def close_request_content_def
  by (intro reads_bytes_bind [OF reads_string] reads_bytes_last [OF reads_string]) simp_all

lemma SessionInfo_reads:
  assumes "length (si_sessionName p) < 65536" and "length (si_userOwner p) < 65536"
  shows "reads_bytes SessionInfo_readImpl (string_bytes (si_sessionName p) @ string_bytes (si_userOwner p)) p"
  using assms unfolding SessionInfo_readImpl_def
  by (intro reads_bytes_bind [OF reads_string] reads_bytes_last [OF reads_string]) simp_all

end
