(* ===== verification/VisualizationNode.thy ===== *)
theory VisualizationNode
  imports PortPool
begin

text \<open>
  A visualization node as the front end sees it, \<open>ReMoLON_FrontEnd/include/VisualizationNode.h\<close>
  and \<open>src/VisualizationNode.cpp\<close>, and the register of nodes, \<open>VisualizationNodeManager.h\<close>
  and \<open>src/VisualizationNodeManager.cpp\<close>.

  \<open>unsigned int\<close> is a 32-bit word, so \<open>_totalSlots - _usedSlots\<close> wraps. A connection is a name
  of type \<open>'c\<close>, and \<open>clientAddress\<close> is the address of its peer. A pointer to a node is the
  address under which the register keeps it.
\<close>

section \<open>A node\<close>

record 'c visualizationNode =
  vn_con :: "'c option"
  vn_address :: string
  vn_publicAddress :: string
  vn_totalSlots :: "32 word"
  vn_usedSlots :: "32 word"
  vn_slotTracker :: "(32 word, bool) umap"

text \<open>The constructor assigns \<open>_con\<close> only: \<open>junk\<close> is what the two counters hold.\<close>

definition VisualizationNode_new :: "32 word \<Rightarrow> 'c visualizationNode" where
  "VisualizationNode_new junk =
     \<lparr>vn_con = None, vn_address = [], vn_publicAddress = [], vn_totalSlots = junk, vn_usedSlots = junk,
      vn_slotTracker = []\<rparr>"

definition vn_setConnection :: "('c \<Rightarrow> string) \<Rightarrow> 'c option \<Rightarrow> 'c visualizationNode \<Rightarrow> 'c visualizationNode" where
  "vn_setConnection clientAddress con n =
     (case con of
        None \<Rightarrow> n\<lparr>vn_con := None\<rparr>
      | Some c \<Rightarrow> n\<lparr>vn_con := Some c, vn_address := clientAddress c\<rparr>)"

definition vn_setPublicAddress :: "string \<Rightarrow> 'c visualizationNode \<Rightarrow> 'c visualizationNode" where
  "vn_setPublicAddress publicAddress n = n\<lparr>vn_publicAddress := publicAddress\<rparr>"

definition getStreamSlotsCount :: "'c visualizationNode \<Rightarrow> 32 word" where
  "getStreamSlotsCount n = vn_totalSlots n"

definition getAvailableStreamSlotsCount :: "'c visualizationNode \<Rightarrow> 32 word" where
  "getAvailableStreamSlotsCount n = vn_totalSlots n - vn_usedSlots n"

definition setTotalSlots :: "32 word \<Rightarrow> 'c visualizationNode \<Rightarrow> 'c visualizationNode" where
  "setTotalSlots ts n = n\<lparr>vn_totalSlots := ts\<rparr>"

definition setUsedSlots :: "32 word \<Rightarrow> 'c visualizationNode \<Rightarrow> 'c visualizationNode" where
  "setUsedSlots us n = n\<lparr>vn_usedSlots := us\<rparr>"

text \<open>The result is the reserved port, \<open>None\<close> for \<open>false\<close>.\<close>

definition tryReserveSlot :: "'c visualizationNode \<Rightarrow> 32 word option \<times> 'c visualizationNode" where
  "tryReserveSlot n =
     (if getAvailableStreamSlotsCount n > 0
      then (case take_free (vn_slotTracker n) of
              None \<Rightarrow> (None, n)
            | Some (destPort, tracker) \<Rightarrow>
                (Some destPort, n\<lparr>vn_slotTracker := tracker, vn_usedSlots := vn_usedSlots n + 1\<rparr>))
      else (None, n))"

definition releaseSlot :: "32 word \<Rightarrow> 'c visualizationNode \<Rightarrow> 'c visualizationNode" where
  "releaseSlot port n =
     (if vn_usedSlots n > 0 \<and> um_find (vn_slotTracker n) port \<noteq> None
      then n\<lparr>vn_slotTracker := um_replace port False (vn_slotTracker n)\<rparr>
      else n)"

definition vn_addAvailablePort :: "32 word \<Rightarrow> bool \<Rightarrow> 'c visualizationNode \<Rightarrow> 'c visualizationNode" where
  "vn_addAvailablePort port used n = n\<lparr>vn_slotTracker := um_set port used (vn_slotTracker n)\<rparr>"

text \<open>What \<open>sendPacket\<close> queues: nothing without a connection.\<close>

definition vn_sendPacket :: "'p \<Rightarrow> 'c visualizationNode \<Rightarrow> ('c \<times> 'p) list" where
  "vn_sendPacket p n = (case vn_con n of None \<Rightarrow> [] | Some c \<Rightarrow> [(c, p)])"

section \<open>The register of nodes\<close>

record 'c visualizationNodeManager =
  vm_enableLoadBalance :: bool
  vm_nodeList :: "(string, 'c visualizationNode) umap"

text \<open>The static instance starts zero-initialised.\<close>

definition VisualizationNodeManager_new :: "'c visualizationNodeManager" where
  "VisualizationNodeManager_new = \<lparr>vm_enableLoadBalance = False, vm_nodeList = []\<rparr>"

definition setLoadBalanceEnabled :: "bool \<Rightarrow> 'c visualizationNodeManager \<Rightarrow> 'c visualizationNodeManager" where
  "setLoadBalanceEnabled val m = m\<lparr>vm_enableLoadBalance := val\<rparr>"

definition getNode :: "string \<Rightarrow> 'c visualizationNodeManager \<Rightarrow> 'c visualizationNode option" where
  "getNode address m = um_find (vm_nodeList m) address"

definition put_node :: "string \<Rightarrow> 'c visualizationNode \<Rightarrow> 'c visualizationNodeManager \<Rightarrow> 'c visualizationNodeManager" where
  "put_node address n m = m\<lparr>vm_nodeList := um_set address n (vm_nodeList m)\<rparr>"

definition registerOrGetNode ::
  "32 word \<Rightarrow> ('c \<Rightarrow> string) \<Rightarrow> 'c \<Rightarrow> 'c visualizationNodeManager \<Rightarrow> string \<times> 'c visualizationNodeManager" where
  "registerOrGetNode junk clientAddress con m =
     (let address = clientAddress con;
          node = (case getNode address m of Some n \<Rightarrow> n | None \<Rightarrow> VisualizationNode_new junk)
      in (address, put_node address (vn_setConnection clientAddress (Some con) node) m))"

text \<open>\<open>findBest\<close>: the loop carries the best candidate and its number of slots.\<close>

fun findBest_loop :: "string option \<Rightarrow> 32 word \<Rightarrow> (string, 'c visualizationNode) umap \<Rightarrow> string option" where
  "findBest_loop bestCandidate mostAvailable [] = bestCandidate"
| "findBest_loop bestCandidate mostAvailable ((address, n) # ns) =
     (if getAvailableStreamSlotsCount n > mostAvailable
      then findBest_loop (Some address) (getAvailableStreamSlotsCount n) ns
      else findBest_loop bestCandidate mostAvailable ns)"

definition findBest :: "'c visualizationNodeManager \<Rightarrow> string option" where
  "findBest m = findBest_loop None 0 (vm_nodeList m)"

fun find_loop :: "(string, 'c visualizationNode) umap \<Rightarrow> string option" where
  "find_loop [] = None"
| "find_loop ((address, n) # ns) =
     (if getAvailableStreamSlotsCount n > 0 then Some address else find_loop ns)"

definition find_node :: "'c visualizationNodeManager \<Rightarrow> string option" where
  "find_node m = find_loop (vm_nodeList m)"

definition findBestNode :: "'c visualizationNodeManager \<Rightarrow> string option" where
  "findBestNode m = (if vm_enableLoadBalance m then findBest m else find_node m)"

section \<open>A node whose counters agree with its table\<close>

text \<open>What a node info packet with distinct ports establishes.\<close>

definition vn_inv :: "'c visualizationNode \<Rightarrow> bool" where
  "vn_inv n \<longleftrightarrow> um_wf (vn_slotTracker n) \<and> length (vn_slotTracker n) < 2 ^ 32 \<and>
     vn_totalSlots n = word_of_nat (length (vn_slotTracker n)) \<and>
     vn_usedSlots n = word_of_nat (um_count id (vn_slotTracker n))"

abbreviation node_free :: "'c visualizationNode \<Rightarrow> nat" where
  "node_free n \<equiv> free_slots (vn_slotTracker n)"

lemma um_count_split: "um_count id m + um_count Not m = length m"
  by (induction m) (auto simp: um_count_def)

lemma available_eq:
  assumes "vn_inv n"
  shows "getAvailableStreamSlotsCount n = word_of_nat (node_free n)" and "node_free n < 2 ^ 32"
proof -
  have "length (vn_slotTracker n) = um_count id (vn_slotTracker n) + node_free n"
    using um_count_split by metis
  then show "getAvailableStreamSlotsCount n = word_of_nat (node_free n)" "node_free n < 2 ^ 32"
    using assms by (simp_all add: vn_inv_def getAvailableStreamSlotsCount_def)
qed

lemma available_pos:
  assumes "vn_inv n" shows "getAvailableStreamSlotsCount n > 0 \<longleftrightarrow> node_free n > 0"
proof -
  have "getAvailableStreamSlotsCount n = 0 \<longleftrightarrow> node_free n = 0"
    using available_eq [OF assms] by (simp add: word_of_nat_eq_0_iff) (auto dest: nat_dvd_not_less)
  then show ?thesis by (simp add: word_neq_0_conv [symmetric])
qed

lemma vn_inv_reserve:
  assumes "vn_inv n" and "take_free (vn_slotTracker n) = Some (port, t)"
  shows "vn_inv (n\<lparr>vn_slotTracker := t, vn_usedSlots := vn_usedSlots n + 1\<rparr>)"
proof -
  have wf: "um_wf (vn_slotTracker n)" using assms(1) by (simp add: vn_inv_def)
  note t = take_free_Some [OF wf assms(2)]
  have "um_count id t = Suc (um_count id (vn_slotTracker n))"
    using um_count_replace [of "vn_slotTracker n" port False id True] t by simp
  moreover have "um_wf t" using port_table.alloc_ok [OF wf assms(2)] .
  moreover have "length t = length (vn_slotTracker n)" using t by simp
  ultimately show ?thesis using assms(1) by (simp add: vn_inv_def)
qed

lemma tryReserveSlot_cases:
  assumes "vn_inv n"
  shows "node_free n = 0 \<and> tryReserveSlot n = (None, n) \<or>
    (\<exists>port n'. tryReserveSlot n = (Some port, n') \<and> um_find (vn_slotTracker n) port = Some False \<and>
      vn_slotTracker n' = um_set port True (vn_slotTracker n) \<and> vn_inv n' \<and>
      node_free n = Suc (node_free n') \<and> vn_con n' = vn_con n \<and> vn_address n' = vn_address n \<and>
      vn_publicAddress n' = vn_publicAddress n)"
proof (cases "take_free (vn_slotTracker n)")
  case None
  then show ?thesis
    using take_free_None_iff [of "vn_slotTracker n"] by (simp add: tryReserveSlot_def)
next
  case (Some a)
  obtain port t where t: "take_free (vn_slotTracker n) = Some (port, t)" using Some by (cases a) auto
  have wf: "um_wf (vn_slotTracker n)" using assms by (simp add: vn_inv_def)
  have "node_free n > 0" using take_free_count [OF wf t] by simp
  then have "getAvailableStreamSlotsCount n > 0" using available_pos [OF assms] by simp
  then show ?thesis
    using t take_free_Some [OF wf t] take_free_set [OF wf t] take_free_count [OF wf t] vn_inv_reserve [OF assms t]
    by (simp add: tryReserveSlot_def)
qed

section \<open>Properties\<close>

text \<open>
  On a node whose counters agree with its table of slots, a reservation succeeds
  exactly when a slot is free; it then marks one slot that was free, leaves the others and the
  identity of the node alone, and the counters still agree. Otherwise nothing changes.
\<close>

theorem tryReserveSlot_correct:
  assumes "vn_inv n" and "tryReserveSlot n = (r, n')"
  shows "(r = None \<longleftrightarrow> node_free n = 0) \<and> (r = None \<longrightarrow> n' = n) \<and>
    (\<forall>port. r = Some port \<longrightarrow> um_find (vn_slotTracker n) port = Some False \<and>
       vn_slotTracker n' = um_set port True (vn_slotTracker n) \<and> node_free n = Suc (node_free n') \<and>
       vn_con n' = vn_con n \<and> vn_address n' = vn_address n \<and> vn_publicAddress n' = vn_publicAddress n) \<and>
    vn_inv n'"
  using tryReserveSlot_cases [OF assms(1)] assms by auto

definition example_node :: "nat visualizationNode" where
  "example_node =
     vn_addAvailablePort 8001 False (vn_addAvailablePort 8002 True
       (setUsedSlots 1 (setTotalSlots 2 (VisualizationNode_new 0))))"

lemmas example_node_simps = example_node_def vn_addAvailablePort_def setUsedSlots_def setTotalSlots_def
  VisualizationNode_new_def

lemma example_node_inv: "vn_inv example_node"
  by (simp add: vn_inv_def example_node_simps um_set_def um_wf_def um_count_def)

lemma example_node_free: "node_free example_node = 1"
  by (simp add: example_node_simps um_set_def um_count_def)

theorem tryReserveSlot_correct_witness:
  "\<exists>port n'. tryReserveSlot example_node = (Some port, n') \<and> node_free n' = 0"
proof (cases "tryReserveSlot example_node")
  case (Pair r n')
  show ?thesis using tryReserveSlot_correct [OF example_node_inv Pair] Pair by (auto simp: example_node_free)
qed

text \<open>
  \<open>releaseSlot\<close> clears the mark of the slot but leaves the counter of used slots:
  once every slot of a node has been reserved, releasing one marks it free and the node still
  offers none, so no further reservation succeeds.
\<close>

theorem released_slot_stays_unavailable:
  assumes "vn_inv n" and "node_free n = 0" and "um_find (vn_slotTracker n) port \<noteq> None"
  shows "um_find (vn_slotTracker (releaseSlot port n)) port = Some False \<and>
    getAvailableStreamSlotsCount (releaseSlot port n) = 0 \<and>
    tryReserveSlot (releaseSlot port n) = (None, releaseSlot port n)"
proof -
  have len: "length (vn_slotTracker n) > 0" using assms(3) by (cases "vn_slotTracker n") auto
  have "um_count id (vn_slotTracker n) = length (vn_slotTracker n)"
    using um_count_split [of "vn_slotTracker n"] assms(2) by simp
  then have "vn_usedSlots n = word_of_nat (length (vn_slotTracker n))" and "length (vn_slotTracker n) < 2 ^ 32"
    and "vn_totalSlots n = vn_usedSlots n"
    using assms(1) by (simp_all add: vn_inv_def)
  then have "vn_usedSlots n \<noteq> 0" and av: "vn_totalSlots n - vn_usedSlots n = 0"
    using len by (auto simp: word_of_nat_eq_0_iff dest: nat_dvd_not_less)
  then have "vn_usedSlots n > 0" by (simp add: word_neq_0_conv)
  then show ?thesis
    using av assms(3) by (simp add: releaseSlot_def tryReserveSlot_def getAvailableStreamSlotsCount_def um_find_replace)
qed

theorem released_slot_stays_unavailable_witness:
  "fst (tryReserveSlot (releaseSlot 8001 (snd (tryReserveSlot example_node)))) = None"
proof -
  have e: "tryReserveSlot example_node =
      (Some 8001, example_node\<lparr>vn_slotTracker := [(8001, True), (8002, True)], vn_usedSlots := 2\<rparr>)"
    by (simp add: tryReserveSlot_def getAvailableStreamSlotsCount_def example_node_simps um_set_def)
  have "vn_inv (snd (tryReserveSlot example_node))"
    using tryReserveSlot_cases [OF example_node_inv] by (auto simp: example_node_free)
  moreover have "node_free (snd (tryReserveSlot example_node)) = 0"
    unfolding e by (simp add: um_count_def)
  moreover have "um_find (vn_slotTracker (snd (tryReserveSlot example_node))) 8001 \<noteq> None"
    unfolding e by simp
  ultimately show ?thesis using released_slot_stays_unavailable by (metis fst_conv)
qed

lemma find_loop_spec:
  "find_loop ns = None \<longleftrightarrow> (\<forall>(a, n) \<in> set ns. getAvailableStreamSlotsCount n = 0)"
  "find_loop ns = Some a \<Longrightarrow> \<exists>n. (a, n) \<in> set ns \<and> getAvailableStreamSlotsCount n > 0"
  by (induction ns rule: find_loop.induct) (auto simp: word_neq_0_conv [symmetric] split: if_splits)

lemma findBest_loop_spec:
  "findBest_loop best most ns = r \<Longrightarrow>
   (r = best \<and> (\<forall>(a, n) \<in> set ns. getAvailableStreamSlotsCount n \<le> most)) \<or>
   (\<exists>a n. r = Some a \<and> (a, n) \<in> set ns \<and> getAvailableStreamSlotsCount n > most \<and>
      (\<forall>(a', n') \<in> set ns. getAvailableStreamSlotsCount n' \<le> getAvailableStreamSlotsCount n))"
proof (induction best most ns rule: findBest_loop.induct)
  case (1 best most)
  then show ?case by simp
next
  case (2 best most address n ns)
  show ?case
  proof (cases "getAvailableStreamSlotsCount n > most")
    case True
    then have "findBest_loop (Some address) (getAvailableStreamSlotsCount n) ns = r" using "2.prems" by simp
    from "2.IH"(1) [OF True this] show ?thesis
    proof (elim disjE exE conjE)
      assume "r = Some address" "\<forall>(a, n') \<in> set ns. getAvailableStreamSlotsCount n' \<le> getAvailableStreamSlotsCount n"
      with True show ?thesis by (intro disjI2 exI [of _ address] exI [of _ n]) simp
    next
      fix a n0
      assume *: "r = Some a" "(a, n0) \<in> set ns" "getAvailableStreamSlotsCount n < getAvailableStreamSlotsCount n0"
        "\<forall>(a', n') \<in> set ns. getAvailableStreamSlotsCount n' \<le> getAvailableStreamSlotsCount n0"
      then have "most < getAvailableStreamSlotsCount n0" "getAvailableStreamSlotsCount n \<le> getAvailableStreamSlotsCount n0"
        using True by (auto intro: less_trans)
      with * show ?thesis by (intro disjI2 exI [of _ a] exI [of _ n0]) simp
    qed
  next
    case False
    then have run: "findBest_loop best most ns = r" and le: "getAvailableStreamSlotsCount n \<le> most"
      using "2.prems" by auto
    from "2.IH"(2) [OF False run] show ?thesis
    proof (elim disjE exE conjE)
      assume "r = best" "\<forall>(a, n) \<in> set ns. getAvailableStreamSlotsCount n \<le> most"
      with le show ?thesis by (intro disjI1) simp
    next
      fix a n0
      assume *: "r = Some a" "(a, n0) \<in> set ns" "most < getAvailableStreamSlotsCount n0"
        "\<forall>(a', n') \<in> set ns. getAvailableStreamSlotsCount n' \<le> getAvailableStreamSlotsCount n0"
      with le have "getAvailableStreamSlotsCount n \<le> getAvailableStreamSlotsCount n0" by simp
      with * show ?thesis by (intro disjI2 exI [of _ a] exI [of _ n0]) simp
    qed
  qed
qed

text \<open>
  Choosing a node: with no node offering a slot, none is chosen; a chosen node is
  registered and offers one; and with load balancing no other node offers more.
\<close>

theorem findBestNode_correct:
  assumes "um_wf (vm_nodeList m)"
  shows "(findBestNode m = None \<longleftrightarrow> (\<forall>(a, n) \<in> set (vm_nodeList m). getAvailableStreamSlotsCount n = 0)) \<and>
    (\<forall>a. findBestNode m = Some a \<longrightarrow>
       (\<exists>n. getNode a m = Some n \<and> getAvailableStreamSlotsCount n > 0 \<and>
          (vm_enableLoadBalance m \<longrightarrow>
             (\<forall>(a', n') \<in> set (vm_nodeList m). getAvailableStreamSlotsCount n' \<le> getAvailableStreamSlotsCount n))))"
proof (cases "vm_enableLoadBalance m")
  case True
  then have "findBestNode m = findBest_loop None 0 (vm_nodeList m)" by (simp add: findBestNode_def findBest_def)
  from findBest_loop_spec [OF this [symmetric]] show ?thesis
  proof (elim disjE exE conjE)
    assume *: "findBestNode m = None" "\<forall>(a, n) \<in> set (vm_nodeList m). getAvailableStreamSlotsCount n \<le> 0"
    then have "\<forall>(a, n) \<in> set (vm_nodeList m). getAvailableStreamSlotsCount n = 0" by (auto simp: word_le_0_iff)
    with * show ?thesis by simp
  next
    fix a n
    assume *: "findBestNode m = Some a" "(a, n) \<in> set (vm_nodeList m)" "0 < getAvailableStreamSlotsCount n"
      "\<forall>(a', n') \<in> set (vm_nodeList m). getAvailableStreamSlotsCount n' \<le> getAvailableStreamSlotsCount n"
    then have "getNode a m = Some n" using um_find_in [OF assms] by (simp add: getNode_def)
    moreover have "\<not> (\<forall>(a, n) \<in> set (vm_nodeList m). getAvailableStreamSlotsCount n = 0)"
      using *(2,3) by (auto intro!: bexI [of _ "(a, n)"])
    ultimately show ?thesis using * by simp
  qed
next
  case False
  then have e: "findBestNode m = find_loop (vm_nodeList m)" by (simp add: findBestNode_def find_node_def)
  show ?thesis
    using find_loop_spec [of "vm_nodeList m"] um_find_in [OF assms] False by (auto simp: e getNode_def)
qed

theorem findBestNode_correct_witness:
  "\<exists>n. getNode ''10.0.0.5''
     (setLoadBalanceEnabled True (put_node ''10.0.0.5'' example_node VisualizationNodeManager_new)) = Some n \<and>
     getAvailableStreamSlotsCount n > 0"
proof -
  let ?m = "setLoadBalanceEnabled True (put_node ''10.0.0.5'' example_node VisualizationNodeManager_new)"
  have l: "vm_nodeList ?m = [(''10.0.0.5'', example_node)]"
    by (simp add: setLoadBalanceEnabled_def put_node_def VisualizationNodeManager_new_def um_set_def)
  then have "um_wf (vm_nodeList ?m)" by (simp add: um_wf_def)
  moreover have "getAvailableStreamSlotsCount example_node > 0"
    using available_pos [OF example_node_inv] by (simp add: example_node_free)
  then have "findBestNode ?m = Some ''10.0.0.5''"
    unfolding findBestNode_def findBest_def l by (simp add: setLoadBalanceEnabled_def)
  ultimately show ?thesis using findBestNode_correct [of ?m] by blast
qed

end
