(* ===== verification/Users.thy ===== *)
theory Users
  imports Prelude
begin

text \<open>
  The users of the front end: \<open>ReMoLON_FrontEnd/include/User.h\<close>, \<open>src/User.cpp\<close>,
  \<open>include/UserManager.h\<close> and \<open>src/UserManager.cpp\<close>.

  PAM and the password database are not part of the repository. Their answers are arguments:
  \<open>pam_start\<close> and \<open>pam_authenticate\<close> say whether the call returns \<open>PAM_SUCCESS\<close> for a service,
  a user and the password of the conversation, and \<open>getpwnam\<close> gives the user and group ids of
  an account. All three see C strings.

  \<open>tryAuthUser\<close>, \<open>isUserLoggedIn\<close> and \<open>logOutUser\<close> run under \<open>_mtx\<close>.
\<close>

section \<open>A user\<close>

record user =
  us_unixUser :: string
  us_unixPwd :: string
  us_ipAddress :: string
  us_userID :: "32 word"
  us_groupID :: "32 word"
  us_activeSessions :: "(string, string) umap"

text \<open>The constructor leaves the ids unassigned: \<open>junk\<close>.\<close>

definition User_new :: "32 word \<Rightarrow> user" where
  "User_new junk =
     \<lparr>us_unixUser = [], us_unixPwd = [], us_ipAddress = [], us_userID = junk, us_groupID = junk,
      us_activeSessions = []\<rparr>"

definition setUnixUser :: "string \<Rightarrow> user \<Rightarrow> user" where
  "setUnixUser unixUser u = u\<lparr>us_unixUser := unixUser\<rparr>"

definition setPwd :: "string \<Rightarrow> user \<Rightarrow> user" where
  "setPwd pwd u = u\<lparr>us_unixPwd := pwd\<rparr>"

definition setAddress :: "string \<Rightarrow> user \<Rightarrow> user" where
  "setAddress address u = u\<lparr>us_ipAddress := address\<rparr>"

definition setUnixIds :: "32 word \<Rightarrow> 32 word \<Rightarrow> user \<Rightarrow> user" where
  "setUnixIds userID groupID u = u\<lparr>us_userID := userID, us_groupID := groupID\<rparr>"

definition getAddress :: "user \<Rightarrow> string" where
  "getAddress u = us_ipAddress u"

definition getUserName :: "user \<Rightarrow> string" where
  "getUserName u = us_unixUser u"

definition getUID :: "user \<Rightarrow> 32 word" where
  "getUID u = us_userID u"

definition getGID :: "user \<Rightarrow> 32 word" where
  "getGID u = us_groupID u"

definition getActiveSessions :: "user \<Rightarrow> (string, string) umap" where
  "getActiveSessions u = us_activeSessions u"

definition addSession :: "string \<Rightarrow> string \<Rightarrow> user \<Rightarrow> user" where
  "addSession sessionName nodeAddress u =
     u\<lparr>us_activeSessions := um_set sessionName nodeAddress (us_activeSessions u)\<rparr>"

definition removeSession :: "string \<Rightarrow> user \<Rightarrow> user" where
  "removeSession sessionName u =
     (if um_find (us_activeSessions u) sessionName \<noteq> None
      then u\<lparr>us_activeSessions := um_erase sessionName (us_activeSessions u)\<rparr>
      else u)"

section \<open>The register of users\<close>

record userManager =
  loggedInUsers :: "(string, user) umap"

definition UserManager_new :: userManager where
  "UserManager_new = \<lparr>loggedInUsers = []\<rparr>"

definition isUserLoggedIn :: "string \<Rightarrow> userManager \<Rightarrow> bool" where
  "isUserLoggedIn ipAddress m \<longleftrightarrow> um_find (loggedInUsers m) ipAddress \<noteq> None"

definition authenticate ::
  "(string \<Rightarrow> string \<Rightarrow> bool) \<Rightarrow> (string \<Rightarrow> string \<Rightarrow> string \<Rightarrow> bool) \<Rightarrow> string \<Rightarrow> string \<Rightarrow> string \<Rightarrow> bool" where
  "authenticate pam_start pam_authenticate service user pass =
     (if pam_start service user then pam_authenticate service user pass else False)"

definition put_user :: "string \<Rightarrow> user \<Rightarrow> userManager \<Rightarrow> userManager" where
  "put_user ipAddress u m = m\<lparr>loggedInUsers := um_set ipAddress u (loggedInUsers m)\<rparr>"

definition tryAuthUser ::
  "(string \<Rightarrow> string \<Rightarrow> bool) \<Rightarrow> (string \<Rightarrow> string \<Rightarrow> string \<Rightarrow> bool) \<Rightarrow> (string \<Rightarrow> (32 word \<times> 32 word) option) \<Rightarrow>
   32 word \<Rightarrow> string \<Rightarrow> string \<Rightarrow> string \<Rightarrow> userManager \<Rightarrow> bool \<times> userManager" where
  "tryAuthUser pam_start pam_authenticate getpwnam junk ipAddress user pwd m =
     (if authenticate pam_start pam_authenticate ''system-auth'' (c_str user) (c_str pwd)
      then (case getpwnam (c_str user) of
              None \<Rightarrow> (False, m)
            | Some (uid, gid) \<Rightarrow>
                (let usr = (case um_find (loggedInUsers m) ipAddress of None \<Rightarrow> User_new junk | Some u \<Rightarrow> u)
                 in (True, put_user ipAddress
                       (setUnixIds uid gid (setAddress ipAddress (setPwd pwd (setUnixUser user usr)))) m)))
      else (False, m))"

definition getUser :: "string \<Rightarrow> userManager \<Rightarrow> user option" where
  "getUser ipAddress m = um_find (loggedInUsers m) ipAddress"

text \<open>The user of a name is the first one of the iteration; the result carries its key.\<close>

fun find_by_name :: "string \<Rightarrow> (string, user) umap \<Rightarrow> (string \<times> user) option" where
  "find_by_name userName [] = None"
| "find_by_name userName ((ip, u) # us) =
     (if getUserName u = userName then Some (ip, u) else find_by_name userName us)"

definition getUserByName :: "string \<Rightarrow> userManager \<Rightarrow> (string \<times> user) option" where
  "getUserByName userName m = find_by_name userName (loggedInUsers m)"

definition logOutUser :: "string \<Rightarrow> userManager \<Rightarrow> bool \<times> userManager" where
  "logOutUser ipAddress m =
     (if um_find (loggedInUsers m) ipAddress \<noteq> None
      then (True, m\<lparr>loggedInUsers := um_erase ipAddress (loggedInUsers m)\<rparr>)
      else (False, m))"

section \<open>Lemmas\<close>

text \<open>Every user is registered under the address it carries.\<close>

definition users_ok :: "userManager \<Rightarrow> bool" where
  "users_ok m \<longleftrightarrow> um_wf (loggedInUsers m) \<and>
     (\<forall>ip u. getUser ip m = Some u \<longrightarrow> us_ipAddress u = ip \<and> um_wf (us_activeSessions u))"

lemma getUser_put [simp]: "getUser ip (put_user ip' u m) = (if ip = ip' then Some u else getUser ip m)"
  by (simp add: getUser_def put_user_def um_find_set)

lemma users_ok_put:
  "users_ok m \<Longrightarrow> us_ipAddress u = ip \<Longrightarrow> um_wf (us_activeSessions u) \<Longrightarrow> users_ok (put_user ip u m)"
  by (auto simp: users_ok_def) (simp add: put_user_def um_wf_set)

lemma users_ok_new: "users_ok UserManager_new"
  by (simp add: users_ok_def UserManager_new_def getUser_def um_wf_def)

lemmas user_defs = User_new_def setUnixUser_def setPwd_def setAddress_def setUnixIds_def getAddress_def
  getUserName_def getUID_def getGID_def getActiveSessions_def addSession_def removeSession_def

lemma user_sessions_wf [simp]:
  "um_wf (us_activeSessions u) \<Longrightarrow> um_wf (us_activeSessions (addSession n a u))"
  "um_wf (us_activeSessions u) \<Longrightarrow> um_wf (us_activeSessions (removeSession n u))"
  by (simp_all add: user_defs um_wf_set um_wf_erase)

lemma user_sessions_simps [simp]:
  "us_unixUser (addSession n a u) = us_unixUser u" "us_ipAddress (addSession n a u) = us_ipAddress u"
  "us_unixUser (removeSession n u) = us_unixUser u" "us_ipAddress (removeSession n u) = us_ipAddress u"
  "getUserName (addSession n a u) = getUserName u" "getUserName (removeSession n u) = getUserName u"
  "getAddress (addSession n a u) = getAddress u" "getAddress (removeSession n u) = getAddress u"
  by (simp_all add: user_defs)

lemma find_by_name_spec:
  "find_by_name userName us = Some (ip, u) \<Longrightarrow> (ip, u) \<in> set us \<and> getUserName u = userName"
  "find_by_name userName us = None \<longleftrightarrow> (\<forall>(ip, u) \<in> set us. getUserName u \<noteq> userName)"
  by (induction userName us rule: find_by_name.induct) (auto split: if_splits)

lemma getUserByName_Some:
  "users_ok m \<Longrightarrow> getUserByName userName m = Some (ip, u) \<Longrightarrow> getUser ip m = Some u \<and> us_unixUser u = userName"
  using find_by_name_spec(1) [of userName "loggedInUsers m" ip u] um_find_in [of "loggedInUsers m" ip u]
  by (simp add: getUserByName_def getUser_def users_ok_def getUserName_def)

section \<open>Properties\<close>

text \<open>
  Property C27. Logging in succeeds exactly when PAM accepts the C strings of the name and the
  password and the account exists. It then registers the full strings, with the account's ids,
  under the client's address and changes no other address; a failed attempt changes nothing,
  so an address is logged in afterwards exactly if it was before or the attempt succeeded.
\<close>

theorem tryAuthUser_correct:
  assumes "users_ok m"
    and "tryAuthUser pam_start pam_authenticate getpwnam junk ip user pwd m = (ok, m')"
  shows "(ok \<longleftrightarrow> pam_start ''system-auth'' (c_str user) \<and>
        pam_authenticate ''system-auth'' (c_str user) (c_str pwd) \<and> getpwnam (c_str user) \<noteq> None) \<and>
    (\<not> ok \<longrightarrow> m' = m) \<and>
    (ok \<longrightarrow> (\<exists>u. getUser ip m' = Some u \<and> us_unixUser u = user \<and> us_unixPwd u = pwd \<and> us_ipAddress u = ip \<and>
        Some (us_userID u, us_groupID u) = getpwnam (c_str user))) \<and>
    (\<forall>ip'. ip' \<noteq> ip \<longrightarrow> getUser ip' m' = getUser ip' m) \<and>
    (\<forall>ip'. isUserLoggedIn ip' m' \<longleftrightarrow> isUserLoggedIn ip' m \<or> ok \<and> ip' = ip) \<and> users_ok m'"
proof (cases "authenticate pam_start pam_authenticate ''system-auth'' (c_str user) (c_str pwd) \<and>
    getpwnam (c_str user) \<noteq> None")
  case False
  then have "ok = False \<and> m' = m"
    using assms(2) by (auto simp: tryAuthUser_def split: if_splits option.splits)
  with False assms(1) show ?thesis by (auto simp: authenticate_def split: if_splits)
next
  case True
  then obtain uid gid where pw: "getpwnam (c_str user) = Some (uid, gid)" by auto
  define usr where "usr = (case um_find (loggedInUsers m) ip of None \<Rightarrow> User_new junk | Some u \<Rightarrow> u)"
  define u where "u = setUnixIds uid gid (setAddress ip (setPwd pwd (setUnixUser user usr)))"
  have r: "ok" "m' = put_user ip u m"
    using True pw assms(2) by (simp_all add: tryAuthUser_def u_def usr_def Let_def)
  have "um_wf (us_activeSessions usr)"
    using assms(1) by (auto simp: usr_def users_ok_def getUser_def User_new_def um_wf_def split: option.splits)
  then have "users_ok m'" using assms(1) by (simp add: r(2) users_ok_put u_def user_defs)
  moreover have "isUserLoggedIn ip' m' \<longleftrightarrow> isUserLoggedIn ip' m \<or> ip' = ip" for ip'
    by (simp add: r(2) isUserLoggedIn_def put_user_def um_find_set)
  ultimately show ?thesis
    using True pw r by (auto simp: u_def user_defs authenticate_def split: if_splits)
qed

theorem tryAuthUser_correct_witness:
  "isUserLoggedIn ''10.0.0.1'' (snd (tryAuthUser (\<lambda>s u. True) (\<lambda>s u p. u = ''ann'' \<and> p = ''pw'')
     (\<lambda>u. if u = ''ann'' then Some (1000, 100) else None) 0 ''10.0.0.1'' ''ann'' ''pw'' UserManager_new))"
proof -
  have "c_str ''ann'' = ''ann''" "c_str ''pw'' = ''pw''" by (simp_all add: c_str_def)
  then show ?thesis
    using tryAuthUser_correct [OF users_ok_new surjective_pairing, of "\<lambda>s u. True" "\<lambda>s u p. u = ''ann'' \<and> p = ''pw''"
        "\<lambda>u. if u = ''ann'' then Some (1000, 100) else None" 0 "''10.0.0.1''" "''ann''" "''pw''"]
    by simp
qed

text \<open>
  A second user who logs in from an address takes over the first user's record: the
  name and the password become the second user's, and the list of active sessions stays the
  first user's.
\<close>

theorem relogin_inherits_sessions:
  assumes "getUser ip m = Some u"
    and "tryAuthUser pam_start pam_authenticate getpwnam junk ip user pwd m = (True, m')"
  shows "\<exists>u'. getUser ip m' = Some u' \<and> us_unixUser u' = user \<and> us_activeSessions u' = us_activeSessions u"
  using assms by (auto simp: tryAuthUser_def Let_def getUser_def [symmetric] user_defs split: if_splits option.splits)

theorem relogin_inherits_sessions_witness:
  "\<exists>u'. getUser ''10.0.0.1'' (snd (tryAuthUser (\<lambda>s u. True) (\<lambda>s u p. True) (\<lambda>u. Some (1001, 100)) 0 ''10.0.0.1'' ''bob'' ''pw''
       (put_user ''10.0.0.1'' (addSession ''a'' ''n1'' (setUnixUser ''ann'' (User_new 0))) UserManager_new))) = Some u' \<and>
     us_unixUser u' = ''bob'' \<and> us_activeSessions u' = [(''a'', ''n1'')]"
proof -
  let ?u = "addSession ''a'' ''n1'' (setUnixUser ''ann'' (User_new 0))"
  let ?m = "put_user ''10.0.0.1'' ?u UserManager_new"
  have g: "getUser ''10.0.0.1'' ?m = Some ?u" by simp
  have t: "tryAuthUser (\<lambda>s u. True) (\<lambda>s u p. True) (\<lambda>u. Some (1001, 100)) 0 ''10.0.0.1'' ''bob'' ''pw'' ?m =
      (True, snd (tryAuthUser (\<lambda>s u. True) (\<lambda>s u p. True) (\<lambda>u. Some (1001, 100)) 0 ''10.0.0.1'' ''bob'' ''pw'' ?m))"
    by (simp add: tryAuthUser_def authenticate_def Let_def)
  from relogin_inherits_sessions [OF g t] show ?thesis by (simp add: user_defs um_set_def)
qed

end
