(* ===== verification/SessionTracker.thy ===== *)
theory SessionTracker
  imports VisualizationNode Users
begin

text \<open>
  The session tracker of the front end: \<open>ReMoLON_FrontEnd/include/SessionTracker.h\<close> and
  \<open>src/SessionTracker.cpp\<close>.

  The operations work on the record \<open>frontend\<close>: the tracker, the register of nodes, and the
  packets the operation sent, each with the connection it was queued on. A \<open>User &\<close> is a value
  that is passed in and returned updated. The two packet classes it sends are the constructors
  of \<open>server_packet\<close>; \<open>ReMoLON_FrontEnd/include/serverpackets\<close> declares them.

  The loop of \<open>tryCreateSession\<close> compares a counter with \<open>maxAttempts\<close> and never changes it, so
  it may run forever: it is a \<open>partial_function\<close>, whose value \<open>None\<close> is a run without end.
\<close>

section \<open>Data\<close>

datatype SessionStatus =
    SESSION_UNINITIALIZED
  | SESSION_CREATING
  | SESSION_RUNNING
  | SESSION_CLOSING
  | SESSION_CRASHED

fun status_code :: "SessionStatus \<Rightarrow> nat" where
  "status_code SESSION_UNINITIALIZED = 0"
| "status_code SESSION_CREATING = 1"
| "status_code SESSION_RUNNING = 2"
| "status_code SESSION_CLOSING = 3"
| "status_code SESSION_CRASHED = 4"

text \<open>The enumeration is compared by its code.\<close>

lemma status_code_inj: "status_code s = status_code t \<longleftrightarrow> s = t"
  by (cases s; cases t) simp_all

instantiation SessionStatus :: linorder
begin

definition less_eq_SessionStatus :: "SessionStatus \<Rightarrow> SessionStatus \<Rightarrow> bool" where
  "less_eq_SessionStatus s t \<longleftrightarrow> status_code s \<le> status_code t"

definition less_SessionStatus :: "SessionStatus \<Rightarrow> SessionStatus \<Rightarrow> bool" where
  "less_SessionStatus s t \<longleftrightarrow> status_code s < status_code t"

instance
  by standard (auto simp: less_eq_SessionStatus_def less_SessionStatus_def status_code_inj)

end

record streamingSessionInfo =
  si_sessionName :: string
  si_ownerIp :: string
  si_ownerUsername :: string
  si_nodeAddress :: string
  si_nodePublicAddress :: string
  si_nodePort :: "32 word"
  si_status :: SessionStatus

definition StreamingSessionInfo_new :: "32 word \<Rightarrow> streamingSessionInfo" where
  "StreamingSessionInfo_new junk =
     \<lparr>si_sessionName = [], si_ownerIp = [], si_ownerUsername = [], si_nodeAddress = [],
      si_nodePublicAddress = [], si_nodePort = junk, si_status = SESSION_UNINITIALIZED\<rparr>"

type_synonym sessionInfos = "(string, streamingSessionInfo) umap"

datatype SessionCreationResult =
    CREATION_OK
  | CREATION_FAIL_DUPLICATE_NAME
  | CREATION_FAIL_NO_AVAILABLE_NODES

record sessionTracker =
  openSessions :: "(string, sessionInfos) umap"

text \<open>\<open>serverpackets::RequestStartStreamingSession\<close> and \<open>serverpackets::RequestCloseUserSession\<close>.\<close>

record startRequest =
  sr_userAddress :: string
  sr_userName :: string
  sr_sessionName :: string
  sr_port :: "32 word"

record closeRequest =
  cr_userName :: string
  cr_sessionName :: string

definition RequestStartStreamingSession :: "user \<Rightarrow> string \<Rightarrow> 32 word \<Rightarrow> startRequest" where
  "RequestStartStreamingSession u sessionName port =
     \<lparr>sr_userAddress = getAddress u, sr_userName = getUserName u, sr_sessionName = sessionName, sr_port = port\<rparr>"

definition RequestCloseUserSession :: "string \<Rightarrow> string \<Rightarrow> closeRequest" where
  "RequestCloseUserSession userName sessionName = \<lparr>cr_userName = userName, cr_sessionName = sessionName\<rparr>"

datatype server_packet =
    StartRequest startRequest
  | CloseRequest closeRequest

record 'c frontend =
  fe_tracker :: sessionTracker
  fe_nodes :: "'c visualizationNodeManager"
  fe_sent :: "('c \<times> server_packet) list"

section \<open>Operations\<close>

definition tracked :: "string \<Rightarrow> sessionTracker \<Rightarrow> sessionInfos option" where
  "tracked userName t = um_find (openSessions t) userName"

definition put_tracked :: "string \<Rightarrow> sessionInfos \<Rightarrow> sessionTracker \<Rightarrow> sessionTracker" where
  "put_tracked userName l t = t\<lparr>openSessions := um_set userName l (openSessions t)\<rparr>"

definition getSessionInfo :: "user \<Rightarrow> string \<Rightarrow> sessionTracker \<Rightarrow> streamingSessionInfo option" where
  "getSessionInfo u sessionName t =
     (case tracked (getUserName u) t of None \<Rightarrow> None | Some l \<Rightarrow> um_find l sessionName)"

definition maxAttempts :: nat where
  "maxAttempts = 20"

text \<open>
  The loop that looks for a node: no node ends the operation, a reserved slot ends the loop, and
  otherwise the loop condition decides. The result is the node and the port, if any.
\<close>

partial_function (option) reserve_loop ::
  "nat \<Rightarrow> 'c visualizationNodeManager \<Rightarrow> ((string \<times> 32 word) option \<times> 'c visualizationNodeManager) option" where
  "reserve_loop attempt m =
     (case findBestNode m of
        None \<Rightarrow> Some (None, m)
      | Some node \<Rightarrow>
          (case getNode node m of
             None \<Rightarrow> Some (None, m)
           | Some n \<Rightarrow>
               (case tryReserveSlot n of
                  (Some choosenPort, n') \<Rightarrow> Some (Some (node, choosenPort), put_node node n' m)
                | (None, n') \<Rightarrow>
                    (if attempt < maxAttempts
                     then reserve_loop attempt (put_node node n' m)
                     else Some (None, put_node node n' m)))))"

definition send_to_node :: "string \<Rightarrow> server_packet \<Rightarrow> 'c frontend \<Rightarrow> 'c frontend" where
  "send_to_node address p fe =
     fe\<lparr>fe_sent := fe_sent fe @
       (case getNode address (fe_nodes fe) of None \<Rightarrow> [] | Some n \<Rightarrow> vn_sendPacket p n)\<rparr>"

definition node_addresses :: "string \<Rightarrow> 'c visualizationNodeManager \<Rightarrow> string \<times> string" where
  "node_addresses node m =
     (case getNode node m of None \<Rightarrow> ([], []) | Some n \<Rightarrow> (vn_address n, vn_publicAddress n))"

definition tryCreateSession ::
  "32 word \<Rightarrow> user \<Rightarrow> string \<Rightarrow> 'c frontend \<Rightarrow> (SessionCreationResult \<times> user \<times> 'c frontend) option" where
  "tryCreateSession junk u sessionName fe =
     (if getSessionInfo u sessionName (fe_tracker fe) \<noteq> None
      then Some (CREATION_FAIL_DUPLICATE_NAME, u, fe)
      else
        (case reserve_loop 0 (fe_nodes fe) of
           None \<Rightarrow> None
         | Some (None, nodes) \<Rightarrow> Some (CREATION_FAIL_NO_AVAILABLE_NODES, u, fe\<lparr>fe_nodes := nodes\<rparr>)
         | Some (Some (node, choosenPort), nodes) \<Rightarrow>
             (let l = (case tracked (getUserName u) (fe_tracker fe) of None \<Rightarrow> [] | Some l \<Rightarrow> l);
                  (address, publicAddress) = node_addresses node nodes;
                  info = (StreamingSessionInfo_new junk)
                    \<lparr>si_sessionName := sessionName, si_nodeAddress := address,
                     si_nodePublicAddress := publicAddress, si_nodePort := choosenPort,
                     si_ownerIp := getAddress u, si_ownerUsername := getUserName u,
                     si_status := SESSION_CREATING\<rparr>;
                  fe1 = fe\<lparr>fe_nodes := nodes,
                    fe_tracker := put_tracked (getUserName u) (um_set sessionName info l) (fe_tracker fe)\<rparr>;
                  fe2 = send_to_node node (StartRequest (RequestStartStreamingSession u sessionName choosenPort)) fe1
              in Some (CREATION_OK, addSession sessionName address u, fe2))))"

definition set_status :: "SessionStatus \<Rightarrow> user \<Rightarrow> string \<Rightarrow> sessionTracker \<Rightarrow> sessionTracker" where
  "set_status status u sessionName t =
     (case tracked (getUserName u) t of
        None \<Rightarrow> t
      | Some l \<Rightarrow>
          (case um_find l sessionName of
             None \<Rightarrow> t
           | Some info \<Rightarrow>
               put_tracked (getUserName u) (um_replace sessionName (info\<lparr>si_status := status\<rparr>) l) t))"

definition createSession :: "user \<Rightarrow> string \<Rightarrow> 32 word \<Rightarrow> sessionTracker \<Rightarrow> sessionTracker" where
  "createSession u sessionName status t =
     (if getSessionInfo u sessionName t \<noteq> None
      then set_status (if status = 0 then SESSION_RUNNING else SESSION_CRASHED) u sessionName t
      else t)"

definition st_finishSession :: "user \<Rightarrow> string \<Rightarrow> sessionTracker \<Rightarrow> user \<times> sessionTracker" where
  "st_finishSession u sessionName t =
     (case tracked (getUserName u) t of
        None \<Rightarrow> (u, t)
      | Some l \<Rightarrow>
          (if um_find l sessionName \<noteq> None
           then (removeSession sessionName u, put_tracked (getUserName u) (um_erase sessionName l) t)
           else (u, t)))"

definition tryFinishSession :: "user \<Rightarrow> string \<Rightarrow> 'c frontend \<Rightarrow> user \<times> 'c frontend" where
  "tryFinishSession u sessionName fe =
     (case getSessionInfo u sessionName (fe_tracker fe) of
        None \<Rightarrow> (u, fe)
      | Some info \<Rightarrow>
          (let fe1 = fe\<lparr>fe_tracker := set_status SESSION_CLOSING u sessionName (fe_tracker fe)\<rparr>
           in case getNode (si_nodeAddress info) (fe_nodes fe1) of
                None \<Rightarrow>
                  (case st_finishSession u sessionName (fe_tracker fe1) of
                     (u', t) \<Rightarrow> (u', fe1\<lparr>fe_tracker := t\<rparr>))
              | Some node \<Rightarrow>
                  (u, send_to_node (si_nodeAddress info)
                        (CloseRequest (RequestCloseUserSession (getUserName u) sessionName)) fe1)))"

definition getUserSessions :: "user \<Rightarrow> sessionTracker \<Rightarrow> sessionInfos \<times> sessionTracker" where
  "getUserSessions u t =
     (let l = (case tracked (getUserName u) t of None \<Rightarrow> [] | Some l \<Rightarrow> l)
      in (l, put_tracked (getUserName u) l t))"

section \<open>Registered nodes\<close>

definition nodes_ok :: "'c visualizationNodeManager \<Rightarrow> bool" where
  "nodes_ok m \<longleftrightarrow> um_wf (vm_nodeList m) \<and> (\<forall>a n. getNode a m = Some n \<longrightarrow> vn_inv n \<and> vn_address n = a)"

lemma getNode_put [simp]: "getNode a (put_node a' n m) = (if a = a' then Some n else getNode a m)"
  by (simp add: getNode_def put_node_def um_find_set)

lemma nodes_ok_put: "nodes_ok m \<Longrightarrow> vn_inv n \<Longrightarrow> vn_address n = a \<Longrightarrow> nodes_ok (put_node a n m)"
  by (auto simp: nodes_ok_def) (simp add: put_node_def um_wf_set)

lemma um_replace_same: "um_find m k = Some v \<Longrightarrow> um_replace k v m = m"
  by (induction k v m rule: um_replace.induct) (auto split: if_splits)

lemma put_node_same: "getNode a m = Some n \<Longrightarrow> put_node a n m = m"
  by (simp add: getNode_def put_node_def um_set_def um_replace_same)

text \<open>The node the manager chooses has a free slot, so the loop ends in its first iteration.\<close>

lemma findBestNode_Some:
  assumes "um_wf (vm_nodeList m)" and "findBestNode m = Some a"
  shows "\<exists>n. getNode a m = Some n \<and> getAvailableStreamSlotsCount n > 0"
proof -
  have "findBest_loop None 0 ns = Some a \<Longrightarrow> \<exists>n. (a, n) \<in> set ns \<and> getAvailableStreamSlotsCount n > 0"
    for ns :: "(string, 'a visualizationNode) umap"
    using findBest_loop_spec [of None 0 ns "Some a"] by auto
  then show ?thesis
    using assms find_loop_spec(2) [of "vm_nodeList m" a] um_find_in [OF assms(1)]
    by (fastforce simp: findBestNode_def findBest_def find_node_def getNode_def split: if_splits)
qed

lemma findBestNode_None:
  assumes "um_wf (vm_nodeList m)" and "findBestNode m = None" and "getNode a m = Some n"
  shows "getAvailableStreamSlotsCount n = 0"
proof -
  have "findBest_loop None 0 ns = None \<Longrightarrow> (a, n) \<in> set ns \<Longrightarrow> getAvailableStreamSlotsCount n = 0"
    for ns :: "(string, 'a visualizationNode) umap"
    using findBest_loop_spec [of None 0 ns None] by (auto simp: word_le_0_iff)
  then show ?thesis
    using assms find_loop_spec(1) [of "vm_nodeList m"] um_find_Some_in [of "vm_nodeList m" a n]
    by (fastforce simp: findBestNode_def findBest_def find_node_def getNode_def split: if_splits)
qed

lemma reserve_loop_cases:
  assumes "nodes_ok m"
  obtains (none) "reserve_loop k m = Some (None, m)" "\<And>a n. getNode a m = Some n \<Longrightarrow> node_free n = 0"
    | (slot) a n port n' where "reserve_loop k m = Some (Some (a, port), put_node a n' m)"
      "getNode a m = Some n" "um_find (vn_slotTracker n) port = Some False"
      "vn_slotTracker n' = um_set port True (vn_slotTracker n)" "vn_inv n'" "node_free n = Suc (node_free n')"
      "vn_con n' = vn_con n" "vn_address n' = a" "vn_publicAddress n' = vn_publicAddress n"
proof (cases "findBestNode m")
  case None
  show thesis
  proof (rule none)
    show "reserve_loop k m = Some (None, m)" using None by (simp add: reserve_loop.simps)
    fix a n assume "getNode a m = Some n"
    then show "node_free n = 0"
      using findBestNode_None [OF _ None] available_pos [of n] assms by (auto simp: nodes_ok_def)
  qed
next
  case (Some a)
  then obtain n where n: "getNode a m = Some n" "getAvailableStreamSlotsCount n > 0"
    using findBestNode_Some [OF _ Some] assms by (auto simp: nodes_ok_def)
  then have inv: "vn_inv n" "vn_address n = a" using assms by (auto simp: nodes_ok_def)
  have "node_free n \<noteq> 0" using available_pos [OF inv(1)] n(2) by simp
  then obtain port n' where r: "tryReserveSlot n = (Some port, n')" "um_find (vn_slotTracker n) port = Some False"
    "vn_slotTracker n' = um_set port True (vn_slotTracker n)" "vn_inv n'" "node_free n = Suc (node_free n')"
    "vn_con n' = vn_con n" "vn_address n' = vn_address n" "vn_publicAddress n' = vn_publicAddress n"
    using tryReserveSlot_cases [OF inv(1)] by auto
  show thesis using Some n r inv by (intro slot [of a port n' n]) (simp_all add: reserve_loop.simps)
qed

text \<open>A node that claims slots and has none to give keeps the loop busy forever.\<close>

definition stuck :: "'c visualizationNodeManager \<Rightarrow> bool" where
  "stuck m \<longleftrightarrow> (\<exists>a n. findBestNode m = Some a \<and> getNode a m = Some n \<and> free_slots (vn_slotTracker n) = 0)"

lemma reserve_loop_stuck:
  assumes "stuck m" and "k < maxAttempts"
  shows "reserve_loop k m = None"
proof -
  have "stuck m \<longrightarrow> \<not> k < maxAttempts" if "reserve_loop k m = Some y" for k y and m :: "'a visualizationNodeManager"
  proof (rule reserve_loop.raw_induct [where P = "\<lambda>k m y. stuck m \<longrightarrow> \<not> k < maxAttempts", OF _ that], intro impI notI)
      fix loop :: "nat \<Rightarrow> 'a visualizationNodeManager \<Rightarrow> ((string \<times> 32 word) option \<times> 'a visualizationNodeManager) option"
      fix k m y
      assume IH: "\<And>k m y. loop k m = Some y \<Longrightarrow> stuck m \<longrightarrow> \<not> k < maxAttempts"
      assume body: "(case findBestNode m of None \<Rightarrow> Some (None, m)
        | Some node \<Rightarrow>
          (case getNode node m of None \<Rightarrow> Some (None, m)
           | Some n \<Rightarrow>
               (case tryReserveSlot n of
                  (None, n') \<Rightarrow> (if k < maxAttempts then loop k (put_node node n' m) else Some (None, put_node node n' m))
                | (Some choosenPort, n') \<Rightarrow> Some (Some (node, choosenPort), put_node node n' m)))) = Some y"
      assume s: "stuck m" and k: "k < maxAttempts"
      then obtain a n where n: "findBestNode m = Some a" "getNode a m = Some n" "free_slots (vn_slotTracker n) = 0"
        by (auto simp: stuck_def)
      then have "tryReserveSlot n = (None, n)"
        using take_free_None_iff [of "vn_slotTracker n"] by (simp add: tryReserveSlot_def)
      then have "loop k m = Some y" using body n k by (simp add: put_node_same)
      with IH s k show False by blast
  qed
  then show ?thesis using assms by (cases "reserve_loop k m") auto
qed

section \<open>Open sessions\<close>

definition open_info :: "sessionTracker \<Rightarrow> string \<Rightarrow> string \<Rightarrow> streamingSessionInfo option" where
  "open_info t owner name = (case tracked owner t of None \<Rightarrow> None | Some l \<Rightarrow> um_find l name)"

definition tracker_wf :: "sessionTracker \<Rightarrow> bool" where
  "tracker_wf t \<longleftrightarrow> um_wf (openSessions t) \<and> (\<forall>owner l. tracked owner t = Some l \<longrightarrow> um_wf l)"

lemma tracked_put [simp]: "tracked o1 (put_tracked o2 l t) = (if o1 = o2 then Some l else tracked o1 t)"
  by (simp add: tracked_def put_tracked_def um_find_set)

lemma tracker_wfD: "tracker_wf t \<Longrightarrow> tracked owner t = Some l \<Longrightarrow> um_wf l"
  by (simp add: tracker_wf_def)

lemma tracker_wf_put: "tracker_wf t \<Longrightarrow> um_wf l \<Longrightarrow> tracker_wf (put_tracked owner l t)"
  by (auto simp: tracker_wf_def) (simp add: put_tracked_def um_wf_set)

lemma getSessionInfo_eq: "getSessionInfo u name t = open_info t (getUserName u) name"
  by (simp add: getSessionInfo_def open_info_def)

lemma open_info_put:
  "open_info (put_tracked o2 l t) o1 n = (if o1 = o2 then um_find l n else open_info t o1 n)"
  by (simp add: open_info_def)

lemma open_info_set_status:
  "open_info (set_status st u name t) owner n =
     (if owner = getUserName u \<and> n = name then map_option (\<lambda>i. i\<lparr>si_status := st\<rparr>) (open_info t owner n)
      else open_info t owner n)"
  by (auto simp: set_status_def open_info_put um_find_replace split: option.splits) (auto simp: open_info_def)

lemma tracker_wf_set_status: "tracker_wf t \<Longrightarrow> tracker_wf (set_status st u name t)"
  by (auto simp: set_status_def simp: um_wf_replace intro!: tracker_wf_put dest: tracker_wfD split: option.splits)

lemma open_info_createSession:
  "open_info (createSession u name st t) owner n =
     (if owner = getUserName u \<and> n = name
      then map_option (\<lambda>i. i\<lparr>si_status := (if st = 0 then SESSION_RUNNING else SESSION_CRASHED)\<rparr>) (open_info t owner n)
      else open_info t owner n)"
  by (auto simp: createSession_def open_info_set_status getSessionInfo_eq)

lemma tracker_wf_createSession: "tracker_wf t \<Longrightarrow> tracker_wf (createSession u name st t)"
  by (simp add: createSession_def tracker_wf_set_status)

lemma open_info_finish:
  assumes "tracker_wf t"
  shows "open_info (snd (st_finishSession u name t)) owner n =
     (if owner = getUserName u \<and> n = name then None else open_info t owner n)"
  using assms
  by (auto simp: st_finishSession_def open_info_put um_find_erase tracker_wf_def split: option.splits)
    (auto simp: open_info_def)

lemma tracker_wf_finish: "tracker_wf t \<Longrightarrow> tracker_wf (snd (st_finishSession u name t))"
  by (auto simp: st_finishSession_def intro!: tracker_wf_put um_wf_erase dest: tracker_wfD split: option.splits)

lemma open_info_None: "tracked owner t = None \<Longrightarrow> open_info t owner n = None"
  by (simp add: open_info_def)

lemma open_info_created:
  assumes "l = (case tracked owner t of None \<Rightarrow> [] | Some l \<Rightarrow> l)"
  shows "open_info (put_tracked owner (um_set name i l) t) o' n =
    (if o' = owner \<and> n = name then Some i else open_info t o' n)"
proof -
  have "um_find l n = open_info t owner n" using assms by (simp add: open_info_def split: option.split)
  then show ?thesis by (simp add: open_info_put um_find_set)
qed

text \<open>The info record a successful creation stores.\<close>

definition created_info :: "32 word \<Rightarrow> user \<Rightarrow> string \<Rightarrow> string \<Rightarrow> string \<Rightarrow> 32 word \<Rightarrow> streamingSessionInfo" where
  "created_info junk u name address publicAddress port =
     \<lparr>si_sessionName = name, si_ownerIp = getAddress u, si_ownerUsername = getUserName u,
      si_nodeAddress = address, si_nodePublicAddress = publicAddress, si_nodePort = port,
      si_status = SESSION_CREATING\<rparr>"

lemma tryCreateSession_cases:
  assumes "nodes_ok (fe_nodes fe)"
  obtains (duplicate) "open_info (fe_tracker fe) (getUserName u) name \<noteq> None"
      "tryCreateSession junk u name fe = Some (CREATION_FAIL_DUPLICATE_NAME, u, fe)"
    | (none) "open_info (fe_tracker fe) (getUserName u) name = None"
      "\<And>a n. getNode a (fe_nodes fe) = Some n \<Longrightarrow> node_free n = 0"
      "tryCreateSession junk u name fe = Some (CREATION_FAIL_NO_AVAILABLE_NODES, u, fe)"
    | (created) a n port n' l where "open_info (fe_tracker fe) (getUserName u) name = None"
      "getNode a (fe_nodes fe) = Some n" "um_find (vn_slotTracker n) port = Some False"
      "vn_slotTracker n' = um_set port True (vn_slotTracker n)" "vn_inv n'" "node_free n = Suc (node_free n')"
      "vn_con n' = vn_con n" "vn_address n' = a" "vn_publicAddress n' = vn_publicAddress n"
      "l = (case tracked (getUserName u) (fe_tracker fe) of None \<Rightarrow> [] | Some l \<Rightarrow> l)"
      "tryCreateSession junk u name fe = Some (CREATION_OK, addSession name a u,
         \<lparr>fe_tracker = put_tracked (getUserName u)
             (um_set name (created_info junk u name a (vn_publicAddress n) port) l) (fe_tracker fe),
          fe_nodes = put_node a n' (fe_nodes fe),
          fe_sent = fe_sent fe @
            vn_sendPacket (StartRequest (RequestStartStreamingSession u name port)) n\<rparr>)"
proof (cases "open_info (fe_tracker fe) (getUserName u) name")
  case (Some i)
  then show thesis by (intro duplicate) (simp_all add: tryCreateSession_def getSessionInfo_eq)
next
  case None
  note fresh = this
  from assms show thesis
  proof (cases rule: reserve_loop_cases [where k = 0])
    case none
    then show thesis using fresh by (intro that(2)) (simp_all add: tryCreateSession_def getSessionInfo_eq)
  next
    case (slot a n port n')
    have "vn_sendPacket p n' = vn_sendPacket p n" for p :: server_packet
      using slot by (simp add: vn_sendPacket_def)
    then show thesis
      using slot fresh
      by (intro created [of a n port n' "case tracked (getUserName u) (fe_tracker fe) of None \<Rightarrow> [] | Some l \<Rightarrow> l"])
        (simp_all add: tryCreateSession_def getSessionInfo_eq node_addresses_def send_to_node_def Let_def
          StreamingSessionInfo_new_def created_info_def)
  qed
qed

text \<open>
  \<open>sessions_ok\<close>: the maps are well formed, every open session carries its name and its owner,
  and the slot it was given is marked as used on a registered node; different sessions have
  different slots.
\<close>

definition slot_taken :: "'c visualizationNodeManager \<Rightarrow> string \<Rightarrow> 32 word \<Rightarrow> bool" where
  "slot_taken m a port \<longleftrightarrow> (\<exists>n. getNode a m = Some n \<and> um_find (vn_slotTracker n) port = Some True)"

definition sessions_ok :: "'c frontend \<Rightarrow> bool" where
  "sessions_ok fe \<longleftrightarrow> nodes_ok (fe_nodes fe) \<and> tracker_wf (fe_tracker fe) \<and>
     (\<forall>o1 n1 i. open_info (fe_tracker fe) o1 n1 = Some i \<longrightarrow> si_ownerUsername i = o1 \<and> si_sessionName i = n1 \<and>
        slot_taken (fe_nodes fe) (si_nodeAddress i) (si_nodePort i)) \<and>
     (\<forall>o1 n1 i1 o2 n2 i2. open_info (fe_tracker fe) o1 n1 = Some i1 \<and> open_info (fe_tracker fe) o2 n2 = Some i2 \<and>
        si_nodeAddress i1 = si_nodeAddress i2 \<and> si_nodePort i1 = si_nodePort i2 \<longrightarrow> o1 = o2 \<and> n1 = n2)"

lemma sessions_okD:
  assumes "sessions_ok fe"
  shows "nodes_ok (fe_nodes fe)" "tracker_wf (fe_tracker fe)"
    "open_info (fe_tracker fe) o1 n1 = Some i \<Longrightarrow> si_ownerUsername i = o1 \<and> si_sessionName i = n1 \<and>
        slot_taken (fe_nodes fe) (si_nodeAddress i) (si_nodePort i)"
    "open_info (fe_tracker fe) o1 n1 = Some i1 \<Longrightarrow> open_info (fe_tracker fe) o2 n2 = Some i2 \<Longrightarrow>
        si_nodeAddress i1 = si_nodeAddress i2 \<Longrightarrow> si_nodePort i1 = si_nodePort i2 \<Longrightarrow> o1 = o2 \<and> n1 = n2"
  using assms unfolding sessions_ok_def by blast+

text \<open>Dropping sessions, changing their status and using more slots keep the invariant.\<close>

lemma sessions_ok_weaken:
  assumes "sessions_ok fe" and "nodes_ok (fe_nodes fe')" and "tracker_wf (fe_tracker fe')"
    and sub: "\<And>o1 n1 i. open_info (fe_tracker fe') o1 n1 = Some i \<Longrightarrow>
      \<exists>i0. open_info (fe_tracker fe) o1 n1 = Some i0 \<and> si_ownerUsername i = si_ownerUsername i0 \<and>
        si_sessionName i = si_sessionName i0 \<and> si_nodeAddress i = si_nodeAddress i0 \<and> si_nodePort i = si_nodePort i0"
    and slots: "\<And>a port. slot_taken (fe_nodes fe) a port \<Longrightarrow> slot_taken (fe_nodes fe') a port"
  shows "sessions_ok fe'"
  unfolding sessions_ok_def
proof (intro conjI allI impI; (elim conjE)?)
  show "nodes_ok (fe_nodes fe')" "tracker_wf (fe_tracker fe')" by fact+
  show "si_ownerUsername i = o1" "si_sessionName i = n1" "slot_taken (fe_nodes fe') (si_nodeAddress i) (si_nodePort i)"
    if "open_info (fe_tracker fe') o1 n1 = Some i" for o1 n1 i
    using sub [OF that] sessions_okD(3) [OF assms(1)] slots by fastforce+
  fix o1 n1 i1 o2 n2 i2
  assume "open_info (fe_tracker fe') o1 n1 = Some i1" "open_info (fe_tracker fe') o2 n2 = Some i2"
    "si_nodeAddress i1 = si_nodeAddress i2" "si_nodePort i1 = si_nodePort i2"
  with sub [of o1 n1 i1] sub [of o2 n2 i2] sessions_okD(4) [OF assms(1)]
  show "o1 = o2" "n1 = n2" by metis+
qed

lemma slot_taken_reserve:
  assumes "getNode a m = Some n" and "vn_slotTracker n' = um_set port True (vn_slotTracker n)"
  shows "slot_taken m a0 p0 \<Longrightarrow> slot_taken (put_node a n' m) a0 p0" and "slot_taken (put_node a n' m) a port"
  using assms by (auto simp: slot_taken_def um_find_set)

lemma sessions_ok_create:
  assumes ok: "sessions_ok fe" and r: "tryCreateSession junk u name fe = Some (r, u', fe')"
  shows "sessions_ok fe'"
proof -
  note D = sessions_okD [OF ok]
  from D(1) show ?thesis
  proof (cases rule: tryCreateSession_cases [where junk = junk and u = u and name = name])
    case duplicate
    then show ?thesis using r ok by simp
  next
    case none
    then show ?thesis using r ok by simp
  next
    case (created a n port n' l)
    define i where "i = created_info junk u name a (vn_publicAddress n) port"
    define fe1 where "fe1 = fe\<lparr>fe_nodes := put_node a n' (fe_nodes fe)\<rparr>"
    have fe': "fe_nodes fe' = fe_nodes fe1"
      "fe_tracker fe' = put_tracked (getUserName u) (um_set name i l) (fe_tracker fe)"
      using created r by (simp_all add: fe1_def i_def)
    have l: "um_wf l" "um_find l m = open_info (fe_tracker fe) (getUserName u) m" for m
      using created(10) D(2) by (auto simp: open_info_def dest: tracker_wfD split: option.splits)
    have oi: "open_info (fe_tracker fe') o1 n1 =
        (if o1 = getUserName u \<and> n1 = name then Some i else open_info (fe_tracker fe) o1 n1)" for o1 n1
      by (simp add: fe'(2) open_info_put um_find_set l(2))
    have "nodes_ok (fe_nodes fe1)" using created D(1) by (simp add: fe1_def nodes_ok_put)
    then have ok1: "sessions_ok fe1"
      using ok D(2) slot_taken_reserve(1) [OF created(2,4)]
      by (intro sessions_ok_weaken [OF ok]) (simp_all add: fe1_def)
    have free: False if "open_info (fe_tracker fe) o1 n1 = Some j" "si_nodeAddress j = a" "si_nodePort j = port" for o1 n1 j
      using D(3) [OF that(1)] that(2,3) created(2,3) by (auto simp: slot_taken_def)
    have i: "si_ownerUsername i = getUserName u" "si_sessionName i = name" "si_nodeAddress i = a" "si_nodePort i = port"
      by (simp_all add: i_def created_info_def)
    note D1 = sessions_okD [OF ok1]
    have taken: "slot_taken (fe_nodes fe') a port"
      using slot_taken_reserve(2) [OF created(2,4)] by (simp add: fe' fe1_def)
    have "tracker_wf (fe_tracker fe')" using D(2) l(1) by (simp add: fe'(2) tracker_wf_put um_wf_set)
    moreover have "si_ownerUsername j = o1 \<and> si_sessionName j = n1 \<and>
        slot_taken (fe_nodes fe') (si_nodeAddress j) (si_nodePort j)"
      if "open_info (fe_tracker fe') o1 n1 = Some j" for o1 n1 j
      using that i taken D1(3) [of o1 n1 j] by (auto simp: oi fe'(1) fe1_def split: if_splits)
    moreover have "o1 = o2 \<and> n1 = n2"
      if "open_info (fe_tracker fe') o1 n1 = Some i1" "open_info (fe_tracker fe') o2 n2 = Some i2"
        "si_nodeAddress i1 = si_nodeAddress i2" "si_nodePort i1 = si_nodePort i2" for o1 n1 i1 o2 n2 i2
      using that i free [of o1 n1 i1] free [of o2 n2 i2] D(4) [of o1 n1 i1 o2 n2 i2]
      by (simp add: oi split: if_splits)
    ultimately show ?thesis
      using D1(1) unfolding sessions_ok_def fe'(1) [symmetric] by blast
  qed
qed

lemma sessions_ok_finish:
  assumes ok: "sessions_ok fe" and r: "st_finishSession u name (fe_tracker fe) = (u', t)"
  shows "sessions_ok (fe\<lparr>fe_tracker := t\<rparr>)"
proof (rule sessions_ok_weaken [OF ok])
  have t: "t = snd (st_finishSession u name (fe_tracker fe))" using r by simp
  show "tracker_wf (fe_tracker (fe\<lparr>fe_tracker := t\<rparr>))"
    using sessions_okD(2) [OF ok] by (simp add: t tracker_wf_finish)
  show "\<exists>i0. open_info (fe_tracker fe) o1 n1 = Some i0 \<and> si_ownerUsername i = si_ownerUsername i0 \<and>
        si_sessionName i = si_sessionName i0 \<and> si_nodeAddress i = si_nodeAddress i0 \<and> si_nodePort i = si_nodePort i0"
    if "open_info (fe_tracker (fe\<lparr>fe_tracker := t\<rparr>)) o1 n1 = Some i" for o1 n1 i
    using that sessions_okD(2) [OF ok] by (auto simp: t open_info_finish split: if_splits)
qed (use sessions_okD(1) [OF ok] in simp_all)

lemma sessions_ok_status:
  assumes ok: "sessions_ok fe" shows "sessions_ok (fe\<lparr>fe_tracker := set_status st u name (fe_tracker fe)\<rparr>)"
proof (rule sessions_ok_weaken [OF ok])
  show "\<exists>i0. open_info (fe_tracker fe) o1 n1 = Some i0 \<and> si_ownerUsername i = si_ownerUsername i0 \<and>
        si_sessionName i = si_sessionName i0 \<and> si_nodeAddress i = si_nodeAddress i0 \<and> si_nodePort i = si_nodePort i0"
    if "open_info (fe_tracker (fe\<lparr>fe_tracker := set_status st u name (fe_tracker fe)\<rparr>)) o1 n1 = Some i" for o1 n1 i
    using that by (auto simp: open_info_set_status split: if_splits)
qed (use sessions_okD [OF ok] in \<open>simp_all add: tracker_wf_set_status\<close>)

lemma sessions_ok_sent: "sessions_ok (fe\<lparr>fe_sent := s\<rparr>) = sessions_ok fe"
  by (simp add: sessions_ok_def)

lemma sessions_ok_tryFinish:
  assumes ok: "sessions_ok fe" and r: "tryFinishSession u name fe = (u', fe')"
  shows "sessions_ok fe'"
proof (cases "getSessionInfo u name (fe_tracker fe)")
  case None
  then show ?thesis using assms by (simp add: tryFinishSession_def)
next
  case (Some info)
  define fe1 where "fe1 = fe\<lparr>fe_tracker := set_status SESSION_CLOSING u name (fe_tracker fe)\<rparr>"
  have ok1: "sessions_ok fe1" unfolding fe1_def by (rule sessions_ok_status [OF ok])
  show ?thesis
  proof (cases "getNode (si_nodeAddress info) (fe_nodes fe)")
    case None
    then have "fe' = fe1\<lparr>fe_tracker := snd (st_finishSession u name (fe_tracker fe1))\<rparr>"
      using Some r by (auto simp: tryFinishSession_def fe1_def Let_def split: prod.splits)
    then show ?thesis using sessions_ok_finish [OF ok1 surjective_pairing] by simp
  next
    case node: (Some n)
    then show ?thesis
      using Some r ok1 by (auto simp: tryFinishSession_def fe1_def Let_def send_to_node_def sessions_ok_sent)
  qed
qed

section \<open>The runs of the front end\<close>

text \<open>
  A step creates a session, takes the result of a start from a node, asks a node to close a
  session, takes the result of a close, or registers a node at an address that was not
  registered. Users, names, addresses and status codes are arbitrary.
\<close>

inductive fe_step :: "'c frontend \<Rightarrow> 'c frontend \<Rightarrow> bool" where
  create: "tryCreateSession junk u name fe = Some (r, u', fe') \<Longrightarrow> fe_step fe fe'"
| started: "fe_step fe (fe\<lparr>fe_tracker := createSession u name status (fe_tracker fe)\<rparr>)"
| close: "tryFinishSession u name fe = (u', fe') \<Longrightarrow> fe_step fe fe'"
| closed: "st_finishSession u name (fe_tracker fe) = (u', t) \<Longrightarrow> fe_step fe (fe\<lparr>fe_tracker := t\<rparr>)"
| announce: "getNode a (fe_nodes fe) = None \<Longrightarrow> vn_inv n \<Longrightarrow> vn_address n = a \<Longrightarrow>
    fe_step fe (fe\<lparr>fe_nodes := put_node a n (fe_nodes fe)\<rparr>)"

definition fe_initial :: "'c frontend" where
  "fe_initial = \<lparr>fe_tracker = \<lparr>openSessions = []\<rparr>, fe_nodes = VisualizationNodeManager_new, fe_sent = []\<rparr>"

inductive fe_reachable :: "'c frontend \<Rightarrow> bool" where
  init: "fe_reachable fe_initial"
| step: "fe_reachable fe \<Longrightarrow> fe_step fe fe' \<Longrightarrow> fe_reachable fe'"

lemma sessions_ok_announce:
  assumes ok: "sessions_ok fe" and "getNode a (fe_nodes fe) = None" and "vn_inv n" and "vn_address n = a"
  shows "sessions_ok (fe\<lparr>fe_nodes := put_node a n (fe_nodes fe)\<rparr>)"
  using sessions_okD(1,2) [OF ok] assms(2-4)
  by (intro sessions_ok_weaken [OF ok]) (auto simp: nodes_ok_put slot_taken_def)

lemma sessions_ok_step: "fe_step fe fe' \<Longrightarrow> sessions_ok fe \<Longrightarrow> sessions_ok fe'"
  by (cases rule: fe_step.cases)
    (auto intro: sessions_ok_create sessions_ok_tryFinish sessions_ok_finish sessions_ok_announce sessions_ok_status
      simp: createSession_def)

lemma sessions_ok_initial: "sessions_ok fe_initial"
  by (simp add: sessions_ok_def fe_initial_def nodes_ok_def tracker_wf_def open_info_def tracked_def getNode_def
      VisualizationNodeManager_new_def um_wf_def)

lemma fe_reachable_ok: "fe_reachable fe \<Longrightarrow> sessions_ok fe"
  by (induction rule: fe_reachable.induct) (auto intro: sessions_ok_initial sessions_ok_step)

text \<open>A slot that is marked and that no open session has stays so: no step gives it back.\<close>

definition slot_lost :: "'c frontend \<Rightarrow> string \<Rightarrow> 32 word \<Rightarrow> bool" where
  "slot_lost fe a port \<longleftrightarrow> slot_taken (fe_nodes fe) a port \<and>
     (\<forall>owner name i. open_info (fe_tracker fe) owner name = Some i \<longrightarrow> (si_nodeAddress i, si_nodePort i) \<noteq> (a, port))"

lemma slot_lost_weaken:
  assumes "slot_lost fe a port" and "\<And>a port. slot_taken (fe_nodes fe) a port \<Longrightarrow> slot_taken (fe_nodes fe') a port"
    and "\<And>o1 n1 i. open_info (fe_tracker fe') o1 n1 = Some i \<Longrightarrow>
      \<exists>i0. open_info (fe_tracker fe) o1 n1 = Some i0 \<and> si_nodeAddress i = si_nodeAddress i0 \<and> si_nodePort i = si_nodePort i0"
  shows "slot_lost fe' a port"
  using assms(1) assms(2) [of a port] assms(3) unfolding slot_lost_def by metis

lemma open_info_tryFinish:
  assumes "tracker_wf (fe_tracker fe)" and "tryFinishSession u name fe = (u', fe')"
  shows "open_info (fe_tracker fe') owner n \<in>
    {open_info (fe_tracker fe) owner n, None,
     map_option (\<lambda>i. i\<lparr>si_status := SESSION_CLOSING\<rparr>) (open_info (fe_tracker fe) owner n)}"
proof -
  let ?t = "set_status SESSION_CLOSING u name (fe_tracker fe)"
  have "fe_tracker fe' \<in> {fe_tracker fe, ?t, snd (st_finishSession u name ?t)}"
    using assms(2) by (auto simp: tryFinishSession_def Let_def send_to_node_def split: option.splits prod.splits)
  then show ?thesis
    using open_info_finish [OF tracker_wf_set_status [OF assms(1), of SESSION_CLOSING u name]]
    by (auto simp: open_info_set_status)
qed

lemma tryFinishSession_nodes: "tryFinishSession u name fe = (u', fe') \<Longrightarrow> fe_nodes fe' = fe_nodes fe"
  by (auto simp: tryFinishSession_def Let_def send_to_node_def split: option.splits prod.splits)

lemma slot_lost_step:
  assumes step: "fe_step fe fe'" and ok: "sessions_ok fe" and lost: "slot_lost fe a port"
  shows "slot_lost fe' a port"
proof -
  note D = sessions_okD [OF ok]
  from step show ?thesis
  proof (cases rule: fe_step.cases)
    case (create junk u name r u')
    from D(1) show ?thesis
    proof (cases rule: tryCreateSession_cases [where junk = junk and u = u and name = name])
      case (created b n p n' l)
      then have fe': "fe_nodes fe' = put_node b n' (fe_nodes fe)" "fe_tracker fe' = put_tracked (getUserName u)
          (um_set name (created_info junk u name b (vn_publicAddress n) p) l) (fe_tracker fe)"
        using create by simp_all
      have other: "(b, p) \<noteq> (a, port)" using lost created(2,3) by (auto simp: slot_lost_def slot_taken_def)
      have "slot_taken (fe_nodes fe') a port"
        unfolding fe' by (rule slot_taken_reserve(1) [OF created(2,4)]) (use lost in \<open>simp add: slot_lost_def\<close>)
      then show ?thesis
        using lost other unfolding slot_lost_def fe' open_info_created [OF created(10)]
        by (auto simp: created_info_def split: if_splits)
    qed (use create lost in simp_all)
  next
    case (started u name status)
    show ?thesis by (rule slot_lost_weaken [OF lost]) (auto simp: started open_info_createSession split: if_splits)
  next
    case (close u name u')
    show ?thesis
    proof (rule slot_lost_weaken [OF lost])
      fix o1 n1 i assume "open_info (fe_tracker fe') o1 n1 = Some i"
      then show "\<exists>i0. open_info (fe_tracker fe) o1 n1 = Some i0 \<and>
          si_nodeAddress i = si_nodeAddress i0 \<and> si_nodePort i = si_nodePort i0"
        using open_info_tryFinish [OF D(2) close, of o1 n1] by (cases "open_info (fe_tracker fe) o1 n1") auto
    qed (simp add: tryFinishSession_nodes [OF close])
  next
    case (closed u name u' t)
    have t: "t = snd (st_finishSession u name (fe_tracker fe))" using closed by simp
    show ?thesis by (rule slot_lost_weaken [OF lost]) (auto simp: closed(1) t open_info_finish [OF D(2)] split: if_splits)
  next
    case (announce b n)
    show ?thesis by (rule slot_lost_weaken [OF lost]) (use announce in \<open>auto simp: slot_taken_def\<close>)
  qed
qed

lemma slot_lost_for_good:
  assumes "fe_step\<^sup>*\<^sup>* fe fe'" and "sessions_ok fe" and "slot_lost fe a port"
  shows "slot_lost fe' a port"
proof -
  from assms(1) have "sessions_ok fe' \<and> slot_lost fe' a port"
    by (induction rule: rtranclp_induct) (use assms sessions_ok_step slot_lost_step in blast)+
  then show ?thesis ..
qed

section \<open>Properties\<close>

text \<open>
  Property C8. In every state the front end can reach from its start, as long as no node
  announces itself a second time, two different open sessions never have the same node and
  port, and the slot of an open session is marked as used on a registered node.
\<close>

theorem open_sessions_have_own_slots:
  assumes "fe_reachable fe"
    and "open_info (fe_tracker fe) o1 n1 = Some i1" and "open_info (fe_tracker fe) o2 n2 = Some i2"
    and "(o1, n1) \<noteq> (o2, n2)"
  shows "(si_nodeAddress i1, si_nodePort i1) \<noteq> (si_nodeAddress i2, si_nodePort i2) \<and>
    slot_taken (fe_nodes fe) (si_nodeAddress i1) (si_nodePort i1) \<and>
    si_ownerUsername i1 = o1 \<and> si_sessionName i1 = n1"
proof -
  note D = sessions_okD [OF fe_reachable_ok [OF assms(1)]]
  show ?thesis using D(3) [OF assms(2)] D(4) [OF assms(2,3)] assms(4) by auto
qed

definition example_frontend :: "nat frontend" where
  "example_frontend =
     fe_initial\<lparr>fe_nodes := put_node ''10.0.0.5''
       (vn_setConnection (\<lambda>_. ''10.0.0.5'') (Some 7)
         (vn_addAvailablePort 8001 False (vn_addAvailablePort 8002 False
           (setUsedSlots 0 (setTotalSlots 2 (VisualizationNode_new 0)))))) (fe_nodes fe_initial)\<rparr>"

lemma example_reachable: "fe_reachable example_frontend"
proof -
  have n: "getNode ''10.0.0.5'' (fe_nodes (fe_initial :: nat frontend)) = None"
    by (simp add: fe_initial_def getNode_def VisualizationNodeManager_new_def)
  show ?thesis
    unfolding example_frontend_def
    by (intro fe_reachable.step [OF fe_reachable.init] fe_step.announce [OF n])
      (simp_all add: vn_inv_def example_node_simps vn_setConnection_def um_set_def um_wf_def um_count_def)
qed

definition ann :: user where "ann = setUnixUser ''ann'' (setAddress ''10.0.0.1'' (User_new 0))"
definition bob :: user where "bob = setUnixUser ''bob'' (setAddress ''10.0.0.2'' (User_new 0))"

lemmas frontend_eval = tryCreateSession_def getSessionInfo_def tracked_def put_tracked_def reserve_loop.simps
  findBestNode_def find_node_def getNode_def put_node_def tryReserveSlot_def getAvailableStreamSlotsCount_def
  node_addresses_def send_to_node_def vn_sendPacket_def Let_def StreamingSessionInfo_new_def
  fe_initial_def VisualizationNodeManager_new_def example_node_simps vn_setConnection_def um_set_def
  RequestStartStreamingSession_def user_defs ann_def bob_def

text \<open>Two creations, run on the example.\<close>

definition example_created :: "nat frontend" where
  "example_created =
     (case tryCreateSession 0 ann ''a'' example_frontend of
        None \<Rightarrow> example_frontend
      | Some (_, _, fe) \<Rightarrow> (case tryCreateSession 0 bob ''b'' fe of None \<Rightarrow> fe | Some (_, _, fe') \<Rightarrow> fe'))"

lemma example_created_reachable: "fe_reachable example_created"
  using example_reachable
  by (auto simp: example_created_def split: option.splits prod.splits intro: fe_reachable.step fe_step.create)

lemma example_created_infos:
  "open_info (fe_tracker example_created) ''ann'' ''a'' =
     Some (created_info 0 ann ''a'' ''10.0.0.5'' [] 8001)"
  "open_info (fe_tracker example_created) ''bob'' ''b'' =
     Some (created_info 0 bob ''b'' ''10.0.0.5'' [] 8002)"
  by (simp_all add: example_created_def example_frontend_def frontend_eval open_info_def created_info_def)

theorem open_sessions_have_own_slots_witness:
  "slot_taken (fe_nodes example_created) ''10.0.0.5'' 8001 \<and>
   si_nodePort (created_info 0 ann ''a'' ''10.0.0.5'' [] 8001) \<noteq>
     si_nodePort (created_info 0 bob ''b'' ''10.0.0.5'' [] 8002)"
  using open_sessions_have_own_slots [OF example_created_reachable example_created_infos]
  by (simp add: created_info_def)

definition no_free_slot :: "'c visualizationNodeManager \<Rightarrow> bool" where
  "no_free_slot m \<longleftrightarrow> (\<forall>a n. getNode a m = Some n \<longrightarrow> node_free n = 0)"

text \<open>
  What a successful creation does to the front end and the user: the session is added to the ones
  of its owner and no other session changes, one free slot of one node is marked and no other node
  changes, the start request for that slot is queued on the node's connection, and the user
  records the session with the node's address.
\<close>

definition session_created ::
  "32 word \<Rightarrow> user \<Rightarrow> string \<Rightarrow> 'c frontend \<Rightarrow> user \<Rightarrow> 'c frontend \<Rightarrow> string \<Rightarrow> 'c visualizationNode \<Rightarrow> 32 word \<Rightarrow> bool" where
  "session_created junk u name fe u' fe' a n port \<longleftrightarrow>
     getNode a (fe_nodes fe) = Some n \<and> um_find (vn_slotTracker n) port = Some False \<and>
     u' = addSession name a u \<and>
     (\<forall>owner m. open_info (fe_tracker fe') owner m =
        (if owner = getUserName u \<and> m = name then Some (created_info junk u name a (vn_publicAddress n) port)
         else open_info (fe_tracker fe) owner m)) \<and>
     (\<exists>n'. (\<forall>b. getNode b (fe_nodes fe') = (if b = a then Some n' else getNode b (fe_nodes fe))) \<and>
        vn_slotTracker n' = um_set port True (vn_slotTracker n) \<and> vn_inv n' \<and> node_free n = Suc (node_free n') \<and>
        vn_con n' = vn_con n \<and> vn_address n' = a \<and> vn_publicAddress n' = vn_publicAddress n) \<and>
     fe_sent fe' = fe_sent fe @ vn_sendPacket (StartRequest (RequestStartStreamingSession u name port)) n"

text \<open>
  Property C10. When the counters of every registered node agree with its table, creating a
  session always returns: it reports a duplicate name exactly when the user already has a
  session of that name, no available node exactly when no registered node has a free slot, and
  changes nothing in both cases; otherwise it opens the session, and only that one, on a slot
  that was free and is now marked, changes no other node, queues the start request for that port
  on the connection of the node, and returns the user with the session recorded.
\<close>

theorem tryCreateSession_correct:
  assumes "nodes_ok (fe_nodes fe)"
  shows "\<exists>r u' fe'. tryCreateSession junk u name fe = Some (r, u', fe') \<and>
    (r = CREATION_FAIL_DUPLICATE_NAME \<longleftrightarrow> open_info (fe_tracker fe) (getUserName u) name \<noteq> None) \<and>
    (r = CREATION_FAIL_NO_AVAILABLE_NODES \<longleftrightarrow> open_info (fe_tracker fe) (getUserName u) name = None \<and>
       no_free_slot (fe_nodes fe)) \<and>
    (r \<noteq> CREATION_OK \<longrightarrow> u' = u \<and> fe' = fe) \<and>
    (r = CREATION_OK \<longrightarrow> (\<exists>a n port. session_created junk u name fe u' fe' a n port))"
  using assms
proof (cases rule: tryCreateSession_cases [where junk = junk and u = u and name = name])
  case duplicate
  then show ?thesis
    by (intro exI [of _ CREATION_FAIL_DUPLICATE_NAME] exI [of _ u] exI [of _ fe] conjI duplicate(2)) simp_all
next
  case none
  have "no_free_slot (fe_nodes fe)"
    unfolding no_free_slot_def by (intro allI impI) (rule none(2))
  with none(1) have "(CREATION_FAIL_NO_AVAILABLE_NODES = CREATION_FAIL_DUPLICATE_NAME) =
      (open_info (fe_tracker fe) (getUserName u) name \<noteq> None)"
    "(CREATION_FAIL_NO_AVAILABLE_NODES = CREATION_FAIL_NO_AVAILABLE_NODES) =
       (open_info (fe_tracker fe) (getUserName u) name = None \<and> no_free_slot (fe_nodes fe))"
    by simp_all
  with none(3) show ?thesis by blast
next
  case (created a n port n' l)
  define fe' where "fe' = \<lparr>fe_tracker = put_tracked (getUserName u)
      (um_set name (created_info junk u name a (vn_publicAddress n) port) l) (fe_tracker fe),
    fe_nodes = put_node a n' (fe_nodes fe),
    fe_sent = fe_sent fe @ vn_sendPacket (StartRequest (RequestStartStreamingSession u name port)) n\<rparr>"
  have r: "tryCreateSession junk u name fe = Some (CREATION_OK, addSession name a u, fe')"
    using created(11) by (simp add: fe'_def)
  have nodes: "\<exists>n'. (\<forall>b. getNode b (fe_nodes fe') = (if b = a then Some n' else getNode b (fe_nodes fe))) \<and>
      vn_slotTracker n' = um_set port True (vn_slotTracker n) \<and> vn_inv n' \<and> node_free n = Suc (node_free n') \<and>
      vn_con n' = vn_con n \<and> vn_address n' = a \<and> vn_publicAddress n' = vn_publicAddress n"
    using created(4-9) by (intro exI [of _ n']) (simp add: fe'_def)
  have effect: "session_created junk u name fe (addSession name a u) fe' a n port"
    unfolding session_created_def
    using created(2,3) nodes by (simp add: fe'_def open_info_created [OF created(10)])
  have "\<exists>a n. getNode a (fe_nodes fe) = Some n \<and> node_free n \<noteq> 0"
    using created(2,6) by (intro exI [of _ a] exI [of _ n]) simp
  then have "\<not> no_free_slot (fe_nodes fe)" unfolding no_free_slot_def by metis
  with created(1) have "(CREATION_OK = CREATION_FAIL_DUPLICATE_NAME) = (open_info (fe_tracker fe) (getUserName u) name \<noteq> None)"
    "(CREATION_OK = CREATION_FAIL_NO_AVAILABLE_NODES) =
       (open_info (fe_tracker fe) (getUserName u) name = None \<and> no_free_slot (fe_nodes fe))"
    by simp_all
  with effect r show ?thesis by blast
qed

theorem tryCreateSession_correct_witness:
  "\<exists>u' fe' a n port. tryCreateSession 0 ann ''a'' example_frontend = Some (CREATION_OK, u', fe') \<and>
     session_created 0 ann ''a'' example_frontend u' fe' a n port"
proof -
  have n: "nodes_ok (fe_nodes example_frontend)" using sessions_okD(1) [OF fe_reachable_ok [OF example_reachable]] .
  obtain u1 fe1 where r: "tryCreateSession 0 ann ''a'' example_frontend = Some (CREATION_OK, u1, fe1)"
    by (simp add: example_frontend_def frontend_eval)
  from tryCreateSession_correct [OF n, of 0 ann "''a''"] r show ?thesis by auto
qed

text \<open>
  Property C38. The limit of 20 attempts is not enforced: when the node that is chosen claims an
  available slot but its table has no free one, creating a session never returns, and the user
  lock it holds is never released.
\<close>

theorem tryCreateSession_may_not_return:
  assumes "findBestNode (fe_nodes fe) = Some a" and "getNode a (fe_nodes fe) = Some n"
    and "free_slots (vn_slotTracker n) = 0" and "open_info (fe_tracker fe) (getUserName u) name = None"
  shows "tryCreateSession junk u name fe = None"
proof -
  have "stuck (fe_nodes fe)" using assms(1-3) by (auto simp: stuck_def)
  then have "reserve_loop 0 (fe_nodes fe) = None" by (rule reserve_loop_stuck) (simp add: maxAttempts_def)
  then show ?thesis using assms(4) by (simp add: tryCreateSession_def getSessionInfo_eq)
qed

theorem tryCreateSession_may_not_return_witness:
  "tryCreateSession 0 ann ''a''
     (fe_initial\<lparr>fe_nodes := put_node ''10.0.0.5'' (setUsedSlots 0 (setTotalSlots 2 (VisualizationNode_new 0)))
        VisualizationNodeManager_new\<rparr> :: nat frontend) = None"
proof -
  let ?n = "setUsedSlots 0 (setTotalSlots 2 (VisualizationNode_new 0)) :: nat visualizationNode"
  let ?fe = "fe_initial\<lparr>fe_nodes := put_node ''10.0.0.5'' ?n VisualizationNodeManager_new\<rparr>"
  have "findBestNode (fe_nodes ?fe) = Some ''10.0.0.5''" and "getNode ''10.0.0.5'' (fe_nodes ?fe) = Some ?n"
    and "free_slots (vn_slotTracker ?n) = 0" and "open_info (fe_tracker ?fe) (getUserName ann) ''a'' = None"
    by (simp_all add: findBestNode_def find_node_def getNode_def put_node_def getAvailableStreamSlotsCount_def
        fe_initial_def VisualizationNodeManager_new_def example_node_simps um_set_def open_info_def tracked_def
        um_count_def)
  then show ?thesis by (rule tryCreateSession_may_not_return)
qed

section \<open>The life of a session\<close>

text \<open>
  What a step may do to the status of a session, \<open>None\<close> being a session that is not open: one that
  is not open starts with \<open>SESSION_CREATING\<close>, one that is open never returns to it.
\<close>

fun status_step :: "SessionStatus option \<Rightarrow> SessionStatus option \<Rightarrow> bool" where
  "status_step None s \<longleftrightarrow> s = None \<or> s = Some SESSION_CREATING"
| "status_step (Some r) s \<longleftrightarrow>
     s = Some r \<or> s \<in> {None, Some SESSION_RUNNING, Some SESSION_CLOSING, Some SESSION_CRASHED}"

definition open_status :: "'c frontend \<Rightarrow> string \<Rightarrow> string \<Rightarrow> SessionStatus option" where
  "open_status fe owner name = map_option si_status (open_info (fe_tracker fe) owner name)"

lemma status_step_refl [simp]: "status_step s s"
  by (cases s) simp_all

lemma status_step_fe_step:
  assumes "fe_step fe fe'" and "sessions_ok fe"
  shows "status_step (open_status fe owner n) (open_status fe' owner n)"
proof -
  note D = sessions_okD [OF assms(2)]
  from assms(1) show ?thesis
  proof (cases rule: fe_step.cases)
    case (create junk u name r u')
    from D(1) show ?thesis
    proof (cases rule: tryCreateSession_cases [where junk = junk and u = u and name = name])
      case (created a m port n' l)
      then have fe': "fe_tracker fe' = put_tracked (getUserName u)
          (um_set name (created_info junk u name a (vn_publicAddress m) port) l) (fe_tracker fe)"
        using create by simp
      show ?thesis
        using created(1) by (simp add: open_status_def fe' open_info_created [OF created(10)] created_info_def)
    qed (use create in simp_all)
  next
    case (started u name status)
    then show ?thesis by (cases "open_info (fe_tracker fe) owner n") (auto simp: open_status_def open_info_createSession)
  next
    case (close u name u')
    then show ?thesis
      using open_info_tryFinish [OF D(2) close, of owner n]
      by (cases "open_info (fe_tracker fe) owner n") (auto simp: open_status_def)
  next
    case (closed u name u' t)
    then show ?thesis
      using open_info_finish [OF D(2), of u name owner n]
      by (cases "open_info (fe_tracker fe) owner n") (auto simp: open_status_def)
  next
    case (announce a n')
    then show ?thesis by (simp add: open_status_def)
  qed
qed

lemma open_status_created: "fe_reachable fe \<Longrightarrow> open_status fe owner n = Some s \<Longrightarrow> SESSION_CREATING \<le> s"
proof (induction arbitrary: s rule: fe_reachable.induct)
  case init
  then show ?case by (simp add: fe_initial_def open_status_def open_info_def tracked_def)
next
  case (step fe fe')
  have "status_step (open_status fe owner n) (Some s)"
    using status_step_fe_step [OF step.hyps(2) fe_reachable_ok [OF step.hyps(1)], of owner n] step.prems by simp
  then show ?case
    using step.IH by (cases "open_status fe owner n") (auto simp: less_eq_SessionStatus_def)
qed

text \<open>
  Property C34. The life of a session at the front end, in every state it can reach: a session that is not open
  can only become one that is being created; an open one keeps its status or becomes running,
  closing, crashed or no longer open, and never has the status of an entry that was not filled.
\<close>

theorem session_lifecycle:
  assumes "fe_reachable fe" and "fe_step fe fe'"
  shows "status_step (open_status fe owner name) (open_status fe' owner name) \<and>
    (\<forall>s. open_status fe' owner name = Some s \<longrightarrow> SESSION_CREATING \<le> s)"
  using status_step_fe_step [OF assms(2) fe_reachable_ok [OF assms(1)]]
    open_status_created [OF fe_reachable.step [OF assms]] by blast

theorem session_lifecycle_witness:
  "open_status example_created ''ann'' ''a'' = Some SESSION_CREATING \<and>
   (\<exists>fe' s. fe_step example_created fe' \<and> open_status fe' ''ann'' ''a'' = Some s \<and> SESSION_CREATING < s)"
proof -
  let ?fe = "example_created\<lparr>fe_tracker := createSession ann ''a'' 0 (fe_tracker example_created)\<rparr>"
  have name: "getUserName ann = ''ann''" by (simp add: ann_def user_defs)
  have before: "open_status example_created ''ann'' ''a'' = Some SESSION_CREATING"
    by (simp add: open_status_def example_created_infos created_info_def)
  have step: "fe_step example_created ?fe" by (rule fe_step.started)
  have after: "open_status ?fe ''ann'' ''a'' = Some SESSION_RUNNING"
    by (simp add: open_status_def open_info_createSession example_created_infos name)
  from session_lifecycle [OF example_created_reachable step, of "''ann''" "''a''"] after
  have "SESSION_CREATING \<le> SESSION_RUNNING" by blast
  then have "SESSION_CREATING < SESSION_RUNNING" by (simp add: less_le)
  with before step after show ?thesis by blast
qed

end
