(* ===== verification/FrontPackets.thy ===== *)
theory FrontPackets
  imports PacketHandler SessionTracker
begin

text \<open>
  The packet classes of the front end: what it receives from the nodes
  (\<open>ReMoLON_FrontEnd/include/clientpackets\<close>, \<open>src/clientpackets\<close>) and what it sends them
  (\<open>include/serverpackets\<close>, \<open>src/serverpackets\<close>; the records of the latter are in
  \<open>SessionTracker\<close>).

  \<open>NodeInfo::readImpl\<close> changes the register of nodes while it reads, so its world is the
  register. The other two are read into their members and act on the users and the tracker.
\<close>

section \<open>Packets to the nodes\<close>

definition StartRequest_getOpcode :: byte where
  "StartRequest_getOpcode = 0x01"

definition StartRequest_writeImpl :: "startRequest \<Rightarrow> (bytebuffer option, unit) sx" where
  "StartRequest_writeImpl p =
     sx_seq (sp_writeString (sr_userName p))
       (sx_seq (sp_writeString (sr_userAddress p))
         (sx_seq (sp_writeString (sr_sessionName p)) (sp_writeInt (sr_port p))))"

definition CloseRequest_getOpcode :: byte where
  "CloseRequest_getOpcode = 0x02"

definition CloseRequest_writeImpl :: "closeRequest \<Rightarrow> (bytebuffer option, unit) sx" where
  "CloseRequest_writeImpl p =
     sx_seq (sp_writeString (cr_userName p)) (sp_writeString (cr_sessionName p))"

definition NodeInfoRequest_getOpcode :: byte where
  "NodeInfoRequest_getOpcode = 0x00"

definition NodeInfoRequest_writeImpl :: "(bytebuffer option, unit) sx" where
  "NodeInfoRequest_writeImpl = sx_return ()"

section \<open>Packets from the nodes\<close>

definition ClientNodeInfo_getOpcode :: byte where
  "ClientNodeInfo_getOpcode = 0x00"

text \<open>A member function of the node that was registered under the address \<open>a\<close>.\<close>

definition modify_node ::
  "string \<Rightarrow> ('c visualizationNode \<Rightarrow> 'c visualizationNode) \<Rightarrow>
   ('c visualizationNodeManager \<times> bytebuffer option, unit) sx" where
  "modify_node a f =
     sx_modify (\<lambda>(m, bo). ((case getNode a m of None \<Rightarrow> m | Some n \<Rightarrow> put_node a (f n) m), bo))"

text \<open>The loop over the announced slots; the result is the number of used ones.\<close>

fun read_slots ::
  "string \<Rightarrow> nat \<Rightarrow> 32 word \<Rightarrow> ('c visualizationNodeManager \<times> bytebuffer option, 32 word) sx" where
  "read_slots a 0 used = sx_return used"
| "read_slots a (Suc k) used =
     sx_bind rp_readInt (\<lambda>slotPort.
     sx_bind rp_readInt (\<lambda>flag.
     (let usedPort = 0 < sint flag
      in sx_seq (modify_node a (vn_addAvailablePort slotPort usedPort))
           (read_slots a k (if usedPort then used + 1 else used)))))"

definition ClientNodeInfo_readImpl ::
  "32 word \<Rightarrow> ('c \<Rightarrow> string) \<Rightarrow> 'c \<Rightarrow> ('c visualizationNodeManager \<times> bytebuffer option, unit) sx" where
  "ClientNodeInfo_readImpl junk clientAddress con =
     (let a = clientAddress con in
      sx_seq (sx_modify (\<lambda>(m, bo). (snd (registerOrGetNode junk clientAddress con m), bo)))
        (sx_bind rp_readString (\<lambda>publicAddr.
         sx_seq (modify_node a (vn_setPublicAddress publicAddr))
           (sx_bind rp_readInt (\<lambda>totalSlots.
            sx_seq (modify_node a (setTotalSlots totalSlots))
              (sx_bind (read_slots a (nat (sint totalSlots)) 0) (\<lambda>used.
               modify_node a (setUsedSlots used))))))))"

record clientStartResult =
  cs_userName :: string
  cs_sessionName :: string
  cs_creationStatus :: "32 word"

definition ClientStartResult_getOpcode :: byte where
  "ClientStartResult_getOpcode = 0x01"

definition ClientStartResult_readImpl :: "('w \<times> bytebuffer option, clientStartResult) sx" where
  "ClientStartResult_readImpl =
     sx_bind rp_readString (\<lambda>userName.
     sx_bind rp_readString (\<lambda>sessionName.
     sx_bind rp_readInt (\<lambda>creationStatus.
     sx_return \<lparr>cs_userName = userName, cs_sessionName = sessionName, cs_creationStatus = creationStatus\<rparr>)))"

definition ClientStartResult_execute ::
  "clientStartResult \<Rightarrow> userManager \<times> sessionTracker \<Rightarrow> userManager \<times> sessionTracker" where
  "ClientStartResult_execute p st =
     (case st of (users, t) \<Rightarrow>
        (case getUserByName (cs_userName p) users of
           None \<Rightarrow> (users, t)
         | Some (ip, usr) \<Rightarrow> (users, createSession usr (cs_sessionName p) (cs_creationStatus p) t)))"

record clientCloseResult =
  cc_user :: string
  cc_sessionName :: string
  cc_closeStatus :: "32 word"

definition ClientCloseResult_getOpcode :: byte where
  "ClientCloseResult_getOpcode = 0x02"

definition ClientCloseResult_readImpl :: "('w \<times> bytebuffer option, clientCloseResult) sx" where
  "ClientCloseResult_readImpl =
     sx_bind rp_readString (\<lambda>user.
     sx_bind rp_readString (\<lambda>sessionName.
     sx_bind rp_readInt (\<lambda>closeStatus.
     sx_return \<lparr>cc_user = user, cc_sessionName = sessionName, cc_closeStatus = closeStatus\<rparr>)))"

definition ClientCloseResult_execute ::
  "clientCloseResult \<Rightarrow> userManager \<times> sessionTracker \<Rightarrow> userManager \<times> sessionTracker" where
  "ClientCloseResult_execute p st =
     (case st of (users, t) \<Rightarrow>
        (case getUserByName (cc_user p) users of
           None \<Rightarrow> (users, t)
         | Some (ip, usr) \<Rightarrow>
             (case st_finishSession usr (cc_sessionName p) t of
                (usr', t') \<Rightarrow> (put_user ip usr' users, t'))))"

section \<open>Contents\<close>

lemma reads_as_seq:
  assumes "reads_as m bs out" and "\<And>x. reads_as (f x) cs (out' x)"
  shows "reads_as (sx_bind m f) (bs @ cs) (\<lambda>w. out' (fst (out w)) (snd (out w)))"
  unfolding reads_as_def
proof (intro allI impI, elim conjE)
  fix w :: 'a and b rest assume ok: "bb_ok b" and u: "bb_unread b = (bs @ cs) @ rest"
  have "m (w, Some b) = (Inr (fst (out w)), (snd (out w), Some (bb_skip (length bs) b)))"
    using assms(1) ok u by (simp add: reads_as_def)
  moreover have "bb_ok (bb_skip (length bs) b)" using ok u by (simp add: bb_ok_skip)
  moreover have "bb_unread (bb_skip (length bs) b) = cs @ rest" using u by (simp add: bb_unread_skip)
  ultimately show "sx_bind m f (w, Some b) =
      (Inr (fst (out' (fst (out w)) (snd (out w)))),
       (snd (out' (fst (out w)) (snd (out w))), Some (bb_skip (length (bs @ cs)) b)))"
    using assms(2) [of "fst (out w)"] by (simp add: reads_as_def sx_bind_Inr)
qed

lemma reads_as_modify:
  "(\<And>w b. g (w, Some b) = (f w, Some b)) \<Longrightarrow> reads_as (sx_modify g) [] (\<lambda>w. ((), f w))"
  by (simp add: reads_as_def sx_modify_def bb_skip_def)

definition upd_node ::
  "string \<Rightarrow> ('c visualizationNode \<Rightarrow> 'c visualizationNode) \<Rightarrow> 'c visualizationNodeManager \<Rightarrow> 'c visualizationNodeManager" where
  "upd_node a f m = (case getNode a m of None \<Rightarrow> m | Some n \<Rightarrow> put_node a (f n) m)"

lemma reads_as_modify_node: "reads_as (modify_node a f) [] (\<lambda>m. ((), upd_node a f m))"
  unfolding modify_node_def by (rule reads_as_modify) (simp add: upd_node_def)

lemma reads_as_then:
  assumes "reads_as m [] (\<lambda>w. ((), g w))" and "reads_as m' cs out"
  shows "reads_as (sx_seq m m') cs (\<lambda>w. out (g w))"
  using reads_as_seq [OF assms(1), of "\<lambda>_. m'" cs "\<lambda>_. out"] assms(2) by (simp add: sx_seq_def)

text \<open>The announced slots as they stand in the packet.\<close>

definition slot_bytes :: "(32 word, bool) umap \<Rightarrow> byte list" where
  "slot_bytes l = concat (map (\<lambda>(port, used). object_bytes 4 port @ object_bytes 4 (if used then 1 else 0 :: 32 word)) l)"

lemma slot_bytes_simps [simp]:
  "slot_bytes [] = []"
  "slot_bytes ((port, used) # l) = object_bytes 4 port @ object_bytes 4 (if used then 1 else 0 :: 32 word) @ slot_bytes l"
  by (simp_all add: slot_bytes_def)

lemma length_slot_bytes [simp]: "length (slot_bytes l) = 8 * length l"
  by (induction l) (auto simp: object_bytes_def)

definition add_slots :: "(32 word, bool) umap \<Rightarrow> 'c visualizationNode \<Rightarrow> 'c visualizationNode" where
  "add_slots l n = fold (\<lambda>(port, used). vn_addAvailablePort port used) l n"

lemma add_slots_simps [simp]:
  "add_slots [] n = n"
  "add_slots ((port, used) # l) n = add_slots l (vn_addAvailablePort port used n)"
  by (simp_all add: add_slots_def)

lemma put_node_twice [simp]: "put_node a n (put_node a n' m) = put_node a n m"
proof -
  have "um_set a n (um_set a n' l) = um_set a n l" for l :: "(string, 'a visualizationNode) umap"
    by (induction l) (auto simp: um_set_def um_find_replace split: if_splits prod.splits)
  then show ?thesis by (simp add: put_node_def)
qed

lemma upd_node_put [simp]: "upd_node a f (put_node a n m) = put_node a (f n) m"
  by (simp add: upd_node_def)

lemma upd_node_upd: "upd_node a f (upd_node a g m) = upd_node a (f \<circ> g) m"
  by (auto simp: upd_node_def split: option.splits)

lemma upd_node_id: "upd_node a (\<lambda>n. n) m = m"
  by (auto simp: upd_node_def put_node_same split: option.splits)

lemma read_slots_reads:
  "reads_as (read_slots a (length l) used) (slot_bytes l)
     (\<lambda>m :: 'c visualizationNodeManager. (used + word_of_nat (um_count id l), upd_node a (add_slots l) m))"
proof (induction l arbitrary: used)
  case Nil
  have "upd_node a (add_slots []) = (\<lambda>m :: 'c visualizationNodeManager. m)"
    by (simp add: fun_eq_iff upd_node_def put_node_same split: option.split)
  then show ?case
    using reads_bytes_as [OF reads_bytes_return, of used] by (simp add: um_count_def del: add_slots_simps)
next
  case (Cons pu l)
  obtain port u where pu: "pu = (port, u)" by (cases pu)
  have flag: "(0 < sint (if u then 1 else 0 :: 32 word)) = u" by simp
  let ?used = "if u then used + 1 else used"
  have tail: "reads_as (sx_seq (modify_node a (vn_addAvailablePort port u)) (read_slots a (length l) ?used)) (slot_bytes l)
     (\<lambda>m :: 'c visualizationNodeManager. (?used + word_of_nat (um_count id l), upd_node a (add_slots l) (upd_node a (vn_addAvailablePort port u) m)))"
    using reads_as_then [OF reads_as_modify_node [of a "vn_addAvailablePort port u"] Cons.IH [of ?used]] .
  have "reads_as (read_slots a (length (pu # l)) used) (slot_bytes (pu # l))
     (\<lambda>m :: 'c visualizationNodeManager. (?used + word_of_nat (um_count id l), upd_node a (add_slots l) (upd_node a (vn_addAvailablePort port u) m)))"
    unfolding pu list.size slot_bytes_simps add_Suc_right add_0_right read_slots.simps
    by (rule reads_as_bind [OF reads_int], rule reads_as_bind [OF reads_int]) (use tail in \<open>simp only: flag Let_def\<close>)
  moreover have "?used + word_of_nat (um_count id l) = used + word_of_nat (um_count id (pu # l))"
    by (simp add: pu um_count_def)
  moreover have "(add_slots l \<circ> vn_addAvailablePort port u :: 'c visualizationNode \<Rightarrow> _) = add_slots (pu # l)"
    by (simp add: pu fun_eq_iff)
  ultimately show ?case by (simp only: upd_node_upd)
qed

section \<open>What an announcement does\<close>

text \<open>
  A node whose announcement is read: its connection, its public address, the number of slots,
  the slots, and the number of used ones.
\<close>

definition announced ::
  "('c \<Rightarrow> string) \<Rightarrow> 'c \<Rightarrow> string \<Rightarrow> (32 word, bool) umap \<Rightarrow> 'c visualizationNode \<Rightarrow> 'c visualizationNode" where
  "announced clientAddress con publicAddr l n =
     setUsedSlots (word_of_nat (um_count id l))
       (add_slots l (setTotalSlots (word_of_nat (length l))
         (vn_setPublicAddress publicAddr (vn_setConnection clientAddress (Some con) n))))"

definition announce ::
  "32 word \<Rightarrow> ('c \<Rightarrow> string) \<Rightarrow> 'c \<Rightarrow> string \<Rightarrow> (32 word, bool) umap \<Rightarrow>
   'c visualizationNodeManager \<Rightarrow> 'c visualizationNodeManager" where
  "announce junk clientAddress con publicAddr l m =
     put_node (clientAddress con)
       (announced clientAddress con publicAddr l
          (case getNode (clientAddress con) m of None \<Rightarrow> VisualizationNode_new junk | Some n \<Rightarrow> n)) m"

definition announcement :: "string \<Rightarrow> (32 word, bool) umap \<Rightarrow> byte list" where
  "announcement publicAddr l = string_bytes publicAddr @ object_bytes 4 (word_of_nat (length l) :: 32 word) @ slot_bytes l"

lemma sint_of_length: "k < 2 ^ 31 \<Longrightarrow> nat (sint (word_of_nat k :: 32 word)) = k"
  by (simp add: signed_of_nat signed_take_bit_int_eq_self)

lemma ClientNodeInfo_reads:
  assumes "length publicAddr < 65536" and "length l < 2 ^ 31"
  shows "reads_as (ClientNodeInfo_readImpl junk clientAddress con) (announcement publicAddr l)
    (\<lambda>m. ((), announce junk clientAddress con publicAddr l m))"
proof -
  let ?a = "clientAddress con"
  have slots: "reads_as (sx_bind (read_slots ?a (length l) 0) (\<lambda>used. modify_node ?a (setUsedSlots used))) (slot_bytes l @ [])
      (\<lambda>m. ((), upd_node ?a (setUsedSlots (0 + word_of_nat (um_count id l))) (upd_node ?a (add_slots l) m)))"
    using reads_as_seq [OF read_slots_reads reads_as_modify_node, of ?a l 0 "\<lambda>_. ?a" setUsedSlots] by simp
  have k: "nat (sint (word_of_nat (length l) :: 32 word)) = length l" by (rule sint_of_length [OF assms(2)])
  have reg: "reads_as (sx_modify (\<lambda>(m, bo). (snd (registerOrGetNode junk clientAddress con m), bo))) []
      (\<lambda>m. ((), snd (registerOrGetNode junk clientAddress con m)))"
    by (rule reads_as_modify) simp
  have "reads_as (ClientNodeInfo_readImpl junk clientAddress con)
      (string_bytes publicAddr @ object_bytes 4 (word_of_nat (length l) :: 32 word) @ slot_bytes l @ [])
      (\<lambda>m. (\<lambda>m. (\<lambda>m. ((), upd_node ?a (setUsedSlots (0 + word_of_nat (um_count id l))) (upd_node ?a (add_slots l) m)))
          (upd_node ?a (setTotalSlots (word_of_nat (length l))) (upd_node ?a (vn_setPublicAddress publicAddr) m)))
        (snd (registerOrGetNode junk clientAddress con m)))"
    unfolding ClientNodeInfo_readImpl_def Let_def
  proof (rule reads_as_then [OF reg])
    show "reads_as
     (sx_bind rp_readString (\<lambda>publicAddr. sx_seq (modify_node ?a (vn_setPublicAddress publicAddr))
        (sx_bind rp_readInt (\<lambda>totalSlots. sx_seq (modify_node ?a (setTotalSlots totalSlots))
          (sx_bind (read_slots ?a (nat (sint totalSlots)) 0) (\<lambda>used. modify_node ?a (setUsedSlots used)))))))
     (string_bytes publicAddr @ object_bytes 4 (word_of_nat (length l) :: 32 word) @ slot_bytes l @ [])
     (\<lambda>m. (\<lambda>m. ((), upd_node ?a (setUsedSlots (0 + word_of_nat (um_count id l))) (upd_node ?a (add_slots l) m)))
          (upd_node ?a (setTotalSlots (word_of_nat (length l))) (upd_node ?a (vn_setPublicAddress publicAddr) m)))"
      by (rule reads_as_bind [OF reads_string [OF assms(1)]], rule reads_as_then [OF reads_as_modify_node],
          rule reads_as_bind [OF reads_int], rule reads_as_then [OF reads_as_modify_node])
        (simp only: k slots)
  qed
  moreover have "snd (registerOrGetNode junk clientAddress con m) = put_node ?a (vn_setConnection clientAddress (Some con)
      (case getNode ?a m of None \<Rightarrow> VisualizationNode_new junk | Some n \<Rightarrow> n)) m" for m
    by (simp add: registerOrGetNode_def Let_def)
  ultimately show ?thesis by (simp add: announcement_def announce_def announced_def)
qed

lemma ClientStartResult_reads:
  assumes "length (cs_userName p) < 65536" and "length (cs_sessionName p) < 65536"
  shows "reads_bytes ClientStartResult_readImpl
    (string_bytes (cs_userName p) @ string_bytes (cs_sessionName p) @ object_bytes 4 (cs_creationStatus p)) p"
  using assms unfolding ClientStartResult_readImpl_def
  by (intro reads_bytes_bind [OF reads_string] reads_bytes_last [OF reads_int]) simp_all

lemma ClientCloseResult_reads:
  assumes "length (cc_user p) < 65536" and "length (cc_sessionName p) < 65536"
  shows "reads_bytes ClientCloseResult_readImpl
    (string_bytes (cc_user p) @ string_bytes (cc_sessionName p) @ object_bytes 4 (cc_closeStatus p)) p"
  using assms unfolding ClientCloseResult_readImpl_def
  by (intro reads_bytes_bind [OF reads_string] reads_bytes_last [OF reads_int]) simp_all

lemma StartRequest_content:
  "writes_bytes (StartRequest_writeImpl p)
     (string_bytes (sr_userName p) @ string_bytes (sr_userAddress p) @ string_bytes (sr_sessionName p) @
      object_bytes 4 (sr_port p))"
  unfolding StartRequest_writeImpl_def by (intro content_intros)

lemma CloseRequest_content:
  "writes_bytes (CloseRequest_writeImpl p) (string_bytes (cr_userName p) @ string_bytes (cr_sessionName p))"
  unfolding CloseRequest_writeImpl_def by (intro content_intros)

lemma add_slots_fields [simp]:
  "vn_con (add_slots l n) = vn_con n" "vn_address (add_slots l n) = vn_address n"
  "vn_publicAddress (add_slots l n) = vn_publicAddress n" "vn_totalSlots (add_slots l n) = vn_totalSlots n"
  "vn_usedSlots (add_slots l n) = vn_usedSlots n"
  by (induction l arbitrary: n) (auto simp: vn_addAvailablePort_def)

lemma um_find_add_slots:
  "um_wf l \<Longrightarrow> um_find (vn_slotTracker (add_slots l n)) p =
     (case um_find l p of Some u \<Rightarrow> Some u | None \<Rightarrow> um_find (vn_slotTracker n) p)"
proof (induction l arbitrary: n)
  case (Cons a l)
  obtain q v where a: "a = (q, v)" by (cases a)
  have "um_wf l" and "um_find l q = None"
    using Cons.prems by (simp_all add: a um_wf_Cons um_find_None_iff um_keys_def)
  with Cons.IH [OF this(1), of "vn_addAvailablePort q v n"] show ?case
    by (auto simp: a vn_addAvailablePort_def um_find_set split: option.splits)
qed simp

lemma sx_bind_return: "sx_bind (sx_return x) f = f x"
  by (simp add: sx_bind_def sx_return_def fun_eq_iff)

lemma add_slots_fresh:
  "um_wf l \<Longrightarrow> um_keys l \<inter> um_keys (vn_slotTracker n) = {} \<Longrightarrow>
   vn_slotTracker (add_slots l n) = rev l @ vn_slotTracker n"
proof (induction l arbitrary: n)
  case (Cons a l)
  obtain p u where a: "a = (p, u)" by (cases a)
  have "um_find (vn_slotTracker n) p = None" using Cons.prems(2) by (auto simp: a um_find_None_iff um_keys_def)
  then have t: "vn_slotTracker (vn_addAvailablePort p u n) = (p, u) # vn_slotTracker n"
    by (simp add: vn_addAvailablePort_def um_set_def)
  have "um_keys l \<inter> um_keys (vn_slotTracker (vn_addAvailablePort p u n)) = {}"
    using Cons.prems by (auto simp: t a um_keys_def um_wf_Cons)
  then show ?case using Cons.IH [of "vn_addAvailablePort p u n"] Cons.prems(1) by (simp add: a um_wf_Cons t)
qed simp

lemma um_find_rev: "um_wf l \<Longrightarrow> um_find (rev l) p = um_find l p"
proof -
  assume wf: "um_wf l"
  then have wf': "um_wf (rev l)" by (simp add: um_wf_def rev_map [symmetric])
  show ?thesis
  proof (cases "um_find l p")
    case None
    then have "um_find (rev l) p = None" by (simp add: um_find_None_iff)
    with None show ?thesis by simp
  next
    case (Some v)
    then show ?thesis using um_find_iff [OF wf, of p v] um_find_iff [OF wf', of p v] by simp
  qed
qed

lemma announced_fresh:
  fixes clientAddress :: "'c \<Rightarrow> string"
  assumes "um_wf l" and "length l < 2 ^ 31"
  shows "vn_slotTracker (announced clientAddress con publicAddr l (VisualizationNode_new junk)) = rev l"
    and "vn_address (announced clientAddress con publicAddr l (VisualizationNode_new junk)) = clientAddress con"
    and "vn_con (announced clientAddress con publicAddr l (VisualizationNode_new junk)) = Some con"
    and "vn_publicAddress (announced clientAddress con publicAddr l (VisualizationNode_new junk)) = publicAddr"
    and "vn_inv (announced clientAddress con publicAddr l (VisualizationNode_new junk))"
proof -
  let ?start = "setTotalSlots (word_of_nat (length l)) (vn_setPublicAddress publicAddr
          (vn_setConnection clientAddress (Some con) (VisualizationNode_new junk)))"
  let ?n = "announced clientAddress con publicAddr l (VisualizationNode_new junk)"
  have e: "vn_slotTracker ?start = []"
    by (simp add: setTotalSlots_def vn_setPublicAddress_def vn_setConnection_def VisualizationNode_new_def)
  show t: "vn_slotTracker ?n = rev l"
    using add_slots_fresh [OF assms(1), of ?start] by (simp add: announced_def setUsedSlots_def e um_keys_def)
  have f: "vn_totalSlots ?n = word_of_nat (length l)" "vn_usedSlots ?n = word_of_nat (um_count id l)"
    by (simp_all add: announced_def setUsedSlots_def setTotalSlots_def)
  show "vn_address ?n = clientAddress con" "vn_con ?n = Some con" "vn_publicAddress ?n = publicAddr"
    by (simp_all add: announced_def setUsedSlots_def setTotalSlots_def vn_setPublicAddress_def vn_setConnection_def)
  have "um_wf (rev l)" using assms(1) by (simp add: um_wf_def rev_map [symmetric])
  moreover have "um_count id (rev l) = um_count id l" by (simp add: um_count_def rev_filter [symmetric])
  moreover have "length l < 2 ^ 32" using assms(2) by (rule less_trans) simp
  ultimately show "vn_inv ?n" by (simp only: vn_inv_def t f length_rev)
qed

section \<open>Properties\<close>

text \<open>
  The first announcement of a node, received as a packet, registers the node under
  the address of its connection with exactly the announced slots, and with counters that agree
  with them, so that reservations on it are exact; other nodes are not touched.
\<close>

theorem announcement_registers_node:
  assumes "bb_ok b" and "bb_unread b = announcement publicAddr l @ rest" and "length publicAddr < 65536"
    and "um_wf l" and "length l < 2 ^ 31" and "getNode (clientAddress con) m = None"
  shows "\<exists>m' n. ClientNodeInfo_readImpl junk clientAddress con (m, Some b) =
      (Inr (), (m', Some (bb_skip (length (announcement publicAddr l)) b))) \<and>
    getNode (clientAddress con) m' = Some n \<and> vn_inv n \<and> vn_address n = clientAddress con \<and>
    vn_con n = Some con \<and> vn_publicAddress n = publicAddr \<and>
    (\<forall>p. um_find (vn_slotTracker n) p = um_find l p) \<and>
    (\<forall>a. a \<noteq> clientAddress con \<longrightarrow> getNode a m' = getNode a m)"
proof (intro exI conjI allI impI)
  let ?n = "announced clientAddress con publicAddr l (VisualizationNode_new junk)"
  show "ClientNodeInfo_readImpl junk clientAddress con (m, Some b) =
      (Inr (), (put_node (clientAddress con) ?n m, Some (bb_skip (length (announcement publicAddr l)) b)))"
    using ClientNodeInfo_reads [OF assms(3,5), of junk clientAddress con] assms(1,2)
    unfolding reads_as_def by (simp only: announce_def assms(6) option.case) auto
  show "getNode (clientAddress con) (put_node (clientAddress con) ?n m) = Some ?n" by simp
  show "vn_inv ?n" "vn_address ?n = clientAddress con" "vn_con ?n = Some con" "vn_publicAddress ?n = publicAddr"
    by (rule announced_fresh(5,2,3,4) [OF assms(4,5)])+
  show "um_find (vn_slotTracker ?n) p = um_find l p" for p
    by (simp only: announced_fresh(1) [OF assms(4,5)] um_find_rev [OF assms(4)])
  show "getNode a (put_node (clientAddress con) ?n m) = getNode a m" if "a \<noteq> clientAddress con" for a
    using that by simp
qed

definition example_packet :: bytebuffer where
  "example_packet = bb_append (announcement ''n'' [(8001, False), (8002, True)]) (ByteBuffer_sized (\<lambda>_. 0) 64)"

lemma example_packet_ok:
  "bb_ok example_packet" "bb_unread example_packet = announcement ''n'' [(8001, False), (8002, True)] @ []"
proof -
  have room: "bb_room (length (announcement ''n'' [(8001, False), (8002, True)])) (ByteBuffer_sized (\<lambda>_. 0) 64)"
    by (simp add: bb_room_def ByteBuffer_sized_ok announcement_def string_bytes_def object_bytes_def)
  show "bb_ok example_packet" unfolding example_packet_def
    using room by (intro bb_ok_append) (simp_all add: ByteBuffer_sized_ok)
  show "bb_unread example_packet = announcement ''n'' [(8001, False), (8002, True)] @ []"
    unfolding example_packet_def using bb_unread_append [OF _ room] by (simp add: ByteBuffer_sized_ok)
qed

theorem announcement_registers_node_witness:
  "\<exists>m' n. ClientNodeInfo_readImpl 0 (\<lambda>_. ''10.0.0.5'') (7 :: nat) (VisualizationNodeManager_new, Some example_packet) =
      (Inr (), (m', Some (bb_skip (length (announcement ''n'' [(8001, False), (8002, True)])) example_packet))) \<and>
    getNode ''10.0.0.5'' m' = Some n \<and> vn_inv n \<and> um_find (vn_slotTracker n) 8002 = Some True"
  using announcement_registers_node [OF example_packet_ok, of "\<lambda>_. ''10.0.0.5''" "7 :: nat" VisualizationNodeManager_new 0]
  by (fastforce simp: um_wf_def getNode_def VisualizationNodeManager_new_def)

text \<open>
  A node announces the ports its own table has in use. When it announces itself
  again, a slot that the front end has reserved and the node has not started yet is marked free
  again, so the same port can be reserved twice.
\<close>

theorem reannouncement_forgets_reservation:
  assumes "getNode (clientAddress con) m = Some n" and "tryReserveSlot n = (Some port, n')"
    and "um_wf l" and "um_find l port = Some False"
  shows "\<not> slot_taken (announce junk clientAddress con publicAddr l (put_node (clientAddress con) n' m))
      (clientAddress con) port"
  using assms by (simp add: slot_taken_def announce_def announced_def setUsedSlots_def um_find_add_slots)

theorem reannouncement_forgets_reservation_witness:
  "\<not> slot_taken (announce 0 (\<lambda>_. ''10.0.0.5'') (7 :: nat) ''n'' [(8001, False), (8002, True)]
       (put_node ''10.0.0.5'' (snd (tryReserveSlot example_node))
         (put_node ''10.0.0.5'' example_node VisualizationNodeManager_new))) ''10.0.0.5'' 8001"
proof -
  have t: "tryReserveSlot example_node = (Some 8001, snd (tryReserveSlot example_node))"
    by (simp add: tryReserveSlot_def getAvailableStreamSlotsCount_def example_node_simps um_set_def)
  show ?thesis
    using reannouncement_forgets_reservation [OF _ t, of "\<lambda>_. ''10.0.0.5''" "7 :: nat"
        "put_node ''10.0.0.5'' example_node VisualizationNodeManager_new" "[(8001, False), (8002, True)]" 0 "''n''"]
    by (simp add: um_wf_def)
qed

text \<open>
  The slot count of an announcement is not checked: a first announcement with a
  negative count is read without an error, and from then on, with no other node registered, no
  request to create a new session ever returns.
\<close>

theorem negative_slot_count_hangs:
  assumes "bb_ok b" and "bb_unread b = string_bytes publicAddr @ object_bytes 4 (slots :: 32 word) @ rest"
    and "length publicAddr < 65536" and "sint slots < 0" and "vm_nodeList m = []"
    and "open_info (fe_tracker fe) (getUserName u) name = None"
  shows "\<exists>m' b'. ClientNodeInfo_readImpl junk clientAddress con (m, Some b) = (Inr (), (m', Some b')) \<and>
    tryCreateSession junk' u name (fe\<lparr>fe_nodes := m'\<rparr>) = None"
proof -
  let ?a = "clientAddress con"
  let ?start = "vn_setConnection clientAddress (Some con) (VisualizationNode_new junk)"
  let ?n = "setUsedSlots 0 (setTotalSlots slots (vn_setPublicAddress publicAddr ?start))"
  have reg: "reads_as (sx_modify (\<lambda>(m, bo). (snd (registerOrGetNode junk clientAddress con m), bo))) []
      (\<lambda>m. ((), snd (registerOrGetNode junk clientAddress con m)))"
    by (rule reads_as_modify) simp
  have k: "nat (sint slots) = 0" using assms(4) by simp
  have "reads_as (ClientNodeInfo_readImpl junk clientAddress con) (string_bytes publicAddr @ object_bytes 4 slots @ [])
      (\<lambda>m. (\<lambda>m. (\<lambda>m. ((), upd_node ?a (setUsedSlots 0) m))
          (upd_node ?a (setTotalSlots slots) (upd_node ?a (vn_setPublicAddress publicAddr) m)))
        (snd (registerOrGetNode junk clientAddress con m)))"
    unfolding ClientNodeInfo_readImpl_def Let_def
  proof (rule reads_as_then [OF reg])
    show "reads_as
     (sx_bind rp_readString (\<lambda>publicAddr. sx_seq (modify_node ?a (vn_setPublicAddress publicAddr))
        (sx_bind rp_readInt (\<lambda>totalSlots. sx_seq (modify_node ?a (setTotalSlots totalSlots))
          (sx_bind (read_slots ?a (nat (sint totalSlots)) 0) (\<lambda>used. modify_node ?a (setUsedSlots used)))))))
     (string_bytes publicAddr @ object_bytes 4 slots @ [])
     (\<lambda>m. (\<lambda>m. ((), upd_node ?a (setUsedSlots 0) m))
          (upd_node ?a (setTotalSlots slots) (upd_node ?a (vn_setPublicAddress publicAddr) m)))"
      by (rule reads_as_bind [OF reads_string [OF assms(3)]], rule reads_as_then [OF reads_as_modify_node],
          rule reads_as_bind [OF reads_int], rule reads_as_then [OF reads_as_modify_node])
        (simp only: k read_slots.simps sx_bind_return reads_as_modify_node)
  qed
  then have r: "ClientNodeInfo_readImpl junk clientAddress con (m, Some b) =
      (Inr (), (put_node ?a ?n m, Some (bb_skip (length (string_bytes publicAddr @ object_bytes 4 slots)) b)))"
    using assms(1,2,5) by (simp add: reads_as_def registerOrGetNode_def Let_def getNode_def)
  have av: "getAvailableStreamSlotsCount ?n = slots" and tr: "vn_slotTracker ?n = []"
    by (simp_all add: getAvailableStreamSlotsCount_def setUsedSlots_def setTotalSlots_def vn_setPublicAddress_def
        vn_setConnection_def VisualizationNode_new_def)
  have l: "vm_nodeList (put_node ?a ?n m) = [(?a, ?n)]" using assms(5) by (simp add: put_node_def um_set_def)
  have "slots > 0" using assms(4) by (auto simp: word_neq_0_conv [symmetric])
  then have "findBestNode (put_node ?a ?n m) = Some ?a"
    unfolding findBestNode_def findBest_def find_node_def l by (simp add: av)
  then have "stuck (put_node ?a ?n m)" unfolding stuck_def by (intro exI conjI, assumption, simp, simp only: tr, simp)
  then have "reserve_loop 0 (put_node ?a ?n m) = None" by (rule reserve_loop_stuck) (simp add: maxAttempts_def)
  then have "tryCreateSession junk' u name (fe\<lparr>fe_nodes := put_node ?a ?n m\<rparr>) = None"
    using assms(6) by (simp add: tryCreateSession_def getSessionInfo_eq)
  with r show ?thesis by blast
qed

theorem negative_slot_count_hangs_witness:
  "\<exists>m' b'. ClientNodeInfo_readImpl 0 (\<lambda>_. ''10.0.0.5'') (7 :: nat) (VisualizationNodeManager_new,
       Some (bb_append (string_bytes ''n'' @ object_bytes 4 (- 1 :: 32 word)) (ByteBuffer_sized (\<lambda>_. 0) 64))) =
      (Inr (), (m', Some b')) \<and>
    tryCreateSession 0 ann ''a'' (fe_initial\<lparr>fe_nodes := m'\<rparr>) = None"
proof -
  let ?p = "string_bytes ''n'' @ object_bytes 4 (- 1 :: 32 word)"
  have room: "bb_room (length ?p) (ByteBuffer_sized (\<lambda>_. 0) 64)"
    by (simp add: bb_room_def ByteBuffer_sized_ok string_bytes_def object_bytes_def)
  have ok: "bb_ok (bb_append ?p (ByteBuffer_sized (\<lambda>_. 0) 64))"
    using room by (intro bb_ok_append) (simp_all add: ByteBuffer_sized_ok)
  have u: "bb_unread (bb_append ?p (ByteBuffer_sized (\<lambda>_. 0) 64)) =
      string_bytes ''n'' @ object_bytes 4 (- 1 :: 32 word) @ []"
    using bb_unread_append [OF _ room] by (simp add: ByteBuffer_sized_ok)
  show ?thesis
    by (rule negative_slot_count_hangs [OF ok u])
      (simp_all add: VisualizationNodeManager_new_def fe_initial_def open_info_def tracked_def)
qed

end
