(* ===== verification/Protocol.thy ===== *)
theory Protocol
  imports NodePackets FrontPackets
begin

text \<open>
  The protocol between the front end and the nodes: which packet classes each side registers
  (\<open>SessionManagerServer::start\<close>, \<open>Node::initialize\<close>), and that the class one side writes is
  the class the other side reads. Every pair of packet classes is an interpretation of
  \<open>frame_protocol\<close>.
\<close>

section \<open>The handlers of the two daemons\<close>

datatype front_kind = K_NodeInfo | K_StartResult | K_CloseResult

datatype front_received =
    R_NodeInfo
  | R_StartResult clientStartResult
  | R_CloseResult clientCloseResult

definition front_readImpl ::
  "32 word \<Rightarrow> ('c \<Rightarrow> string) \<Rightarrow> 'c \<Rightarrow> front_kind \<Rightarrow>
   ('c visualizationNodeManager \<times> bytebuffer option, front_received) sx" where
  "front_readImpl junk clientAddress con kind =
     (case kind of
        K_NodeInfo \<Rightarrow> sx_bind (ClientNodeInfo_readImpl junk clientAddress con) (\<lambda>_. sx_return R_NodeInfo)
      | K_StartResult \<Rightarrow> sx_bind ClientStartResult_readImpl (\<lambda>p. sx_return (R_StartResult p))
      | K_CloseResult \<Rightarrow> sx_bind ClientCloseResult_readImpl (\<lambda>p. sx_return (R_CloseResult p)))"

definition front_handler :: "front_kind packetHandler" where
  "front_handler =
     snd (sx_seq (registerPacketFactory True ClientNodeInfo_getOpcode K_NodeInfo)
           (sx_seq (registerPacketFactory True ClientStartResult_getOpcode K_StartResult)
             (registerPacketFactory True ClientCloseResult_getOpcode K_CloseResult)) PacketHandler_new)"

datatype node_kind = K_RequestNodeInfo | K_RequestStart | K_RequestClose

datatype node_received =
    R_RequestNodeInfo
  | R_RequestStart requestStartStreamingSession
  | R_RequestClose requestCloseUserSession

definition node_readImpl :: "node_kind \<Rightarrow> ('w \<times> bytebuffer option, node_received) sx" where
  "node_readImpl kind =
     (case kind of
        K_RequestNodeInfo \<Rightarrow> sx_bind RequestNodeInfo_readImpl (\<lambda>_. sx_return R_RequestNodeInfo)
      | K_RequestStart \<Rightarrow> sx_bind RequestStartStreamingSession_readImpl (\<lambda>p. sx_return (R_RequestStart p))
      | K_RequestClose \<Rightarrow> sx_bind RequestCloseUserSession_readImpl (\<lambda>p. sx_return (R_RequestClose p)))"

definition node_handler :: "node_kind packetHandler" where
  "node_handler =
     snd (sx_seq (registerPacketFactory True RequestNodeInfo_getOpcode K_RequestNodeInfo)
           (sx_seq (registerPacketFactory True RequestStartStreamingSession_getOpcode K_RequestStart)
             (registerPacketFactory True RequestCloseUserSession_getOpcode K_RequestClose)) PacketHandler_new)"

text \<open>The inner server of a node, for the streaming processes.\<close>

datatype process_kind = K_SessionInfo | K_AllowAddressAnswer

definition process_handler :: "process_kind packetHandler" where
  "process_handler =
     snd (sx_seq (registerPacketFactory True SessionInfo_getOpcode K_SessionInfo)
           (registerPacketFactory True AllowAddressAnswer_getOpcode K_AllowAddressAnswer) PacketHandler_new)"

text \<open>What a node does with a received packet, by the virtual \<open>executePacketAction\<close>.\<close>

definition node_execute :: "bool \<Rightarrow> 32 word \<Rightarrow> node_received \<Rightarrow> ('c node, unit) sx" where
  "node_execute threadCreated junk p =
     (case p of
        R_RequestNodeInfo \<Rightarrow> sx_modify RequestNodeInfo_execute
      | R_RequestStart q \<Rightarrow> sx_modify (RequestStartStreamingSession_execute threadCreated junk q)
      | R_RequestClose q \<Rightarrow> RequestCloseUserSession_execute q)"

text \<open>And what the front end does; \<open>NodeInfo\<close> has an empty action.\<close>

definition front_execute ::
  "front_received \<Rightarrow> userManager \<times> sessionTracker \<Rightarrow> userManager \<times> sessionTracker" where
  "front_execute p st =
     (case p of
        R_NodeInfo \<Rightarrow> st
      | R_StartResult q \<Rightarrow> ClientStartResult_execute q st
      | R_CloseResult q \<Rightarrow> ClientCloseResult_execute q st)"

text \<open>The frames of the packets a node sends to the front end.\<close>

definition node_writePacket :: "'c sessionManager \<Rightarrow> front_packet \<Rightarrow> (bytebuffer option, unit) sx" where
  "node_writePacket sm p =
     (case p of
        StartResult q \<Rightarrow> writePacket StartStreamingSessionResult_getOpcode (StartStreamingSessionResult_writeImpl q)
      | CloseResult q \<Rightarrow> writePacket CloseSessionResult_getOpcode (CloseSessionResult_writeImpl q)
      | NodeInfo \<Rightarrow> writePacket NodeInfo_getOpcode (NodeInfo_writeImpl sm))"

lemmas opcode_defs = ClientNodeInfo_getOpcode_def ClientStartResult_getOpcode_def ClientCloseResult_getOpcode_def
  RequestNodeInfo_getOpcode_def RequestStartStreamingSession_getOpcode_def RequestCloseUserSession_getOpcode_def
  StartRequest_getOpcode_def CloseRequest_getOpcode_def NodeInfoRequest_getOpcode_def
  NodeInfo_getOpcode_def StartStreamingSessionResult_getOpcode_def CloseSessionResult_getOpcode_def
  SessionInfo_getOpcode_def AllowAddressAnswer_getOpcode_def

lemma register_small:
  "unat op < 128 \<Longrightarrow> length (packetFactories h) = 256 \<Longrightarrow>
   registerPacketFactory True op k h = (Inr (), h\<lparr>packetFactories := (packetFactories h)[unat op := Some k]\<rparr>)"
  by (simp add: registerPacketFactory_def Let_def unat_scast_byte_32)

lemma front_factories:
  "factory_at front_handler 0 = Inr (Some K_NodeInfo)" "factory_at front_handler 1 = Inr (Some K_StartResult)"
  "factory_at front_handler 2 = Inr (Some K_CloseResult)"
  by (simp_all add: front_handler_def opcode_defs register_small PacketHandler_new_def sx_seq_def sx_bind_def
      factory_at_small)

lemma node_factories:
  "factory_at node_handler 0 = Inr (Some K_RequestNodeInfo)" "factory_at node_handler 1 = Inr (Some K_RequestStart)"
  "factory_at node_handler 2 = Inr (Some K_RequestClose)"
  by (simp_all add: node_handler_def opcode_defs register_small PacketHandler_new_def sx_seq_def sx_bind_def
      factory_at_small)

section \<open>Every packet class is read as it was written\<close>

definition strings_fit :: "string list \<Rightarrow> bool" where
  "strings_fit ss \<longleftrightarrow> sum_list (map length ss) + 4 * length ss + 4 < 65536"

lemma strings_fitD: "strings_fit ss \<Longrightarrow> s \<in> set ss \<Longrightarrow> length s < 65536"
  by (induction ss) (auto simp: strings_fit_def)

definition start_content :: "startRequest \<Rightarrow> byte list" where
  "start_content p = string_bytes (sr_userName p) @ string_bytes (sr_userAddress p) @
     string_bytes (sr_sessionName p) @ object_bytes 4 (sr_port p)"

definition start_received :: "startRequest \<Rightarrow> requestStartStreamingSession" where
  "start_received p = \<lparr>rss_user = sr_userName p, rss_userAddress = sr_userAddress p,
     rss_sessionName = sr_sessionName p, rss_port = sr_port p\<rparr>"

definition start_fits :: "startRequest \<Rightarrow> bool" where
  "start_fits p \<longleftrightarrow> strings_fit [sr_userName p, sr_userAddress p, sr_sessionName p]"

lemma reads_bytes_wrap: "reads_bytes m bs x \<Longrightarrow> reads_as (sx_bind m (\<lambda>p. sx_return (f p))) bs (\<lambda>w. (f x, w))"
  by (intro reads_bytes_as reads_bytes_last) simp_all

interpretation start_request: frame_protocol StartRequest_getOpcode StartRequest_writeImpl start_content
  "node_readImpl K_RequestStart" "\<lambda>p w. (R_RequestStart (start_received p), w)" start_fits
proof unfold_locales
  show "unat StartRequest_getOpcode < 128" by (simp add: opcode_defs)
  fix p
  show "writes_bytes (StartRequest_writeImpl p) (start_content p)"
    unfolding start_content_def by (rule StartRequest_content)
  assume fit: "start_fits p"
  show "length (start_content p) < 65536"
    using fit by (simp add: start_fits_def strings_fit_def start_content_def length_string_bytes)
  have "start_request_content (start_received p) = start_content p"
    by (simp add: start_request_content_def start_received_def start_content_def)
  then show "reads_as (node_readImpl K_RequestStart :: ('w \<times> bytebuffer option, node_received) sx) (start_content p)
      (\<lambda>w. (R_RequestStart (start_received p), w))"
    using reads_bytes_wrap [OF RequestStartStreamingSession_reads [of "start_received p"]] fit
    by (simp add: node_readImpl_def start_received_def start_fits_def strings_fit_def)
qed

definition close_content :: "closeRequest \<Rightarrow> byte list" where
  "close_content p = string_bytes (cr_userName p) @ string_bytes (cr_sessionName p)"

definition close_received :: "closeRequest \<Rightarrow> requestCloseUserSession" where
  "close_received p = \<lparr>rcs_userName = cr_userName p, rcs_sessionName = cr_sessionName p\<rparr>"

definition close_fits :: "closeRequest \<Rightarrow> bool" where
  "close_fits p \<longleftrightarrow> strings_fit [cr_userName p, cr_sessionName p]"

interpretation close_request: frame_protocol CloseRequest_getOpcode CloseRequest_writeImpl close_content
  "node_readImpl K_RequestClose" "\<lambda>p w. (R_RequestClose (close_received p), w)" close_fits
proof unfold_locales
  show "unat CloseRequest_getOpcode < 128" by (simp add: opcode_defs)
  fix p
  show "writes_bytes (CloseRequest_writeImpl p) (close_content p)"
    unfolding close_content_def by (rule CloseRequest_content)
  assume fit: "close_fits p"
  show "length (close_content p) < 65536"
    using fit by (simp add: close_fits_def strings_fit_def close_content_def length_string_bytes)
  have "close_request_content (close_received p) = close_content p"
    by (simp add: close_request_content_def close_received_def close_content_def)
  then show "reads_as (node_readImpl K_RequestClose :: ('w \<times> bytebuffer option, node_received) sx) (close_content p)
      (\<lambda>w. (R_RequestClose (close_received p), w))"
    using reads_bytes_wrap [OF RequestCloseUserSession_reads [of "close_received p"]] fit
    by (simp add: node_readImpl_def close_received_def close_fits_def strings_fit_def)
qed

interpretation info_request: frame_protocol NodeInfoRequest_getOpcode "\<lambda>_. NodeInfoRequest_writeImpl" "\<lambda>_ :: unit. []"
  "node_readImpl K_RequestNodeInfo" "\<lambda>_ w. (R_RequestNodeInfo, w)" "\<lambda>_. True"
proof unfold_locales
  show "unat NodeInfoRequest_getOpcode < 128" by (simp add: opcode_defs)
  show "writes_bytes NodeInfoRequest_writeImpl []"
    unfolding NodeInfoRequest_writeImpl_def by (rule writes_bytes_return)
  show "reads_as (node_readImpl K_RequestNodeInfo :: ('w \<times> bytebuffer option, node_received) sx) []
      (\<lambda>w. (R_RequestNodeInfo, w))"
    by (simp add: node_readImpl_def RequestNodeInfo_readImpl_def sx_bind_return reads_bytes_as reads_bytes_return)
qed simp

definition start_result_received :: "startStreamingSessionResult \<Rightarrow> clientStartResult" where
  "start_result_received p =
     \<lparr>cs_userName = ssr_userName p, cs_sessionName = ssr_sessionName p, cs_creationStatus = ssr_status p\<rparr>"

definition start_result_fits :: "startStreamingSessionResult \<Rightarrow> bool" where
  "start_result_fits p \<longleftrightarrow> strings_fit [ssr_userName p, ssr_sessionName p]"

interpretation start_result: frame_protocol StartStreamingSessionResult_getOpcode StartStreamingSessionResult_writeImpl
  "\<lambda>p. result_content (ssr_userName p) (ssr_sessionName p) (ssr_status p)"
  "front_readImpl junk clientAddress con K_StartResult"
  "\<lambda>p w. (R_StartResult (start_result_received p), w)" start_result_fits
  for junk and clientAddress :: "'c \<Rightarrow> string" and con
proof unfold_locales
  show "unat StartStreamingSessionResult_getOpcode < 128" by (simp add: opcode_defs)
  fix p
  show "writes_bytes (StartStreamingSessionResult_writeImpl p)
      (result_content (ssr_userName p) (ssr_sessionName p) (ssr_status p))"
    by (rule StartStreamingSessionResult_content)
  assume fit: "start_result_fits p"
  show "length (result_content (ssr_userName p) (ssr_sessionName p) (ssr_status p)) < 65536"
    using fit by (simp add: start_result_fits_def strings_fit_def result_content_def length_string_bytes)
  show "reads_as (front_readImpl junk clientAddress con K_StartResult)
      (result_content (ssr_userName p) (ssr_sessionName p) (ssr_status p)) (\<lambda>w. (R_StartResult (start_result_received p), w))"
    using reads_bytes_wrap [OF ClientStartResult_reads [of "start_result_received p"]] fit
    by (simp add: front_readImpl_def start_result_received_def start_result_fits_def strings_fit_def result_content_def)
qed

definition close_result_received :: "closeSessionResult \<Rightarrow> clientCloseResult" where
  "close_result_received p =
     \<lparr>cc_user = csr_userName p, cc_sessionName = csr_sessioName p, cc_closeStatus = csr_status p\<rparr>"

definition close_result_fits :: "closeSessionResult \<Rightarrow> bool" where
  "close_result_fits p \<longleftrightarrow> strings_fit [csr_userName p, csr_sessioName p]"

interpretation close_result: frame_protocol CloseSessionResult_getOpcode CloseSessionResult_writeImpl
  "\<lambda>p. result_content (csr_userName p) (csr_sessioName p) (csr_status p)"
  "front_readImpl junk clientAddress con K_CloseResult"
  "\<lambda>p w. (R_CloseResult (close_result_received p), w)" close_result_fits
  for junk and clientAddress :: "'c \<Rightarrow> string" and con
proof unfold_locales
  show "unat CloseSessionResult_getOpcode < 128" by (simp add: opcode_defs)
  fix p
  show "writes_bytes (CloseSessionResult_writeImpl p)
      (result_content (csr_userName p) (csr_sessioName p) (csr_status p))"
    by (rule CloseSessionResult_content)
  assume fit: "close_result_fits p"
  show "length (result_content (csr_userName p) (csr_sessioName p) (csr_status p)) < 65536"
    using fit by (simp add: close_result_fits_def strings_fit_def result_content_def length_string_bytes)
  show "reads_as (front_readImpl junk clientAddress con K_CloseResult)
      (result_content (csr_userName p) (csr_sessioName p) (csr_status p)) (\<lambda>w. (R_CloseResult (close_result_received p), w))"
    using reads_bytes_wrap [OF ClientCloseResult_reads [of "close_result_received p"]] fit
    by (simp add: front_readImpl_def close_result_received_def close_result_fits_def strings_fit_def result_content_def)
qed

text \<open>The port table of a node as the front end sees it: the \<open>uint16_t\<close> ports become \<open>int\<close>.\<close>

definition wide_ports :: "portTable \<Rightarrow> (32 word, bool) umap" where
  "wide_ports t = map (\<lambda>(p, u). (ucast p, u)) t"

lemma port_bytes_wide: "port_bytes t = slot_bytes (wide_ports t)"
  by (induction t) (auto simp: wide_ports_def)

lemma node_info_announcement: "node_info_content sm = announcement (sm_publicAddress sm) (wide_ports (sm_usedPorts sm))"
  by (simp add: node_info_content_def announcement_def port_bytes_wide) (simp add: wide_ports_def)

definition info_fits :: "'c sessionManager \<Rightarrow> bool" where
  "info_fits sm \<longleftrightarrow> length (sm_publicAddress sm) + 8 * length (sm_usedPorts sm) + 6 < 65536"

interpretation node_info: frame_protocol NodeInfo_getOpcode NodeInfo_writeImpl node_info_content
  "front_readImpl junk clientAddress con K_NodeInfo"
  "\<lambda>sm m. (R_NodeInfo, announce junk clientAddress con (sm_publicAddress sm) (wide_ports (sm_usedPorts sm)) m)"
  info_fits
  for junk and clientAddress :: "'c \<Rightarrow> string" and con
proof unfold_locales
  show "unat NodeInfo_getOpcode < 128" by (simp add: opcode_defs)
  fix p :: "'d sessionManager"
  show "writes_bytes (NodeInfo_writeImpl p) (node_info_content p)" by (rule NodeInfo_content)
  assume fit: "info_fits p"
  show "length (node_info_content p) < 65536"
    using fit by (simp add: info_fits_def node_info_content_def length_string_bytes)
  have l: "length (sm_publicAddress p) < 65536" "length (wide_ports (sm_usedPorts p)) < 2 ^ 31"
    using fit by (simp_all add: info_fits_def wide_ports_def)
  show "reads_as (front_readImpl junk clientAddress con K_NodeInfo) (node_info_content p)
      (\<lambda>m. (R_NodeInfo, announce junk clientAddress con (sm_publicAddress p) (wide_ports (sm_usedPorts p)) m))"
    using reads_as_seq [where f = "\<lambda>_. sx_return R_NodeInfo" and cs = "[]" and out' = "\<lambda>_ w. (R_NodeInfo, w)",
        OF ClientNodeInfo_reads [OF l, of junk clientAddress con] reads_bytes_as [OF reads_bytes_return]]
    by (simp add: node_info_announcement front_readImpl_def)
qed

lemma um_find_wide: "um_find (wide_ports t) p = Some u \<Longrightarrow> \<exists>q. p = ucast q \<and> um_find t q = Some u"
proof (induction t)
  case (Cons a t)
  obtain q v where a: "a = (q, v)" by (cases a)
  show ?case
  proof (cases "p = ucast q")
    case True
    then show ?thesis using Cons.prems by (intro exI [of _ q]) (simp add: a wide_ports_def)
  next
    case False
    then obtain q' where q': "p = ucast q'" "um_find t q' = Some u"
      using Cons by (auto simp: a wide_ports_def)
    with False have "q \<noteq> q'" by auto
    with q' show ?thesis by (intro exI [of _ q']) (simp add: a)
  qed
qed (simp add: wide_ports_def)

lemma ucast_32_inj: "(ucast p :: 32 word) = ucast q \<longleftrightarrow> p = (q :: 16 word)"
  by (metis ucast_port)

lemma wide_ports_wf: "um_wf t \<Longrightarrow> um_wf (wide_ports t)"
  by (simp add: um_wf_def wide_ports_def case_prod_beta' comp_def distinct_map inj_on_def ucast_32_inj)

text \<open>What a first announcement leaves at the front end.\<close>

lemma announce_new:
  assumes "info_fits sm" and "um_wf (sm_usedPorts sm)" and "getNode (clientAddress con) m = None"
  shows "\<exists>n. getNode (clientAddress con)
      (announce junk clientAddress con (sm_publicAddress sm) (wide_ports (sm_usedPorts sm)) m) = Some n \<and>
    vn_inv n \<and> vn_address n = clientAddress con \<and> vn_publicAddress n = sm_publicAddress sm \<and>
    (\<forall>port :: 16 word. um_find (vn_slotTracker n) (ucast port) = um_find (sm_usedPorts sm) port) \<and>
    node_free n = free_slots (sm_usedPorts sm)"
proof -
  let ?l = "wide_ports (sm_usedPorts sm)"
  have wide_wf: "um_wf ?l" by (rule wide_ports_wf [OF assms(2)])
  have find: "um_find ?l (ucast port) = um_find (sm_usedPorts sm) port" for port :: "16 word"
  proof -
    have "um_find (wide_ports t) (ucast port) = um_find t port" for t
      by (induction t) (auto simp: wide_ports_def ucast_32_inj)
    then show ?thesis .
  qed
  have free: "um_count Not (rev ?l) = free_slots (sm_usedPorts sm)"
    by (simp add: um_count_def rev_filter [symmetric] wide_ports_def filter_map comp_def case_prod_beta')
  have len: "length ?l < 2 ^ 31" using assms(1) by (simp add: info_fits_def wide_ports_def)
  let ?n = "announced clientAddress con (sm_publicAddress sm) ?l (VisualizationNode_new junk)"
  have a: "announce junk clientAddress con (sm_publicAddress sm) ?l m = put_node (clientAddress con) ?n m"
    using assms(3) by (simp add: announce_def)
  note F = announced_fresh [OF wide_wf len]
  show ?thesis
    unfolding a by (intro exI [of _ ?n] conjI allI) (simp_all add: F um_find_rev [OF wide_wf] find free)
qed

section \<open>Properties\<close>

text \<open>
  Property C25. A start, close or node-info request the front end writes to the connection of a
  node is the packet the node's handler delivers, with every member unchanged, and nothing is
  left in the buffer, provided the strings fit a packet and each packet fits the buffer (its
  content and three bytes of header, below the size of the buffer).
\<close>

theorem requests_arrive:
  assumes "bb_ok b" and "bb_unread b = []" and "start_fits p" and "close_fits q"
    and "bb_room (length (start_content p) + 3) b" and "bb_room (length (close_content q) + 3) b"
  shows "(\<exists>b1 b2. writePacket StartRequest_getOpcode (StartRequest_writeImpl p) (Some b) = (Inr (), Some b1) \<and>
      handlePacket node_readImpl node_handler addr (w, b1) = (Inr (Some (R_RequestStart (start_received p))), (w, b2)) \<and>
      bb_unread b2 = []) \<and>
    (\<exists>b1 b2. writePacket CloseRequest_getOpcode (CloseRequest_writeImpl q) (Some b) = (Inr (), Some b1) \<and>
      handlePacket node_readImpl node_handler addr (w, b1) = (Inr (Some (R_RequestClose (close_received q))), (w, b2)) \<and>
      bb_unread b2 = []) \<and>
    (\<exists>b1 b2. writePacket NodeInfoRequest_getOpcode NodeInfoRequest_writeImpl (Some b) = (Inr (), Some b1) \<and>
      handlePacket node_readImpl node_handler addr (w, b1) = (Inr (Some R_RequestNodeInfo), (w, b2)) \<and>
      bb_unread b2 = [])"
proof (intro conjI)
  have room: "bb_room (length ([] :: byte list) + 3) b" using assms(5) by (simp add: bb_room_def)
  show "\<exists>b1 b2. writePacket StartRequest_getOpcode (StartRequest_writeImpl p) (Some b) = (Inr (), Some b1) \<and>
      handlePacket node_readImpl node_handler addr (w, b1) = (Inr (Some (R_RequestStart (start_received p))), (w, b2)) \<and>
      bb_unread b2 = []"
    using start_request.transfer_packet [where rd = node_readImpl and h = node_handler and k = K_RequestStart
        and w = w and addr = addr, OF assms(1,5,2,3)] node_factories
    by (auto simp: opcode_defs)
  show "\<exists>b1 b2. writePacket CloseRequest_getOpcode (CloseRequest_writeImpl q) (Some b) = (Inr (), Some b1) \<and>
      handlePacket node_readImpl node_handler addr (w, b1) = (Inr (Some (R_RequestClose (close_received q))), (w, b2)) \<and>
      bb_unread b2 = []"
    using close_request.transfer_packet [where rd = node_readImpl and h = node_handler and k = K_RequestClose
        and w = w and addr = addr, OF assms(1,6,2,4)] node_factories
    by (auto simp: opcode_defs)
  show "\<exists>b1 b2. writePacket NodeInfoRequest_getOpcode NodeInfoRequest_writeImpl (Some b) = (Inr (), Some b1) \<and>
      handlePacket node_readImpl node_handler addr (w, b1) = (Inr (Some R_RequestNodeInfo), (w, b2)) \<and> bb_unread b2 = []"
    using info_request.transfer_packet [where rd = node_readImpl and h = node_handler and k = K_RequestNodeInfo
        and w = w and addr = addr, OF assms(1) room assms(2) TrueI] node_factories
    by (auto simp: opcode_defs)
qed

text \<open>The buffers of the program: 65535 bytes by default, 8192 in the selector's helper.\<close>

lemma program_buffer:
  "bb_ok (ByteBuffer_default (\<lambda>_. 0))" "bb_unread (ByteBuffer_default (\<lambda>_. 0)) = []"
  "bb_room n (ByteBuffer_default (\<lambda>_. 0)) \<longleftrightarrow> n < 65535"
  by (simp_all add: ByteBuffer_default_def ByteBuffer_sized_ok bb_room_def)

lemma helper_buffer:
  "bb_ok (ByteBuffer_sized (\<lambda>_. 0) 8192)" "bb_unread (ByteBuffer_sized (\<lambda>_. 0) 8192) = []"
  "bb_room n (ByteBuffer_sized (\<lambda>_. 0) 8192) \<longleftrightarrow> n < 8192"
  by (simp_all add: ByteBuffer_sized_ok bb_room_def)

theorem requests_arrive_witness:
  "\<exists>b1 b2. writePacket StartRequest_getOpcode
       (StartRequest_writeImpl (RequestStartStreamingSession ann ''a'' 8001)) (Some (ByteBuffer_sized (\<lambda>_. 0) 8192)) =
      (Inr (), Some b1) \<and>
     handlePacket node_readImpl node_handler ''10.0.0.9'' ((), b1) =
      (Inr (Some (R_RequestStart \<lparr>rss_user = ''ann'', rss_userAddress = ''10.0.0.1'', rss_sessionName = ''a'',
         rss_port = 8001\<rparr>)), ((), b2))"
proof -
  have "start_fits (RequestStartStreamingSession ann ''a'' 8001)" "close_fits (RequestCloseUserSession ''ann'' ''a'')"
    by (simp_all add: start_fits_def close_fits_def strings_fit_def RequestStartStreamingSession_def
        RequestCloseUserSession_def ann_def user_defs)
  moreover have "bb_room (length (start_content (RequestStartStreamingSession ann ''a'' 8001)) + 3) (ByteBuffer_sized (\<lambda>_. 0) 8192)"
    "bb_room (length (close_content (RequestCloseUserSession ''ann'' ''a'')) + 3) (ByteBuffer_sized (\<lambda>_. 0) 8192)"
    by (simp_all add: helper_buffer start_content_def close_content_def length_string_bytes
        RequestStartStreamingSession_def RequestCloseUserSession_def ann_def user_defs)
  ultimately show ?thesis
    using requests_arrive [OF helper_buffer(1,2), where p = "RequestStartStreamingSession ann ''a'' 8001"
        and q = "RequestCloseUserSession ''ann'' ''a''" and addr = "''10.0.0.9''" and w = "()"]
    by (auto simp: start_received_def RequestStartStreamingSession_def ann_def user_defs)
qed

text \<open>
  Property C7. The life of a start request, end to end: the front end writes it, the node reads
  and executes it, the result packet it queues is written, read and executed by the front end,
  and the session the front end was creating is then running exactly if the node launched it
  and crashed otherwise. Each of the two packets must fit its empty buffer, content and header
  below the size of the buffer.
\<close>

theorem start_request_end_to_end:
  assumes b: "bb_ok b" "bb_unread b = []"
      "bb_room (length (start_content (RequestStartStreamingSession u name port)) + 3) b"
    and c: "bb_ok c" "bb_unread c = []" "bb_room (length (result_content (getUserName u) name (launch_code st)) + 3) c"
    and fit: "start_fits (RequestStartStreamingSession u name port)"
    and st: "startNewSession ok junk (getUserName u) (getAddress u) name (ucast port) (nd_manager nd) = (st, sm')"
    and usr: "users_ok users" "getUserByName (getUserName u) users = Some (ip, usr)"
    and info: "open_info t (getUserName u) name = Some info"
  shows "\<exists>b1 b2 r nd' q c1 c2 f.
    writePacket StartRequest_getOpcode
      (StartRequest_writeImpl (RequestStartStreamingSession u name port)) (Some b) = (Inr (), Some b1) \<and>
    handlePacket node_readImpl node_handler addr ((), b1) = (Inr (Some r), ((), b2)) \<and>
    node_execute ok junk r nd = (Inr (), nd') \<and> nd_manager nd' = sm' \<and>
    nd_toFrontend nd' = nd_toFrontend nd @ [q] \<and>
    node_writePacket sm' q (Some c) = (Inr (), Some c1) \<and>
    handlePacket (front_readImpl junk' clientAddress con) front_handler addr' (m, c1) = (Inr (Some f), (m, c2)) \<and>
    open_info (snd (front_execute f (users, t))) (getUserName u) name =
      Some (info\<lparr>si_status := (if st = SESSION_LAUNCH_OK then SESSION_RUNNING else SESSION_CRASHED)\<rparr>)"
proof -
  let ?p = "RequestStartStreamingSession u name port"
  let ?r = "start_received ?p"
  let ?q = "\<lparr>ssr_userName = getUserName u, ssr_sessionName = name, ssr_status = launch_code st\<rparr>"
  obtain b1 b2 where B: "writePacket StartRequest_getOpcode (StartRequest_writeImpl ?p) (Some b) = (Inr (), Some b1)"
    "handlePacket node_readImpl node_handler addr ((), b1) = (Inr (Some (R_RequestStart ?r)), ((), b2))"
    using start_request.transfer_packet [where rd = node_readImpl and h = node_handler and k = K_RequestStart
        and w = "()" and addr = addr, OF b(1,3,2) fit] node_factories
    by (auto simp: opcode_defs)
  have ex: "node_execute ok junk (R_RequestStart ?r) nd = (Inr (), node_send (StartResult ?q) (nd\<lparr>nd_manager := sm'\<rparr>))"
    using st by (simp add: node_execute_def sx_modify_def RequestStartStreamingSession_execute_def
        start_received_def RequestStartStreamingSession_def)
  have fit2: "start_result_fits ?q"
    using fit by (simp add: start_result_fits_def start_fits_def strings_fit_def RequestStartStreamingSession_def)
  have rc: "bb_room (length (result_content (ssr_userName ?q) (ssr_sessionName ?q) (ssr_status ?q)) + 3) c"
    using c(3) by simp
  obtain c1 c2 where C: "writePacket StartStreamingSessionResult_getOpcode (StartStreamingSessionResult_writeImpl ?q) (Some c)
      = (Inr (), Some c1)"
    "handlePacket (front_readImpl junk' clientAddress con) front_handler addr' (m, c1) =
      (Inr (Some (R_StartResult (start_result_received ?q))), (m, c2))"
    using start_result.transfer_packet [where rd = "front_readImpl junk' clientAddress con" and h = front_handler
        and k = K_StartResult and w = m and addr = addr' and junk = junk' and clientAddress = clientAddress and con = con,
        OF c(1) rc c(2) fit2] front_factories
    by (auto simp: opcode_defs)
  have n: "getUserName usr = getUserName u"
    using getUserByName_Some [OF usr] by (simp add: getUserName_def)
  have code: "launch_code st = 0 \<longleftrightarrow> st = SESSION_LAUNCH_OK" by (cases st) simp_all
  have "open_info (snd (front_execute (R_StartResult (start_result_received ?q)) (users, t))) (getUserName u) name =
      Some (info\<lparr>si_status := (if st = SESSION_LAUNCH_OK then SESSION_RUNNING else SESSION_CRASHED)\<rparr>)"
    using usr(2) info
    by (simp add: front_execute_def ClientStartResult_execute_def start_result_received_def
        open_info_createSession n code)
  then show ?thesis
    using B C ex
    by (intro exI conjI; assumption?) (auto simp: node_send_def node_writePacket_def)
qed

theorem start_request_end_to_end_witness:
  "\<exists>b1 r nd' q f.
    writePacket StartRequest_getOpcode
      (StartRequest_writeImpl (RequestStartStreamingSession ann ''a'' 8001)) (Some (ByteBuffer_sized (\<lambda>_. 0) 8192)) = (Inr (), Some b1) \<and>
    node_execute True 0 r \<lparr>nd_manager = example_manager, nd_toFrontend = [], nd_finishing = []\<rparr> = (Inr (), nd') \<and>
    nd_toFrontend nd' = [q] \<and>
    open_info (snd (front_execute f (put_user ''10.0.0.1'' ann UserManager_new,
        put_tracked ''ann'' [(''a'', created_info 0 ann ''a'' ''n'' ''n'' 8001)] \<lparr>openSessions = []\<rparr>))) ''ann'' ''a'' =
      Some ((created_info 0 ann ''a'' ''n'' ''n'' 8001)\<lparr>si_status := SESSION_RUNNING\<rparr>)"
proof -
  let ?nd = "\<lparr>nd_manager = example_manager, nd_toFrontend = [], nd_finishing = []\<rparr>"
  let ?users = "put_user ''10.0.0.1'' ann UserManager_new"
  let ?t = "put_tracked ''ann'' [(''a'', created_info 0 ann ''a'' ''n'' ''n'' 8001)] \<lparr>openSessions = []\<rparr>"
  have name: "getUserName ann = ''ann''" "getAddress ann = ''10.0.0.1''" by (simp_all add: ann_def user_defs)
  have fit: "start_fits (RequestStartStreamingSession ann ''a'' 8001)"
    by (simp add: start_fits_def strings_fit_def RequestStartStreamingSession_def name)
  have ok: "fst (startNewSession True 0 (getUserName ann) (getAddress ann) ''a'' (ucast (8001 :: 32 word)) example_manager)
      = SESSION_LAUNCH_OK"
    by (simp add: name example_simps startNewSession_def Let_def findAvailablePort_def
        um_set_def sessions_of_def put_sessions_def tryLaunchSession_def)
  obtain sm' where st: "startNewSession True 0 (getUserName ann) (getAddress ann) ''a'' (ucast (8001 :: 32 word))
      (nd_manager ?nd) = (SESSION_LAUNCH_OK, sm')"
    using ok by (metis prod.collapse node.select_convs(1))
  have u: "users_ok ?users"
    by (intro users_ok_put users_ok_new) (simp_all add: ann_def user_defs um_wf_def)
  have g: "getUserByName (getUserName ann) ?users = Some (''10.0.0.1'', ann)"
    by (simp add: getUserByName_def put_user_def UserManager_new_def um_set_def)
  have i: "open_info ?t (getUserName ann) ''a'' = Some (created_info 0 ann ''a'' ''n'' ''n'' 8001)"
    by (simp add: open_info_put name)
  have b: "bb_room (length (start_content (RequestStartStreamingSession ann ''a'' 8001)) + 3) (ByteBuffer_sized (\<lambda>_. 0) 8192)"
    and c: "bb_room (length (result_content (getUserName ann) ''a'' (launch_code SESSION_LAUNCH_OK)) + 3) (ByteBuffer_default (\<lambda>_. 0))"
    by (simp_all add: helper_buffer program_buffer start_content_def result_content_def length_string_bytes
        RequestStartStreamingSession_def name)
  from start_request_end_to_end [OF helper_buffer(1,2) b program_buffer(1,2) c fit st u g i, of "''f''" 0 "\<lambda>_. ''n''" "()" "''n''" VisualizationNodeManager_new]
  show ?thesis unfolding name
    by (elim exE conjE) (intro exI conjI, assumption, assumption, simp, simp)
qed

text \<open>
  Property C26. A node's announcement, end to end: the \<open>NodeInfo\<close> packet the node writes about its
  session manager makes the front end register the node with exactly the web ports of the node,
  each free or used as in the node's own table, and counters that agree. The announcement, content
  and header, must fit the buffer.
\<close>

theorem announcement_end_to_end:
  assumes b: "bb_ok b" "bb_unread b = []" "bb_room (length (node_info_content sm) + 3) b"
    and fit: "info_fits sm" and wf: "um_wf (sm_usedPorts sm)"
    and new: "getNode (clientAddress con) m = None"
  shows "\<exists>b1 b2 m' n. writePacket NodeInfo_getOpcode (NodeInfo_writeImpl sm) (Some b) = (Inr (), Some b1) \<and>
    handlePacket (front_readImpl junk clientAddress con) front_handler addr (m, b1) = (Inr (Some R_NodeInfo), (m', b2)) \<and>
    getNode (clientAddress con) m' = Some n \<and> vn_inv n \<and> vn_address n = clientAddress con \<and>
    vn_publicAddress n = sm_publicAddress sm \<and>
    (\<forall>port :: 16 word. um_find (vn_slotTracker n) (ucast port) = um_find (sm_usedPorts sm) port) \<and>
    node_free n = free_slots (sm_usedPorts sm)"
proof -
  let ?m' = "announce junk clientAddress con (sm_publicAddress sm) (wide_ports (sm_usedPorts sm)) m"
  obtain b1 b2 where "writePacket NodeInfo_getOpcode (NodeInfo_writeImpl sm) (Some b) = (Inr (), Some b1)"
    "handlePacket (front_readImpl junk clientAddress con) front_handler addr (m, b1) = (Inr (Some R_NodeInfo), (?m', b2))"
    using node_info.transfer_packet [where rd = "front_readImpl junk clientAddress con" and h = front_handler
        and k = K_NodeInfo and w = m and addr = addr and junk = junk and clientAddress = clientAddress and con = con,
        OF b(1,3,2) fit] front_factories
    by (auto simp: opcode_defs)
  with announce_new [where con = con and clientAddress = clientAddress and m = m, OF fit wf new, of junk] show ?thesis by blast
qed

theorem announcement_end_to_end_witness:
  "\<exists>b1 b2 m' n. writePacket NodeInfo_getOpcode (NodeInfo_writeImpl example_manager) (Some (ByteBuffer_default (\<lambda>_. 0))) =
      (Inr (), Some b1) \<and>
    handlePacket (front_readImpl 0 (\<lambda>_. ''10.0.0.5'') (7 :: nat)) front_handler ''10.0.0.5'' (VisualizationNodeManager_new, b1) =
      (Inr (Some R_NodeInfo), (m', b2)) \<and>
    getNode ''10.0.0.5'' m' = Some n \<and> vn_inv n \<and> um_find (vn_slotTracker n) 8002 = Some False"
proof -
  have fit: "info_fits example_manager" and wf: "um_wf (sm_usedPorts example_manager)"
    and f: "um_find (sm_usedPorts example_manager) 8002 = Some False"
    by (simp_all add: info_fits_def example_simps um_set_def um_wf_def)
  have r: "bb_room (length (node_info_content example_manager) + 3) (ByteBuffer_default (\<lambda>_. 0))"
    by (simp add: program_buffer node_info_content_def length_string_bytes example_simps um_set_def port_bytes_def)
  have new: "getNode ((\<lambda>_. ''10.0.0.5'') (7 :: nat)) VisualizationNodeManager_new = None"
    by (simp add: getNode_def VisualizationNodeManager_new_def)
  from announcement_end_to_end [where clientAddress = "\<lambda>_. ''10.0.0.5''" and con = "7 :: nat" and junk = 0
      and addr = "''10.0.0.5''", OF program_buffer(1,2) r fit wf new]
  obtain b1 b2 m' n where *: "writePacket NodeInfo_getOpcode (NodeInfo_writeImpl example_manager)
      (Some (ByteBuffer_default (\<lambda>_. 0))) = (Inr (), Some b1)"
    "handlePacket (front_readImpl 0 (\<lambda>_. ''10.0.0.5'') (7 :: nat)) front_handler ''10.0.0.5'' (VisualizationNodeManager_new, b1) =
      (Inr (Some R_NodeInfo), (m', b2))"
    "getNode ''10.0.0.5'' m' = Some n" "vn_inv n"
    "\<forall>port :: 16 word. um_find (vn_slotTracker n) (ucast port) = um_find (sm_usedPorts example_manager) port"
    by blast
  moreover have "um_find (vn_slotTracker n) 8002 = Some False" using spec [OF *(5), of 8002] f by simp
  ultimately show ?thesis by blast
qed





end
