(* ===== verification/Sockets.thy ===== *)
theory Sockets
  imports PacketHandler
begin

text \<open>
  What the selector thread, the client and the server share: the results of receive calls, the
  bytes a buffer takes from them, and the packet that is written into a freshly reset buffer.

  Sockets are Poco's and not in the repository. The loops that call \<open>receiveBytes\<close> are run on the
  list of what their calls return, in order; nothing is assumed of it but what a theorem says.
  Where the list ends nothing more arrives. \<open>Received now bs\<close> also carries the time at which the
  packet found in \<open>bs\<close>, if any, is handed on; with no bytes it is the return value 0 of a
  connection the peer has closed. \<open>Net_error\<close> is any other exception of the call.
\<close>

datatype arrival =
    Received int "byte list"
  | Net_error

text \<open>
  The call writes at \<open>getAppendPtr ( )\<close>; the loop then moves the write cursor. More bytes than
  there is room for would be stored outside the array.
\<close>

definition store_received :: "byte list \<Rightarrow> (bytebuffer, unit) sx" where
  "store_received bs b =
     sx_seq (mem_store (getWritePos b) bs)
       (sx_modify (\<lambda>b. setWritePos (size_add (getWritePos b) (length bs)) b)) b"

text \<open>What \<open>sendBytes ( getReadPtr ( ), getUsedSize ( ) )\<close> is given.\<close>

definition bytes_to_send :: "bytebuffer \<Rightarrow> cpp_error + byte list" where
  "bytes_to_send b = fst (mem_load (getReadPos b) (getUsedSize b) b)"

lemma store_received_ok:
  assumes "bb_ok b" and "bs = [] \<or> bb_buf b \<noteq> None" and "bb_used b + length bs \<le> bb_size b"
  shows "store_received bs b = (Inr (), bb_append bs b)" and "bb_ok (bb_append bs b)"
    and "bb_unread (bb_append bs b) = bb_unread b @ bs"
proof -
  have len: "bb_used b + length bs < size_modulus" using assms by (auto simp: bb_ok_def size_modulus_def)
  show "store_received bs b = (Inr (), bb_append bs b)"
    using assms len
    by (cases "bb_buf b")
      (auto simp: store_received_def sx_seq_def sx_bind_def mem_store_def sx_modify_def getWritePos_def setWritePos_def
        bb_append_def bb_ok_def)
  show "bb_ok (bb_append bs b)"
    using assms by (cases "bb_buf b") (auto simp: bb_ok_def bb_append_def)
  show "bb_unread (bb_append bs b) = bb_unread b @ bs"
    using assms by (cases "bb_buf b") (auto simp: bb_ok_def bb_append_def bb_unread_def)
qed

lemma bytes_to_send_reset:
  assumes "bb_ok b" and "bb_read b = 0"
  shows "bytes_to_send b = Inr (bb_written b)"
  using assms by (auto simp: bytes_to_send_def mem_load_def getReadPos_def getUsedSize_def bb_written_def bb_ok_def
      split: option.splits)

section \<open>Frames of a list of packets\<close>

text \<open>
  \<open>sends_frame w f n\<close>: the function \<open>w\<close> that writes a packet puts the frame \<open>f\<close> into any empty
  buffer of size \<open>n\<close>.
\<close>

definition sends_frame :: "(bytebuffer option, unit) sx \<Rightarrow> byte list \<Rightarrow> nat \<Rightarrow> bool" where
  "sends_frame w f n \<longleftrightarrow>
     (\<forall>b. bb_ok b \<and> bb_size b = n \<and> bb_used b = 0 \<and> bb_read b = 0 \<longrightarrow>
        w (Some b) = (Inr (), Some (bb_append f b)) \<and> bb_room (length f) b)"

lemma sends_frame_writePacket:
  assumes "writes_bytes writeImpl cs" and "length cs + 3 < n"
  shows "sends_frame (writePacket opcode writeImpl) (frame opcode cs) n"
  unfolding sends_frame_def using writePacket_frame [OF _ _ assms(1)] assms(2) by (auto simp: bb_room_def)

text \<open>
  \<open>receives rd h f q out\<close>: the handler \<open>h\<close> takes the frame \<open>f\<close> off the front of a buffer, makes
  the packet \<open>q w\<close> of it and leaves the program in the state \<open>out w\<close>.
\<close>

definition receives ::
  "('k \<Rightarrow> ('w \<times> bytebuffer option, 'p) sx) \<Rightarrow> 'k packetHandler \<Rightarrow> byte list \<Rightarrow> ('w \<Rightarrow> 'p \<times> 'w) \<Rightarrow> bool" where
  "receives rd h f out \<longleftrightarrow>
     (\<exists>op cs k. f = frame op cs \<and> length cs < 65536 \<and> factory_at h op = Inr (Some k) \<and> reads_as (rd k) cs out)"

lemma receives_handle:
  assumes "receives rd h f out" and "bb_ok b" and "bb_unread b = f @ rest"
  shows "\<exists>b'. handlePacket rd h addr (w, b) = (Inr (Some (fst (out w))), (snd (out w), b')) \<and>
    bb_ok b' \<and> bb_unread b' = rest \<and> bb_used b' = bb_used b \<and> bb_size b' = bb_size b \<and> bb_buf b' = bb_buf b"
proof -
  obtain op cs k where f: "f = frame op cs" "length cs < 65536" "factory_at h op = Inr (Some k)" "reads_as (rd k) cs out"
    using assms(1) by (auto simp: receives_def)
  have u: "bb_unread b = frame op cs @ rest" using assms(3) f(1) by simp
  have "length cs + 3 \<le> length (bb_unread b)" using u by simp
  moreover have "bb_unread (bb_skip (length cs + 3) b) = rest" using u by (simp add: bb_unread_skip)
  moreover have "bb_buf (bb_skip (length cs + 3) b) = bb_buf b" by (simp add: bb_skip_def)
  ultimately show ?thesis
    using handle_frame [where rd = rd and k = k and out = out, OF assms(2) u f(2-4), of addr w] assms(2)
    by (simp add: bb_ok_skip)
qed

lemma receives_nonempty: "receives rd h f out \<Longrightarrow> 3 \<le> length f"
  by (auto simp: receives_def)

text \<open>A proper prefix of a frame that contains its header is kept.\<close>

lemma receives_partial:
  assumes "receives rd h f out" and "bb_ok b" and "bb_unread b = part" and "f = part @ rest" and "rest \<noteq> []"
    and "3 \<le> length part" and "bb_read b = 0" and "length f \<le> bb_size b"
  shows "\<exists>b'. handlePacket rd h addr (w, b) = (Inr None, (w, b')) \<and> bb_ok b' \<and> bb_unread b' = part \<and>
    bb_read b' = 0 \<and> bb_size b' = bb_size b \<and> bb_buf b' \<noteq> None"
proof -
  obtain op cs where f: "f = op # object_bytes 2 (word_of_nat (length cs) :: 16 word) @ cs" "length cs < 65536"
    using assms(1) by (auto simp: receives_def frame_def)
  let ?sz = "word_of_nat (length cs) :: 16 word"
  have three: "length (op # object_bytes 2 ?sz) = 3" by simp
  have "part = (op # object_bytes 2 ?sz) @ drop 3 part"
  proof -
    have "take 3 part = take 3 f" using assms(4,6) by simp
    also have "\<dots> = op # object_bytes 2 ?sz" using f(1) three by simp
    finally show ?thesis by (metis append_take_drop_id)
  qed
  then have u: "bb_unread b = op # object_bytes 2 ?sz @ drop 3 part" using assms(3) by simp
  have "length f = length cs + 3" using f(1) by simp
  then have len: "length (drop 3 part) < length cs" using assms(4-6) by (cases rest) auto
  have buf: "bb_buf b \<noteq> None" using assms(3,6) by (cases "bb_buf b") (auto simp: bb_unread_def)
  have size: "length cs \<le> bb_size b" using assms(8) f(1) by simp
  have "bb_read b = 0 \<or> length (bb_unread b) \<le> bb_read b" using assms(7) by simp
  from compact_spec [OF assms(2) buf this] obtain b' where
    c: "compact b = (Inr (), b')" "bb_ok b'" "bb_unread b' = bb_unread b" "bb_read b' = 0" by blast
  have "bb_size b' = bb_size b"
    using c(1) by (auto simp: compact_def Let_def sx_bind_def sx_seq_def sx_modify_def mem_load_def mem_store_def
        setWritePos_def setReadPos_def split: if_splits option.splits prod.splits sum.splits)
  moreover have "bb_buf b' \<noteq> None" using c(3) assms(3,6) by (cases "bb_buf b'") (auto simp: bb_unread_def)
  ultimately show ?thesis
    unfolding handle_header [OF assms(2) u] Let_def unat_length_16 [OF f(2)]
    using len size assms(3) c by simp
qed

section \<open>An example\<close>

text \<open>A class of packets with opcode 1 and one \<open>short\<close>.\<close>

definition short_handler :: "unit packetHandler" where
  "short_handler = \<lparr>packetFactories = (replicate 256 None)[1 := Some ()]\<rparr>"

definition short_frame :: "16 word \<Rightarrow> byte list" where
  "short_frame s = frame 1 (object_bytes 2 s)"

lemma length_short_frame [simp]: "length (short_frame s) = 5"
  by (simp add: short_frame_def)

lemma short_receives: "receives (\<lambda>_. rp_readShort) short_handler (short_frame s) (\<lambda>w. (s, w))"
  unfolding receives_def
proof (intro exI conjI)
  show "short_frame s = frame 1 (object_bytes 2 s)" by (rule short_frame_def)
  show "factory_at short_handler 1 = Inr (Some ())" by (simp add: short_handler_def factory_at_small)
  show "reads_as rp_readShort (object_bytes 2 s) (\<lambda>w. (s, w))" by (rule reads_bytes_as [OF reads_short])
qed simp

lemma short_sends: "5 < n \<Longrightarrow> sends_frame (writePacket 1 (sp_writeShort s)) (short_frame s) n"
  by (simp add: short_frame_def sends_frame_writePacket writes_short)

lemma ByteBuffer_sized_buf: "0 < n \<Longrightarrow> bb_buf (ByteBuffer_sized fresh n) = Some (map fresh [0..<n])"
  by (simp add: ByteBuffer_sized_def resize_def)

lemma ByteBuffer_default_ok:
  "bb_ok (ByteBuffer_default fresh)" "bb_buf (ByteBuffer_default fresh) \<noteq> None"
  "bb_size (ByteBuffer_default fresh) = 65535" "bb_used (ByteBuffer_default fresh) = 0"
  by (simp_all add: ByteBuffer_default_def ByteBuffer_sized_ok ByteBuffer_sized_buf del: upt_rec_numeral)

end
