(* ===== verification/Fifo.thy ===== *)
theory Fifo
  imports Prelude
begin

text \<open>
  The interface of the queues the program passes work through: the packets waiting on a
  connection, the tasks of a thread pool, the received packets of a client. Each is a state
  with a push at the back and a pop at the front that the code protects by one mutex, so a
  run is a sequence of pushes and pops.
\<close>

datatype 'a fifo_op = Push 'a | Pop

text \<open>A run returns what the pops delivered, in order, and the final state.\<close>

fun fifo_run :: "('a \<Rightarrow> 's \<Rightarrow> 's) \<Rightarrow> ('s \<Rightarrow> 'a option \<times> 's) \<Rightarrow> 'a fifo_op list \<Rightarrow> 's \<Rightarrow> 'a list \<times> 's" where
  "fifo_run push pop [] s = ([], s)"
| "fifo_run push pop (Push x # ops) s = fifo_run push pop ops (push x s)"
| "fifo_run push pop (Pop # ops) s =
     (case pop s of
        (None, s') \<Rightarrow> fifo_run push pop ops s'
      | (Some x, s') \<Rightarrow> (case fifo_run push pop ops s' of (xs, t) \<Rightarrow> (x # xs, t)))"

fun pushed :: "'a fifo_op list \<Rightarrow> 'a list" where
  "pushed [] = []"
| "pushed (Push x # ops) = x # pushed ops"
| "pushed (Pop # ops) = pushed ops"

locale fifo_queue =
  fixes push :: "'a \<Rightarrow> 's \<Rightarrow> 's"
    and pop :: "'s \<Rightarrow> 'a option \<times> 's"
    and items :: "'s \<Rightarrow> 'a list"
  assumes items_push: "items (push x s) = items s @ [x]"
    and pop_empty: "items s = [] \<Longrightarrow> fst (pop s) = None \<and> items (snd (pop s)) = []"
    and pop_first: "items s = x # xs \<Longrightarrow> fst (pop s) = Some x \<and> items (snd (pop s)) = xs"
begin

lemma pop_items: "(case fst (pop s) of None \<Rightarrow> [] | Some x \<Rightarrow> [x]) @ items (snd (pop s)) = items s"
  by (cases "items s") (auto dest: pop_empty pop_first)

text \<open>Nothing is lost, duplicated or reordered.\<close>

lemma fifo_order:
  "fst (fifo_run push pop ops s) @ items (snd (fifo_run push pop ops s)) = items s @ pushed ops"
proof (induction ops arbitrary: s)
  case Nil
  then show ?case by simp
next
  case (Cons op ops)
  show ?case
  proof (cases op)
    case (Push x)
    then show ?thesis by (simp add: Cons.IH items_push)
  next
    case Pop
    then show ?thesis
      using Cons.IH [of "snd (pop s)"] pop_items [of s]
      by (cases "pop s") (auto split: option.splits prod.splits)
  qed
qed

lemma delivered_prefix: "\<exists>rest. items s @ pushed ops = fst (fifo_run push pop ops s) @ rest"
  using fifo_order [of ops s] by metis

end

end
