(* ===== verification/Connection.thy ===== *)
theory Connection
  imports Fifo
begin

text \<open>
  The connection of \<open>ReMoLON_Util/Connection.h\<close> and \<open>src/Connection.cpp\<close>: a socket and the queue
  of packets waiting to be sent, tied to the poll set of the selector thread that owns it.

  \<open>Poco::Net::StreamSocket\<close> and \<open>Poco::Net::PollSet\<close> are not part of the repository. A socket is
  its descriptor (\<open>con_socket\<close>, \<open>None\<close> for a null pointer) and the flag \<open>con_open\<close>; the poll
  set is a value of a type \<open>'ps\<close> changed by \<open>update fd mode\<close>, an argument of the definitions.
  What the code relies on is \<open>pollset_update_ok\<close>: an update sets the mask of its socket and
  of no other. A packet \<open>'p\<close> is whatever a \<open>SendablePacketPtr\<close> points to.

  Every function below runs under \<open>_sendMtx\<close>, so runs are sequences of these steps.
\<close>

datatype poll_flag = POLL_READ | POLL_WRITE | POLL_ERROR

record 'p connection =
  con_socket :: "int option"
  con_open :: bool
  con_sendPackets :: "'p list"
  con_hasPollset :: bool

text \<open>\<open>RawConnection\<close> and \<open>SecureConnection\<close> differ in the socket they create only.\<close>

definition Connection_new :: "int \<Rightarrow> 'p connection" where
  "Connection_new fd = \<lparr>con_socket = Some fd, con_open = True, con_sendPackets = [], con_hasPollset = False\<rparr>"

definition getSockFD :: "'p connection \<Rightarrow> int" where
  "getSockFD c = (case con_socket c of Some fd \<Rightarrow> fd | None \<Rightarrow> - 1)"

text \<open>\<open>peerAddress ( ).host ( ).toString ( )\<close> and its local counterpart, as arguments.\<close>

definition con_clientAddress :: "(int \<Rightarrow> string) \<Rightarrow> 'p connection \<Rightarrow> string" where
  "con_clientAddress peer c = (case con_socket c of Some fd \<Rightarrow> peer fd | None \<Rightarrow> [])"

definition con_localAddress :: "(int \<Rightarrow> string) \<Rightarrow> 'p connection \<Rightarrow> string" where
  "con_localAddress local c = (case con_socket c of Some fd \<Rightarrow> local fd | None \<Rightarrow> [])"

definition setPollSetSource :: "bool \<Rightarrow> 'p connection \<Rightarrow> 'p connection" where
  "setPollSetSource p c = c\<lparr>con_hasPollset := p\<rparr>"

text \<open>\<open>_owningPollset->update ( *_socket, mode )\<close>, which dereferences the socket.\<close>

definition update_poll ::
  "(int \<Rightarrow> poll_flag set \<Rightarrow> 'ps \<Rightarrow> 'ps) \<Rightarrow> poll_flag set \<Rightarrow> ('p connection \<times> 'ps, unit) sx" where
  "update_poll update mode st =
     (case st of (c, ps) \<Rightarrow>
        if con_hasPollset c
        then (case con_socket c of
                None \<Rightarrow> (Inl (UB Null_deref), (c, ps))
              | Some fd \<Rightarrow> (Inr (), (c, update fd mode ps)))
        else (Inr (), (c, ps)))"

definition sendPacket ::
  "(int \<Rightarrow> poll_flag set \<Rightarrow> 'ps \<Rightarrow> 'ps) \<Rightarrow> 'p \<Rightarrow> ('p connection \<times> 'ps, unit) sx" where
  "sendPacket update p =
     sx_seq (sx_modify (\<lambda>(c, ps). (c\<lparr>con_sendPackets := con_sendPackets c @ [p]\<rparr>, ps)))
       (update_poll update {POLL_WRITE, POLL_READ})"

definition pollSendablePacket ::
  "(int \<Rightarrow> poll_flag set \<Rightarrow> 'ps \<Rightarrow> 'ps) \<Rightarrow> ('p connection \<times> 'ps, 'p option) sx" where
  "pollSendablePacket update st =
     (case con_sendPackets (fst st) of
        [] \<Rightarrow> sx_seq (update_poll update {POLL_READ}) (sx_return None) st
      | p # rest \<Rightarrow> (Inr (Some p), ((fst st)\<lparr>con_sendPackets := rest\<rparr>, snd st)))"

definition endConnection :: "'p connection \<Rightarrow> 'p connection" where
  "endConnection c =
     c\<lparr>con_sendPackets := [], con_open := (if con_socket c \<noteq> None then False else con_open c)\<rparr>"

section \<open>The queue of a connection\<close>

definition pollset_update_ok :: "(int \<Rightarrow> poll_flag set \<Rightarrow> 'ps \<Rightarrow> 'ps) \<Rightarrow> ('ps \<Rightarrow> int \<Rightarrow> poll_flag set) \<Rightarrow> bool" where
  "pollset_update_ok update mask_of \<longleftrightarrow>
     (\<forall>fd m ps fd'. mask_of (update fd m ps) fd' = (if fd' = fd then m else mask_of ps fd'))"

text \<open>A step as a total function on the states, for the interface of queues.\<close>

definition con_push :: "(int \<Rightarrow> poll_flag set \<Rightarrow> 'ps \<Rightarrow> 'ps) \<Rightarrow> 'p \<Rightarrow> 'p connection \<times> 'ps \<Rightarrow> 'p connection \<times> 'ps" where
  "con_push update p st = snd (sendPacket update p st)"

definition con_pop :: "(int \<Rightarrow> poll_flag set \<Rightarrow> 'ps \<Rightarrow> 'ps) \<Rightarrow> 'p connection \<times> 'ps \<Rightarrow> 'p option \<times> ('p connection \<times> 'ps)" where
  "con_pop update st =
     (case pollSendablePacket update st of (r, st') \<Rightarrow> (case r of Inl e \<Rightarrow> None | Inr p \<Rightarrow> p, st'))"

lemmas connection_defs = sendPacket_def pollSendablePacket_def update_poll_def con_push_def con_pop_def
  sx_seq_def sx_bind_def sx_modify_def sx_return_def

interpretation con_queue: fifo_queue "con_push update" "con_pop update" "\<lambda>st. con_sendPackets (fst st)"
  for update :: "int \<Rightarrow> poll_flag set \<Rightarrow> 'ps \<Rightarrow> 'ps"
  by unfold_locales (auto simp: connection_defs split: prod.splits option.splits list.splits if_splits)

text \<open>
  While a packet waits on a connection with a poll set, the selector polls the socket for
  writing.
\<close>

definition write_polled :: "('ps \<Rightarrow> int \<Rightarrow> poll_flag set) \<Rightarrow> 'p connection \<times> 'ps \<Rightarrow> bool" where
  "write_polled mask_of st \<longleftrightarrow>
     (case st of (c, ps) \<Rightarrow> con_hasPollset c \<and>
        (\<exists>fd. con_socket c = Some fd \<and> (con_sendPackets c \<noteq> [] \<longrightarrow> POLL_WRITE \<in> mask_of ps fd)))"

lemma write_polled_push:
  "pollset_update_ok update mask_of \<Longrightarrow> write_polled mask_of st \<Longrightarrow> write_polled mask_of (con_push update p st)"
  by (auto simp: write_polled_def pollset_update_ok_def connection_defs split: prod.splits option.splits)

lemma write_polled_pop:
  "write_polled mask_of st \<Longrightarrow> write_polled mask_of (snd (con_pop update st))"
  by (auto simp: write_polled_def connection_defs split: prod.splits option.splits list.splits)

section \<open>Properties\<close>

text \<open>
  Packets leave a connection in the order they were sent, whatever the interleaving
  of senders and the selector: what the polls returned, followed by what still waits, is what
  waited at the start followed by what was sent.
\<close>

theorem connection_fifo:
  "fst (fifo_run (con_push update) (con_pop update) ops st) @
     con_sendPackets (fst (snd (fifo_run (con_push update) (con_pop update) ops st))) =
   con_sendPackets (fst st) @ pushed ops"
  by (rule con_queue.fifo_order)

text \<open>
  No queued packet is stranded: if the poll set keeps the mask it is given, then
  after any sequence of sends and polls a connection with waiting packets is polled for
  writing; and a poll that finds nothing has left a connection with an empty queue.
\<close>

theorem queued_packets_are_polled:
  assumes "pollset_update_ok update mask_of" and "write_polled mask_of st"
  shows "write_polled mask_of (snd (fifo_run (con_push update) (con_pop update) ops st)) \<and>
    (fst (con_pop update st) = None \<longrightarrow> con_sendPackets (fst (snd (con_pop update st))) = [])"
proof
  show "write_polled mask_of (snd (fifo_run (con_push update) (con_pop update) ops st))"
    using assms(2)
  proof (induction ops arbitrary: st)
    case Nil
    then show ?case by simp
  next
    case (Cons op ops)
    show ?case
    proof (cases op)
      case (Push p)
      then show ?thesis
        using Cons.IH [OF write_polled_push [OF assms(1) Cons.prems, of p]] by simp
    next
      case Pop
      then show ?thesis
        using Cons.IH [OF write_polled_pop [OF Cons.prems, of update]]
        by (auto split: prod.splits option.splits)
    qed
  qed
  show "fst (con_pop update st) = None \<longrightarrow> con_sendPackets (fst (snd (con_pop update st))) = []"
    using con_queue.pop_first [of st] con_queue.pop_empty [of st update]
    by (cases "con_sendPackets (fst st)") auto
qed

theorem queued_packets_are_polled_witness:
  "write_polled (\<lambda>ps. ps) (snd (fifo_run (con_push (\<lambda>fd m ps. ps(fd := m))) (con_pop (\<lambda>fd m ps. ps(fd := m)))
     [Push ''a'', Pop, Pop, Push ''b''] (setPollSetSource True (Connection_new 5), \<lambda>_. {})))"
proof -
  have "pollset_update_ok (\<lambda>fd m ps. ps(fd := m)) (\<lambda>ps. ps)" by (simp add: pollset_update_ok_def)
  moreover have "write_polled (\<lambda>ps. ps) (setPollSetSource True (Connection_new 5), \<lambda>_. {})"
    by (simp add: write_polled_def setPollSetSource_def Connection_new_def)
  ultimately show ?thesis using queued_packets_are_polled by blast
qed

end
