(* ===== verification/Client.thy ===== *)
theory Client
  imports Sockets Connection
begin

text \<open>
  The client side of a connection, which a node uses towards the front end:
  \<open>ReMoLON_Util/Client.h\<close> and \<open>src/Client.cpp\<close>.

  Three threads work on the object: one receives, one sends, one executes. Their loops are run on
  what the socket delivers (\<open>recv_loop\<close>) and until they wait (\<open>send_loop\<close>, \<open>exec_loop\<close>). The program
  packets act on is \<open>cl_world\<close>, and \<open>cl_sent\<close> is what was given to \<open>sendBytes\<close>. A client's connection
  has no poll set. An exception that leaves a loop leaves the thread, which ends the program.
  \<open>RawClient\<close> and \<open>SecureClient\<close> differ in the connection they open only; it is an argument of
  \<open>connect\<close>.
\<close>

section \<open>The object\<close>

record ('w, 'q, 'p) client =
  cl_active :: bool
  cl_connectAddress :: string
  cl_connectPort :: "16 word"
  cl_connection :: "'p connection option"
  cl_execQueue :: "'q option list"
  cl_sendBuffer :: bytebuffer
  cl_recvBuffer :: bytebuffer
  cl_world :: 'w
  cl_sent :: "byte list list"

definition Client_new :: "(nat \<Rightarrow> byte) \<Rightarrow> string \<Rightarrow> 16 word \<Rightarrow> 'w \<Rightarrow> ('w, 'q, 'p) client" where
  "Client_new fresh address port w =
     \<lparr>cl_active = False, cl_connectAddress = address, cl_connectPort = port, cl_connection = None,
      cl_execQueue = [], cl_sendBuffer = ByteBuffer_default fresh, cl_recvBuffer = ByteBuffer_default fresh,
      cl_world = w, cl_sent = []\<rparr>"

definition connect :: "'p connection \<Rightarrow> ('w, 'q, 'p) client \<Rightarrow> ('w, 'q, 'p) client" where
  "connect con cl = cl\<lparr>cl_active := True, cl_connection := Some con\<rparr>"

definition no_poll :: "int \<Rightarrow> poll_flag set \<Rightarrow> unit \<Rightarrow> unit" where
  "no_poll fd m u = u"

text \<open>An operation on the connection, which is null before \<open>connect\<close>.\<close>

definition on_client_connection :: "('p connection \<times> unit, 'a) sx \<Rightarrow> (('w, 'q, 'p) client, 'a) sx" where
  "on_client_connection m cl =
     (case cl_connection cl of
        None \<Rightarrow> (Inl (UB Null_deref), cl)
      | Some con \<Rightarrow> (case m (con, ()) of (r, (con', _)) \<Rightarrow> (r, cl\<lparr>cl_connection := Some con'\<rparr>)))"

definition client_sendPacket :: "'p \<Rightarrow> (('w, 'q, 'p) client, unit) sx" where
  "client_sendPacket p = on_client_connection (sendPacket no_poll p)"

definition handleCrash :: "(('w, 'q, 'p) client, unit) sx" where
  "handleCrash cl =
     on_client_connection (\<lambda>(con, u). (Inr (), (endConnection con, u))) (cl\<lparr>cl_active := False\<rparr>)"

definition client_close :: "(('w, 'q, 'p) client, unit) sx" where
  "client_close cl =
     on_client_connection (\<lambda>(con, u). (Inr (), (endConnection con, u))) (cl\<lparr>cl_active := False\<rparr>)"

section \<open>Receiving\<close>

text \<open>A packet that is not complete is a null pointer, and is queued as one.\<close>

definition push_exec :: "'q option \<Rightarrow> ('w, 'q, 'p) client \<Rightarrow> ('w, 'q, 'p) client" where
  "push_exec q cl = cl\<lparr>cl_execQueue := cl_execQueue cl @ [q]\<rparr>"

definition recv_step ::
  "('k \<Rightarrow> ('w \<times> bytebuffer option, 'q) sx) \<Rightarrow> 'k packetHandler \<Rightarrow> string \<Rightarrow> byte list \<Rightarrow>
   (('w, 'q, 'p) client, unit) sx" where
  "recv_step rd h address bs cl =
     (case store_received bs (cl_recvBuffer cl) of
        (Inl e, b) \<Rightarrow> (Inl e, cl\<lparr>cl_recvBuffer := b\<rparr>)
      | (Inr _, b) \<Rightarrow>
          (case handlePacket rd h address (cl_world cl, b) of
             (r, (w, b')) \<Rightarrow>
               (let cl1 = cl\<lparr>cl_world := w, cl_recvBuffer := b'\<rparr> in
                case r of Inl e \<Rightarrow> (Inl e, cl1) | Inr q \<Rightarrow> (Inr (), push_exec q cl1))))"

fun recv_loop ::
  "('k \<Rightarrow> ('w \<times> bytebuffer option, 'q) sx) \<Rightarrow> 'k packetHandler \<Rightarrow> string \<Rightarrow> arrival list \<Rightarrow>
   (('w, 'q, 'p) client, unit) sx" where
  "recv_loop rd h address [] cl = (Inr (), cl)"
| "recv_loop rd h address (a # rs) cl =
     (if \<not> cl_active cl then (Inr (), cl)
      else (let cl1 = cl\<lparr>cl_recvBuffer := reset (cl_recvBuffer cl)\<rparr> in
            case a of
              Net_error \<Rightarrow> (Inl Net_exception, cl1)
            | Received now bs \<Rightarrow>
                (if bs = [] then handleCrash cl1
                 else (case recv_step rd h address bs cl1 of
                         (Inl e, cl2) \<Rightarrow> (Inl e, cl2)
                       | (Inr _, cl2) \<Rightarrow> recv_loop rd h address rs cl2))))"

section \<open>Executing\<close>

definition pop_exec :: "('w, 'q, 'p) client \<Rightarrow> 'q option option \<times> ('w, 'q, 'p) client" where
  "pop_exec cl = (case cl_execQueue cl of [] \<Rightarrow> (None, cl) | q # qs \<Rightarrow> (Some q, cl\<lparr>cl_execQueue := qs\<rparr>))"

lemma pop_exec_shortens:
  "pop_exec cl = (Some q, cl1) \<Longrightarrow> length (cl_execQueue cl1) < length (cl_execQueue cl)"
  by (auto simp: pop_exec_def split: list.splits)

text \<open>\<open>run\<close> is the virtual \<open>run\<close> of a packet. The loop ends where it waits for a packet.\<close>

function exec_loop :: "('q \<Rightarrow> ('w, unit) sx) \<Rightarrow> (('w, 'q, 'p) client, unit) sx" where
  "exec_loop run cl =
     (if \<not> cl_active cl then (Inr (), cl)
      else (case pop_exec cl of
              (None, cl1) \<Rightarrow> (Inr (), cl1)
            | (Some None, cl1) \<Rightarrow> exec_loop run cl1
            | (Some (Some q), cl1) \<Rightarrow>
                (case run q (cl_world cl1) of
                   (Inl e, w) \<Rightarrow> (Inl e, cl1\<lparr>cl_world := w\<rparr>)
                 | (Inr _, w) \<Rightarrow> exec_loop run (cl1\<lparr>cl_world := w\<rparr>))))"
  by pat_completeness auto
termination
  by (relation "measure (\<lambda>(run, cl). length (cl_execQueue cl))")
    (auto dest!: sym [of "(Some _, _)"] pop_exec_shortens)

declare exec_loop.simps [simp del]

interpretation exec_queue: fifo_queue push_exec pop_exec cl_execQueue
  by unfold_locales (auto simp: push_exec_def pop_exec_def split: list.splits)

section \<open>Sending\<close>

lemma poll_queue_shortens:
  "pollSendablePacket update (con, u) = (Inr (Some p), (con1, u1)) \<Longrightarrow>
     length (con_sendPackets con1) < length (con_sendPackets con)"
  by (auto simp: pollSendablePacket_def sx_seq_def sx_bind_def sx_return_def split: list.splits prod.splits sum.splits)

text \<open>The loop ends where it waits for a packet.\<close>

function send_loop :: "('p \<Rightarrow> (bytebuffer option, unit) sx) \<Rightarrow> (('w, 'q, 'p) client, unit) sx" where
  "send_loop writer cl =
     (if \<not> cl_active cl then (Inr (), cl)
      else (case cl_connection cl of
              None \<Rightarrow> (Inl (UB Null_deref), cl)
            | Some con \<Rightarrow>
                (case pollSendablePacket no_poll (con, ()) of
                   (Inl e, (con1, _)) \<Rightarrow> (Inl e, cl\<lparr>cl_connection := Some con1\<rparr>)
                 | (Inr None, (con1, _)) \<Rightarrow> (Inr (), cl\<lparr>cl_connection := Some con1\<rparr>)
                 | (Inr (Some p), (con1, _)) \<Rightarrow>
                     (let cl1 = cl\<lparr>cl_connection := Some con1, cl_sendBuffer := reset (cl_sendBuffer cl)\<rparr> in
                      case writer p (Some (cl_sendBuffer cl1)) of
                        (Inl e, _) \<Rightarrow> (Inl e, cl1)
                      | (Inr _, None) \<Rightarrow> (Inl (UB Null_deref), cl1)
                      | (Inr _, Some b) \<Rightarrow>
                          (let cl2 = cl1\<lparr>cl_sendBuffer := b\<rparr> in
                           case fst (mem_load 0 (getUsedSize b) b) of
                             Inl e \<Rightarrow> (Inl e, cl2)
                           | Inr bs \<Rightarrow> send_loop writer (cl2\<lparr>cl_sent := cl_sent cl2 @ [bs]\<rparr>))))))"
  by pat_completeness auto

termination
  by (relation "measure (\<lambda>(writer, cl). case cl_connection cl of None \<Rightarrow> 0 | Some con \<Rightarrow> length (con_sendPackets con))")
    (auto dest!: sym [of "(Inr (Some _), _)"] poll_queue_shortens)

declare send_loop.simps [simp del]

section \<open>Lemmas\<close>

lemma recv_frame:
  assumes "receives rd h f out" and "bb_ok (cl_recvBuffer cl)" and "bb_buf (cl_recvBuffer cl) \<noteq> None"
    and "bb_used (cl_recvBuffer cl) = 0" and "bb_read (cl_recvBuffer cl) = 0"
    and "length (f @ g) \<le> bb_size (cl_recvBuffer cl)"
  shows "\<exists>b. recv_step rd h address (f @ g) cl =
      (Inr (), push_exec (Some (fst (out (cl_world cl)))) (cl\<lparr>cl_world := snd (out (cl_world cl)), cl_recvBuffer := b\<rparr>)) \<and>
    bb_ok b \<and> bb_buf b \<noteq> None \<and> bb_size b = bb_size (cl_recvBuffer cl)"
proof -
  let ?b = "bb_append (f @ g) (cl_recvBuffer cl)"
  have e: "bb_unread (cl_recvBuffer cl) = []"
    using assms(4) by (auto simp: bb_unread_def split: option.splits)
  have st: "store_received (f @ g) (cl_recvBuffer cl) = (Inr (), ?b)" "bb_ok ?b" "bb_unread ?b = f @ g"
    using store_received_ok [of "cl_recvBuffer cl" "f @ g"] assms(2-6) e by auto
  obtain b where h: "handlePacket rd h address (cl_world cl, ?b) =
      (Inr (Some (fst (out (cl_world cl)))), (snd (out (cl_world cl)), b))" "bb_ok b" "bb_size b = bb_size ?b"
      "bb_buf b = bb_buf ?b"
    using receives_handle [OF assms(1) st(2,3), of address "cl_world cl"] by auto
  have "bb_buf ?b \<noteq> None" using assms(3) by (simp add: bb_append_def)
  then show ?thesis using h by (intro exI [of _ b]) (simp add: recv_step_def st(1) Let_def)
qed

text \<open>What the packets at the front of the receive calls are, and what reading them does.\<close>

fun first_packets :: "(int \<times> byte list \<times> ('w \<Rightarrow> 'q \<times> 'w) \<times> byte list) list \<Rightarrow> 'w \<Rightarrow> 'q list \<times> 'w" where
  "first_packets [] w = ([], w)"
| "first_packets ((now, f, out, g) # fs) w =
     (case first_packets fs (snd (out w)) of (qs, w') \<Rightarrow> (fst (out w) # qs, w'))"

definition cl_listening :: "('w, 'q, 'p) client \<Rightarrow> bool" where
  "cl_listening cl \<longleftrightarrow> cl_active cl \<and> bb_ok (cl_recvBuffer cl) \<and> bb_buf (cl_recvBuffer cl) \<noteq> None"

lemma recv_loop_frame:
  assumes "cl_listening cl" and "receives rd h f out" and "length (f @ g) \<le> bb_size (cl_recvBuffer cl)"
  shows "\<exists>b. recv_loop rd h address (Received now (f @ g) # rs) cl =
      recv_loop rd h address rs (push_exec (Some (fst (out (cl_world cl))))
        (cl\<lparr>cl_world := snd (out (cl_world cl)), cl_recvBuffer := b\<rparr>)) \<and>
    bb_ok b \<and> bb_buf b \<noteq> None \<and> bb_size b = bb_size (cl_recvBuffer cl)"
proof -
  let ?cl = "cl\<lparr>cl_recvBuffer := reset (cl_recvBuffer cl)\<rparr>"
  have ne: "f \<noteq> []" using receives_nonempty [OF assms(2)] by auto
  have b: "bb_ok (cl_recvBuffer ?cl)" "bb_buf (cl_recvBuffer ?cl) \<noteq> None" "bb_used (cl_recvBuffer ?cl) = 0"
    "bb_read (cl_recvBuffer ?cl) = 0" "length (f @ g) \<le> bb_size (cl_recvBuffer ?cl)"
    using assms by (auto simp: cl_listening_def reset_ok) (simp add: reset_def)
  from recv_frame [OF assms(2) b, of address] show ?thesis
    using assms(1) ne by (auto simp: Let_def cl_listening_def)
qed

lemma recv_loop_frames:
  assumes "cl_listening cl"
    and "\<forall>(now, f, out, g)\<in>set fs. receives rd h f out \<and> length (f @ g) \<le> bb_size (cl_recvBuffer cl)"
  shows "\<exists>cl'. recv_loop rd h address (map (\<lambda>(now, f, out, g). Received now (f @ g)) fs) cl = (Inr (), cl') \<and>
    cl_execQueue cl' = cl_execQueue cl @ map Some (fst (first_packets fs (cl_world cl))) \<and>
    cl_world cl' = snd (first_packets fs (cl_world cl)) \<and> cl_listening cl' \<and> cl_connection cl' = cl_connection cl"
  using assms
proof (induction fs arbitrary: cl)
  case Nil
  then show ?case by simp
next
  case (Cons x fs)
  obtain now f out g where x: "x = (now, f, out, g)" by (cases x)
  have r: "receives rd h f out" "length (f @ g) \<le> bb_size (cl_recvBuffer cl)" using Cons.prems(2) x by auto
  from recv_loop_frame [OF Cons.prems(1) r, of address now "map (\<lambda>(now, f, out, g). Received now (f @ g)) fs"] obtain b
    where b: "recv_loop rd h address (map (\<lambda>(now, f, out, g). Received now (f @ g)) (x # fs)) cl =
      recv_loop rd h address (map (\<lambda>(now, f, out, g). Received now (f @ g)) fs)
        (push_exec (Some (fst (out (cl_world cl)))) (cl\<lparr>cl_world := snd (out (cl_world cl)), cl_recvBuffer := b\<rparr>))"
      "bb_ok b" "bb_buf b \<noteq> None" "bb_size b = bb_size (cl_recvBuffer cl)"
    unfolding x list.map prod.case by blast
  let ?cl = "push_exec (Some (fst (out (cl_world cl)))) (cl\<lparr>cl_world := snd (out (cl_world cl)), cl_recvBuffer := b\<rparr>)"
  have l: "cl_listening ?cl" using Cons.prems(1) b by (simp add: cl_listening_def push_exec_def)
  have "\<forall>(now, f, out, g)\<in>set fs. receives rd h f out \<and> length (f @ g) \<le> bb_size (cl_recvBuffer ?cl)"
    using Cons.prems(2) b(4) by (auto simp: push_exec_def)
  from Cons.IH [OF l this] show ?case
    unfolding b(1) by (auto simp: x push_exec_def split: prod.splits)
qed

text \<open>The execution of a list of packets, the null ones skipped.\<close>

fun run_all :: "('q \<Rightarrow> ('w, unit) sx) \<Rightarrow> 'q option list \<Rightarrow> ('w, unit) sx" where
  "run_all run [] w = (Inr (), w)"
| "run_all run (None # qs) w = run_all run qs w"
| "run_all run (Some q # qs) w = sx_seq (run q) (run_all run qs) w"

lemma exec_loop_run_all:
  "cl_active cl \<Longrightarrow> run_all run (cl_execQueue cl) (cl_world cl) = (Inr (), w) \<Longrightarrow>
     exec_loop run cl = (Inr (), cl\<lparr>cl_execQueue := [], cl_world := w\<rparr>)"
proof (induction "cl_execQueue cl" arbitrary: cl)
  case Nil
  then show ?case by (subst exec_loop.simps) (simp add: pop_exec_def)
next
  case (Cons q qs)
  have queue: "cl_execQueue cl = q # qs" using Cons.hyps(2) by simp
  then have pop: "pop_exec cl = (Some q, cl\<lparr>cl_execQueue := qs\<rparr>)" by (simp add: pop_exec_def)
  show ?case
  proof (cases q)
    case None
    have "exec_loop run (cl\<lparr>cl_execQueue := qs\<rparr>) =
        (Inr (), cl\<lparr>cl_execQueue := qs\<rparr>\<lparr>cl_execQueue := [], cl_world := w\<rparr>)"
      by (rule Cons.hyps(1)) (use Cons.prems queue None in simp_all)
    then show ?thesis using Cons.prems(1) by (subst exec_loop.simps) (simp add: pop None)
  next
    case (Some p)
    then obtain w1 where w1: "run p (cl_world cl) = (Inr (), w1)" "run_all run qs w1 = (Inr (), w)"
      using Cons.prems(2) queue by (auto simp: sx_seq_def sx_bind_def split: prod.splits sum.splits)
    have "exec_loop run (cl\<lparr>cl_execQueue := qs, cl_world := w1\<rparr>) =
        (Inr (), cl\<lparr>cl_execQueue := qs, cl_world := w1\<rparr>\<lparr>cl_execQueue := [], cl_world := w\<rparr>)"
      by (rule Cons.hyps(1)) (use Cons.prems(1) w1 in simp_all)
    then show ?thesis using Cons.prems(1) w1(1) by (subst exec_loop.simps) (simp add: pop Some)
  qed
qed

lemma sends_frame_written:
  assumes "bb_ok b" and "sends_frame w f (bb_size b)"
  shows "w (Some (reset b)) = (Inr (), Some (bb_append f (reset b)))" and "bb_ok (bb_append f (reset b))"
    and "fst (mem_load 0 (getUsedSize (bb_append f (reset b))) (bb_append f (reset b))) = Inr f"
proof -
  have okr: "bb_ok (reset b)" using assms(1) by (rule reset_ok)
  show "w (Some (reset b)) = (Inr (), Some (bb_append f (reset b)))" and okb: "bb_ok (bb_append f (reset b))"
    using assms(2) okr by (auto simp: sends_frame_def bb_ok_append)
  have room: "bb_room (length f) (reset b)" using assms(2) okr by (auto simp: sends_frame_def)
  show "fst (mem_load 0 (getUsedSize (bb_append f (reset b))) (bb_append f (reset b))) = Inr f"
    using bytes_to_send_reset [OF okb] bb_written_append [OF okr room] by (simp add: bytes_to_send_def getReadPos_def)
qed

lemma send_loop_frames:
  assumes "cl_active cl" and "cl_connection cl = Some con" and "\<not> con_hasPollset con"
    and "\<forall>p\<in>set (con_sendPackets con). sends_frame (writer p) (frame_of p) (bb_size (cl_sendBuffer cl))"
    and "bb_ok (cl_sendBuffer cl)"
  shows "\<exists>cl'. send_loop writer cl = (Inr (), cl') \<and> cl_sent cl' = cl_sent cl @ map frame_of (con_sendPackets con) \<and>
    cl_connection cl' = Some (con\<lparr>con_sendPackets := []\<rparr>)"
  using assms
proof (induction "con_sendPackets con" arbitrary: con cl)
  case Nil
  have "pollSendablePacket no_poll (con, ()) = (Inr None, (con, ()))"
    using Nil by (simp add: pollSendablePacket_def update_poll_def sx_seq_def sx_bind_def sx_return_def)
  then show ?case using Nil by (subst send_loop.simps) simp
next
  case (Cons p qs)
  let ?con = "con\<lparr>con_sendPackets := qs\<rparr>"
  have queue: "con_sendPackets con = p # qs" using Cons.hyps(2) by simp
  have poll: "pollSendablePacket no_poll (con, ()) = (Inr (Some p), (?con, ()))"
    using queue by (simp add: pollSendablePacket_def)
  let ?r = "reset (cl_sendBuffer cl)" and ?b = "bb_append (frame_of p) (reset (cl_sendBuffer cl))"
  have "sends_frame (writer p) (frame_of p) (bb_size (cl_sendBuffer cl))" using Cons.prems(4) queue by simp
  from sends_frame_written [OF Cons.prems(5) this]
  have w: "writer p (Some ?r) = (Inr (), Some ?b)" and okb: "bb_ok ?b"
    and load: "fst (mem_load 0 (bb_used ?b) ?b) = Inr (frame_of p)"
    by (simp_all add: getUsedSize_def)
  let ?cl = "cl\<lparr>cl_connection := Some ?con, cl_sendBuffer := ?b, cl_sent := cl_sent cl @ [frame_of p]\<rparr>"
  have "\<exists>cl'. send_loop writer ?cl = (Inr (), cl') \<and> cl_sent cl' = cl_sent ?cl @ map frame_of (con_sendPackets ?con) \<and>
    cl_connection cl' = Some (?con\<lparr>con_sendPackets := []\<rparr>)"
    by (rule Cons.hyps(1)) (use Cons.prems queue okb in simp_all)
  then show ?case
    using Cons.prems(1,2) queue load
    by (subst send_loop.simps) (simp add: poll w Let_def getUsedSize_def)
qed

section \<open>Properties\<close>

text \<open>
  A client takes exactly one packet from every receive call, the first, in order: with a frame at
  the front of each call, the packets of these frames are executed one after the other. Whatever
  else a call brought, further packets included, is discarded.
\<close>

theorem client_executes_first_packets:
  assumes "cl_listening cl" and "cl_execQueue cl = []"
    and "\<forall>(now, f, out, g)\<in>set fs. receives rd h f out \<and> length (f @ g) \<le> bb_size (cl_recvBuffer cl)"
    and "run_all run (map Some (fst (first_packets fs (cl_world cl)))) (snd (first_packets fs (cl_world cl))) = (Inr (), w)"
  shows "\<exists>cl1 cl2. recv_loop rd h address (map (\<lambda>(now, f, out, g). Received now (f @ g)) fs) cl = (Inr (), cl1) \<and>
    exec_loop run cl1 = (Inr (), cl2) \<and> cl_world cl2 = w \<and> cl_execQueue cl2 = []"
proof -
  from recv_loop_frames [OF assms(1,3), of address] obtain cl1 where
    r: "recv_loop rd h address (map (\<lambda>(now, f, out, g). Received now (f @ g)) fs) cl = (Inr (), cl1)"
      "cl_execQueue cl1 = map Some (fst (first_packets fs (cl_world cl)))"
      "cl_world cl1 = snd (first_packets fs (cl_world cl))" "cl_listening cl1"
    using assms(2) by auto
  have "exec_loop run cl1 = (Inr (), cl1\<lparr>cl_execQueue := [], cl_world := w\<rparr>)"
    using r assms(4) by (intro exec_loop_run_all) (simp_all add: cl_listening_def)
  with r(1) show ?thesis by auto
qed

text \<open>
  A client does not survive a packet it does not know: a complete frame of an opcode below 128
  that no class is registered for ends the receiving thread, and the program, with an exception.
\<close>

theorem unknown_packet_ends_client:
  assumes "cl_listening cl" and "length cs < 65536" and "factory_at h op = Inr None"
    and "length cs + 3 \<le> bb_size (cl_recvBuffer cl)"
  shows "fst (recv_loop rd h address (Received now (frame op cs) # rs) cl) = Inl (unknown_packet op address)"
proof -
  let ?b = "reset (cl_recvBuffer cl)"
  let ?b1 = "bb_append (frame op cs) ?b"
  have "bb_buf ?b \<noteq> None" using assms(1) by (simp add: cl_listening_def reset_def)
  then have st: "store_received (frame op cs) ?b = (Inr (), ?b1)" "bb_ok ?b1" "bb_unread ?b1 = frame op cs"
    using store_received_ok [of ?b "frame op cs"] assms(1,4) reset_ok [of "cl_recvBuffer cl"]
    by (auto simp: cl_listening_def)
  have u: "bb_unread ?b1 = op # object_bytes 2 (word_of_nat (length cs) :: 16 word) @ cs"
    using st(3) by (simp add: frame_def)
  have "handlePacket rd h address (cl_world cl, ?b1) = (Inl (unknown_packet op address), (cl_world cl, bb_skip 3 ?b1))"
    unfolding handle_header [OF st(2) u] Let_def unat_length_16 [OF assms(2)] using assms(3,4) by simp
  then show ?thesis
    using assms(1) by (simp add: cl_listening_def Let_def recv_step_def st(1) frame_def [symmetric])
      (simp add: frame_def)
qed

text \<open>
  Sending: every packet queued on the connection is given to the socket as its frame, one call
  each, in order, and the queue is empty afterwards, provided the frame fits the buffer.
\<close>

theorem client_sends_frames:
  assumes "cl_active cl" and "cl_connection cl = Some con" and "\<not> con_hasPollset con" and "bb_ok (cl_sendBuffer cl)"
    and "\<forall>p\<in>set (con_sendPackets con). sends_frame (writer p) (frame_of p) (bb_size (cl_sendBuffer cl))"
  shows "\<exists>cl'. send_loop writer cl = (Inr (), cl') \<and> cl_sent cl' = cl_sent cl @ map frame_of (con_sendPackets con) \<and>
    cl_connection cl' = Some (con\<lparr>con_sendPackets := []\<rparr>)"
  by (rule send_loop_frames) (use assms in simp_all)

text \<open>An example: a client whose program collects the shorts it executes.\<close>

definition short_client :: "(16 word list, 16 word, 16 word) client" where
  "short_client = connect ((Connection_new 3)\<lparr>con_sendPackets := [4, 5]\<rparr>) (Client_new (\<lambda>_. 0) ''10.0.0.1'' 9000 [])"

lemma short_client_listening: "cl_listening short_client" "bb_size (cl_recvBuffer short_client) = 65535"
  "cl_execQueue short_client = []" "cl_world short_client = []"
  by (simp_all add: cl_listening_def short_client_def connect_def Client_new_def ByteBuffer_default_ok)

theorem client_executes_first_packets_witness:
  "\<exists>cl1 cl2. recv_loop (\<lambda>_. rp_readShort) short_handler ''10.0.0.1''
      [Received 0 (short_frame 7 @ short_frame 8), Received 0 (short_frame 9)] short_client = (Inr (), cl1) \<and>
    exec_loop (\<lambda>s w. (Inr (), w @ [s])) cl1 = (Inr (), cl2) \<and> cl_world cl2 = [7, 9]"
proof -
  let ?fs = "[(0, short_frame 7, \<lambda>w. (7, w), short_frame 8), (0, short_frame 9, \<lambda>w. (9, w), [])]
    :: (int \<times> byte list \<times> (16 word list \<Rightarrow> 16 word \<times> 16 word list) \<times> byte list) list"
  have r: "\<forall>(now, f, out, g)\<in>set ?fs. receives (\<lambda>_. rp_readShort) short_handler f out \<and>
      length (f @ g) \<le> bb_size (cl_recvBuffer short_client)"
    by (simp add: short_receives short_client_listening)
  have "run_all (\<lambda>s w. (Inr (), w @ [s])) (map Some (fst (first_packets ?fs (cl_world short_client))))
      (snd (first_packets ?fs (cl_world short_client))) = (Inr (), [7, 9])"
    by (simp add: short_client_listening sx_seq_def sx_bind_def)
  from client_executes_first_packets [OF short_client_listening(1,3) r this, of "''10.0.0.1''"] show ?thesis by auto
qed

theorem unknown_packet_ends_client_witness:
  "fst (recv_loop (\<lambda>_. rp_readShort) short_handler ''10.0.0.1'' [Received 0 (frame 9 [])] short_client) =
     Inl (unknown_packet 9 ''10.0.0.1'')"
  by (rule unknown_packet_ends_client)
    (simp_all add: short_client_listening short_handler_def factory_at_small)

theorem client_sends_frames_witness:
  "\<exists>cl'. send_loop (\<lambda>s. writePacket 1 (sp_writeShort s)) short_client = (Inr (), cl') \<and>
    cl_sent cl' = [short_frame 4, short_frame 5]"
proof -
  have c: "cl_connection short_client = Some ((Connection_new 3)\<lparr>con_sendPackets := [4, 5]\<rparr>)"
    "cl_active short_client" "bb_ok (cl_sendBuffer short_client)" "bb_size (cl_sendBuffer short_client) = 65535"
    "cl_sent short_client = []"
    by (simp_all add: short_client_def connect_def Client_new_def ByteBuffer_default_ok)
  have "\<forall>p\<in>set (con_sendPackets ((Connection_new 3)\<lparr>con_sendPackets := [4, 5]\<rparr>)).
      sends_frame (writePacket 1 (sp_writeShort p)) (short_frame p) (bb_size (cl_sendBuffer short_client))"
    by (simp add: short_sends c(4))
  from client_sends_frames [OF c(2,1) _ c(3) this] show ?thesis
    by (auto simp: c(5) Connection_new_def)
qed

end
