(* ===== verification/ThreadPool.thy ===== *)
theory ThreadPool
  imports Fifo
begin

text \<open>
  The thread pool of \<open>ReMoLON_Util/ThreadPool.h\<close>, which executes the packets a server receives.

  Workers are entries of the list \<open>_pool\<close>. Submitting a task runs under \<open>_mtx\<close>, and so does the
  part of \<open>threadLoop\<close> that takes a task from the queue, so a run is a sequence of these steps
  (\<open>tp_step\<close>). \<open>currentTimeMillis\<close> is an argument \<open>now\<close>; \<open>long\<close> is an \<open>int\<close>, as no time comes
  near its bounds. Erasing the element an iterator points to and using the iterator again is
  the error \<open>UB Invalid_iterator\<close>.
\<close>

section \<open>The pool\<close>

record workerThread =
  wt_lastActiveTime :: int
  wt_active :: bool
  wt_terminated :: bool
  wt_joinable :: bool

record 't threadPool =
  tp_pool :: "workerThread list"
  tp_tasks :: "'t list"
  tp_minPoolSize :: "32 word"
  tp_maxPoolSize :: int
  tp_currentPoolSize :: "32 word"
  tp_maxIdleTimeMilis :: int
  tp_maxQueueSize :: "64 word"
  tp_active :: bool

text \<open>The thread of a new worker is detached at once, so it is not joinable.\<close>

definition createWorker :: "int \<Rightarrow> 't threadPool \<Rightarrow> 't threadPool" where
  "createWorker now tp =
     tp\<lparr>tp_pool := tp_pool tp @
          [\<lparr>wt_lastActiveTime = now, wt_active = True, wt_terminated = False, wt_joinable = False\<rparr>],
        tp_currentPoolSize := tp_currentPoolSize tp + 1\<rparr>"

fun create_workers :: "nat \<Rightarrow> int \<Rightarrow> 't threadPool \<Rightarrow> 't threadPool" where
  "create_workers 0 now tp = tp"
| "create_workers (Suc n) now tp = create_workers n now (createWorker now tp)"

text \<open>
  \<open>derived\<close> is the compile-time test that the task class is a \<open>Runnable\<close>, \<open>name\<close> what \<open>typeid\<close> says of
  it. The constructors are for task classes that pass the test, as \<open>ReceivablePacket\<close> does.
\<close>

definition initializeThreadPool :: "bool \<Rightarrow> string \<Rightarrow> int \<Rightarrow> ('t threadPool, unit) sx" where
  "initializeThreadPool derived name now tp =
     (if derived then (Inr (), create_workers (unat (tp_minPoolSize tp)) now tp)
      else (Inl (Runtime_error
        (''ThreadPool: The template argument is not a sublcass of runnable: '' @ name)), tp))"

definition ThreadPool_sized :: "int \<Rightarrow> int \<Rightarrow> int \<Rightarrow> int \<Rightarrow> int \<Rightarrow> 't threadPool" where
  "ThreadPool_sized now poolSize maxPoolSize maxIdleTimeMilis maxQueueSize =
     snd (initializeThreadPool True [] now
       \<lparr>tp_pool = [], tp_tasks = [], tp_minPoolSize = word_of_int poolSize, tp_maxPoolSize = maxPoolSize,
        tp_currentPoolSize = 0, tp_maxIdleTimeMilis = maxIdleTimeMilis,
        tp_maxQueueSize = word_of_int maxQueueSize, tp_active = True\<rparr>)"

definition ThreadPool_new :: "int \<Rightarrow> 't threadPool" where
  "ThreadPool_new now =
     snd (initializeThreadPool True [] now
       \<lparr>tp_pool = [], tp_tasks = [], tp_minPoolSize = 8, tp_maxPoolSize = 16, tp_currentPoolSize = 0,
        tp_maxIdleTimeMilis = 60000, tp_maxQueueSize = 256, tp_active = True\<rparr>)"

section \<open>Submitting a task\<close>

text \<open>
  The loop of \<open>purgeIdleThreads\<close> over what is left of the pool. A terminated worker is erased
  and the loop goes on with the iterator to it.
\<close>

fun purge_loop ::
  "int \<Rightarrow> int \<Rightarrow> 32 word \<Rightarrow> 32 word \<Rightarrow> workerThread list \<Rightarrow> cpp_error + 32 word \<times> workerThread list" where
  "purge_loop now maxIdle minSize current [] = Inr (current, [])"
| "purge_loop now maxIdle minSize current (wt # ws) =
     (if \<not> minSize < current then Inr (current, wt # ws)
      else if wt_terminated wt then Inl (UB Invalid_iterator)
      else (let diff = now - wt_lastActiveTime wt;
                (current', wt') =
                  (if diff > maxIdle then (current - 1, wt\<lparr>wt_active := False\<rparr>) else (current, wt))
            in map_sum id (map_prod id ((#) wt')) (purge_loop now maxIdle minSize current' ws)))"

definition purgeIdleThreads :: "int \<Rightarrow> ('t threadPool, unit) sx" where
  "purgeIdleThreads now tp =
     (case purge_loop now (tp_maxIdleTimeMilis tp) (tp_minPoolSize tp) (tp_currentPoolSize tp) (tp_pool tp) of
        Inl e \<Rightarrow> (Inl e, tp)
      | Inr (current, pool) \<Rightarrow> (Inr (), tp\<lparr>tp_currentPoolSize := current, tp_pool := pool\<rparr>))"

definition queue_full :: cpp_error where
  "queue_full = Runtime_error ''ThreadPool: cannot accept new tasks - reached tasks queue max capacity ''"

definition push_task :: "'t \<Rightarrow> 't threadPool \<Rightarrow> 't threadPool" where
  "push_task task tp = tp\<lparr>tp_tasks := tp_tasks tp @ [task]\<rparr>"

definition executeTask :: "int \<Rightarrow> 't \<Rightarrow> ('t threadPool, unit) sx" where
  "executeTask now task tp =
     (if length (tp_tasks tp) \<ge> unat (tp_maxQueueSize tp) then (Inl queue_full, tp)
      else sx_seq
        (\<lambda>tp. if length (tp_tasks tp) > unat (tp_currentPoolSize tp) then (Inr (), createWorker now tp)
              else if tp_currentPoolSize tp > tp_minPoolSize tp then purgeIdleThreads now tp
              else (Inr (), tp))
        (sx_modify (push_task task)) tp)"

section \<open>The loop of a worker\<close>

text \<open>
  \<open>take_task\<close> is a pass through the locked part of the loop body that finds a task, and records
  the time of the activity; \<open>end_worker\<close> is what follows the loop.
\<close>

definition pop_task :: "'t threadPool \<Rightarrow> 't option \<times> 't threadPool" where
  "pop_task tp =
     (case tp_tasks tp of [] \<Rightarrow> (None, tp) | task # ts \<Rightarrow> (Some task, tp\<lparr>tp_tasks := ts\<rparr>))"

definition take_task :: "nat \<Rightarrow> int \<Rightarrow> 't threadPool \<Rightarrow> 't option \<times> 't threadPool" where
  "take_task i now tp =
     (case pop_task tp of
        (None, tp') \<Rightarrow> (None, tp')
      | (Some task, tp') \<Rightarrow>
          (Some task, tp'\<lparr>tp_pool := (tp_pool tp')[i := (tp_pool tp' ! i)\<lparr>wt_lastActiveTime := now\<rparr>]\<rparr>))"

definition end_worker :: "nat \<Rightarrow> 't threadPool \<Rightarrow> 't threadPool" where
  "end_worker i tp = tp\<lparr>tp_pool := (tp_pool tp)[i := (tp_pool tp ! i)\<lparr>wt_terminated := True\<rparr>]\<rparr>"

text \<open>\<open>shutDown\<close>: the result lists the workers it waited for.\<close>

definition tp_shutDown :: "'t threadPool \<Rightarrow> workerThread list \<times> 't threadPool" where
  "tp_shutDown tp = (filter wt_joinable (tp_pool tp), tp\<lparr>tp_active := False, tp_tasks := [], tp_pool := []\<rparr>)"

section \<open>Runs\<close>

text \<open>
  The events of a run: a task was accepted, refused, or started by a worker. A worker may take a
  task as long as it has not terminated, even after it was told to finish, because the flag is
  tested before it waits for the lock.
\<close>

datatype 't tp_event = Accepted 't | Refused 't | Started 't | Ended

inductive tp_step :: "'t threadPool \<Rightarrow> 't tp_event \<Rightarrow> 't threadPool \<Rightarrow> bool" where
  accept: "executeTask now task tp = (Inr (), tp') \<Longrightarrow> tp_step tp (Accepted task) tp'"
| refuse: "executeTask now task tp = (Inl (Runtime_error m), tp') \<Longrightarrow> tp_step tp (Refused task) tp'"
| start: "i < length (tp_pool tp) \<Longrightarrow> \<not> wt_terminated (tp_pool tp ! i) \<Longrightarrow>
    take_task i now tp = (Some task, tp') \<Longrightarrow> tp_step tp (Started task) tp'"
| finish: "i < length (tp_pool tp) \<Longrightarrow> \<not> (tp_active tp \<and> wt_active (tp_pool tp ! i)) \<Longrightarrow>
    tp_step tp Ended (end_worker i tp)"

inductive tp_run :: "'t threadPool \<Rightarrow> 't tp_event list \<Rightarrow> 't threadPool \<Rightarrow> bool" where
  nil: "tp_run tp [] tp"
| cons: "tp_step tp e tp1 \<Longrightarrow> tp_run tp1 es tp2 \<Longrightarrow> tp_run tp (e # es) tp2"

inductive_simps tp_run_simps [simp]: "tp_run tp [] tp'" "tp_run tp (e # es) tp'"

fun accepted :: "'t tp_event list \<Rightarrow> 't list" where
  "accepted [] = []"
| "accepted (Accepted t # es) = t # accepted es"
| "accepted (_ # es) = accepted es"

fun started :: "'t tp_event list \<Rightarrow> 't list" where
  "started [] = []"
| "started (Started t # es) = t # started es"
| "started (_ # es) = started es"

interpretation task_queue: fifo_queue push_task pop_task tp_tasks
  by unfold_locales (auto simp: push_task_def pop_task_def split: list.splits)

section \<open>Lemmas\<close>

lemma createWorker_simps [simp]:
  "tp_tasks (createWorker now tp) = tp_tasks tp"
  "tp_pool (createWorker now tp) = tp_pool tp @
     [\<lparr>wt_lastActiveTime = now, wt_active = True, wt_terminated = False, wt_joinable = False\<rparr>]"
  "tp_currentPoolSize (createWorker now tp) = tp_currentPoolSize tp + 1"
  "tp_minPoolSize (createWorker now tp) = tp_minPoolSize tp"
  "tp_maxPoolSize (createWorker now tp) = tp_maxPoolSize tp"
  "tp_maxQueueSize (createWorker now tp) = tp_maxQueueSize tp"
  "tp_maxIdleTimeMilis (createWorker now tp) = tp_maxIdleTimeMilis tp"
  "tp_active (createWorker now tp) = tp_active tp"
  by (simp_all add: createWorker_def)

lemma purgeIdleThreads_keeps:
  "purgeIdleThreads now tp = (r, tp') \<Longrightarrow> tp_tasks tp' = tp_tasks tp \<and> tp_maxQueueSize tp' = tp_maxQueueSize tp"
  by (auto simp: purgeIdleThreads_def split: sum.splits)

text \<open>An accepted task goes to the end of the queue and the bound is kept; a refused one changes nothing.\<close>

lemma executeTask_accepted:
  assumes "executeTask now task tp = (Inr (), tp')"
  shows "tp_tasks tp' = tp_tasks tp @ [task]" and "length (tp_tasks tp) < unat (tp_maxQueueSize tp)"
    and "tp_maxQueueSize tp' = tp_maxQueueSize tp"
  using assms
  by (auto simp: executeTask_def sx_seq_def sx_bind_def sx_modify_def push_task_def
      split: if_splits sum.splits prod.splits dest!: purgeIdleThreads_keeps)

lemma map_sum_eq_Inl: "map_sum f g x = Inl e \<longleftrightarrow> (\<exists>e'. x = Inl e' \<and> e = f e')"
  by (cases x) auto

lemma purge_loop_error: "purge_loop now mi ms c ws = Inl e \<Longrightarrow> e = UB Invalid_iterator"
  by (induction now mi ms c ws rule: purge_loop.induct) (auto simp: Let_def map_sum_eq_Inl split: if_splits)

text \<open>The workers the loop counts as idle on its way.\<close>

definition idle :: "int \<Rightarrow> int \<Rightarrow> workerThread \<Rightarrow> bool" where
  "idle now maxIdle wt \<longleftrightarrow> now - wt_lastActiveTime wt > maxIdle"

lemma purge_loop_dead:
  assumes "wt_terminated w" and "\<forall>x\<in>set ws. \<not> wt_terminated x"
    and "unat ms + length (filter (idle now mi) ws) < unat c"
  shows "purge_loop now mi ms c (ws @ w # rest) = Inl (UB Invalid_iterator)"
  using assms(2,3)
proof (induction ws arbitrary: c)
  case Nil
  then show ?case using assms(1) by (simp add: word_less_nat_alt)
next
  case (Cons x xs)
  have lt: "ms < c" using Cons.prems(2) by (simp add: word_less_nat_alt)
  show ?case
  proof (cases "idle now mi x")
    case True
    have "unat (c - 1) = unat c - 1" using lt by (metis unat_minus_one word_not_simps(1))
    then have "unat ms + length (filter (idle now mi) xs) < unat (c - 1)" using Cons.prems(2) True by simp
    then have "purge_loop now mi ms (c - 1) (xs @ w # rest) = Inl (UB Invalid_iterator)"
      using Cons.IH Cons.prems(1) by simp
    then show ?thesis using Cons.prems(1) lt True by (simp add: Let_def idle_def)
  next
    case False
    then show ?thesis using Cons.IH [of c] Cons.prems lt by (simp add: Let_def idle_def)
  qed
qed

text \<open>One step keeps the order of the tasks, and the bound of the queue.\<close>

lemma tp_step_tasks:
  assumes "tp_step tp e tp1"
  shows "tp_tasks tp @ accepted [e] = started [e] @ tp_tasks tp1" and "tp_maxQueueSize tp1 = tp_maxQueueSize tp"
    and "length (tp_tasks tp) \<le> unat (tp_maxQueueSize tp) \<Longrightarrow> length (tp_tasks tp1) \<le> unat (tp_maxQueueSize tp)"
proof -
  have ref: "tp1 = tp" if "executeTask now task tp = (Inl (Runtime_error m), tp1)" for now task m
    using that by (auto simp: executeTask_def sx_seq_def sx_bind_def sx_modify_def purgeIdleThreads_def
        split: if_splits sum.splits dest: purge_loop_error)
  have tk: "tp_tasks tp = task # tp_tasks tp1 \<and> tp_maxQueueSize tp1 = tp_maxQueueSize tp"
    if "take_task i now tp = (Some task, tp1)" for i now task
    using that by (auto simp: take_task_def pop_task_def split: list.splits)
  from assms show "tp_tasks tp @ accepted [e] = started [e] @ tp_tasks tp1"
    by (cases rule: tp_step.cases) (auto dest: executeTask_accepted ref tk simp: end_worker_def)
  from assms show "tp_maxQueueSize tp1 = tp_maxQueueSize tp"
    by (cases rule: tp_step.cases) (auto dest: executeTask_accepted ref tk simp: end_worker_def)
  show "length (tp_tasks tp1) \<le> unat (tp_maxQueueSize tp)" if "length (tp_tasks tp) \<le> unat (tp_maxQueueSize tp)"
    using assms that
  proof (cases rule: tp_step.cases)
    case (accept now task)
    then show ?thesis using executeTask_accepted [OF accept(2)] by simp
  qed (auto dest: ref tk simp: end_worker_def)
qed

lemma accepted_Cons: "accepted (e # es) = accepted [e] @ accepted es"
  by (cases e) auto

lemma started_Cons: "started (e # es) = started [e] @ started es"
  by (cases e) auto

lemma map_sum_eq_Inr: "map_sum f g x = Inr e \<longleftrightarrow> (\<exists>e'. x = Inr e' \<and> e = g e')"
  by (cases x) auto

lemma purge_loop_joinable:
  "purge_loop now mi ms c ws = Inr (c', ws') \<Longrightarrow> (\<exists>w\<in>set ws'. wt_joinable w) = (\<exists>w\<in>set ws. wt_joinable w)"
  by (induction now mi ms c ws arbitrary: c' ws' rule: purge_loop.induct)
    (auto simp: Let_def map_sum_eq_Inr split: if_splits)

text \<open>No thread is ever joinable, so \<open>shutDown\<close> waits for none.\<close>

lemma tp_step_joinable:
  assumes "tp_step tp e tp'" and "\<forall>w\<in>set (tp_pool tp). \<not> wt_joinable w"
  shows "\<forall>w\<in>set (tp_pool tp'). \<not> wt_joinable w"
proof -
  have purge: "\<forall>w\<in>set (tp_pool tp2). \<not> wt_joinable w"
    if "purgeIdleThreads now tp1 = (r, tp2)" "\<forall>w\<in>set (tp_pool tp1). \<not> wt_joinable w" for now r tp1 tp2
    using that by (auto simp: purgeIdleThreads_def split: sum.splits dest!: purge_loop_joinable)
  have exec: "\<forall>w\<in>set (tp_pool tp'). \<not> wt_joinable w" if "executeTask now task tp = (r, tp')" for now task r
    using that assms(2)
    by (auto simp: executeTask_def sx_seq_def sx_bind_def sx_modify_def push_task_def
        split: if_splits sum.splits prod.splits dest!: purge)
  have upd: "\<not> wt_joinable w" if "i < length xs" "w \<in> set (xs[i := f (xs ! i)])" "wt_joinable (f (xs ! i)) = wt_joinable (xs ! i)"
    "\<forall>w\<in>set xs. \<not> wt_joinable w" for i f w and xs :: "workerThread list"
    using that set_update_subset_insert [of xs i "f (xs ! i)"] by auto
  from assms(1) show ?thesis
  proof (cases rule: tp_step.cases)
    case (start i now task)
    then have "tp_pool tp' = (tp_pool tp)[i := (tp_pool tp ! i)\<lparr>wt_lastActiveTime := now\<rparr>]"
      by (auto simp: take_task_def pop_task_def split: list.splits)
    then show ?thesis using upd [of i "tp_pool tp" _ "\<lambda>w. w\<lparr>wt_lastActiveTime := now\<rparr>"] start(2) assms(2) by auto
  next
    case (finish i)
    then show ?thesis using upd [of i "tp_pool tp" _ "\<lambda>w. w\<lparr>wt_terminated := True\<rparr>"] assms(2)
      by (auto simp: end_worker_def)
  qed (auto dest: exec)
qed

section \<open>Properties\<close>

text \<open>
  Tasks are started in the order in which they were accepted, none twice and none
  lost: at any moment what was started, followed by what waits, is what waited at first
  followed by what was accepted; and the queue never exceeds its bound.
\<close>

theorem thread_pool_fifo:
  assumes "tp_run tp es tp'" and "length (tp_tasks tp) \<le> unat (tp_maxQueueSize tp)"
  shows "tp_tasks tp @ accepted es = started es @ tp_tasks tp' \<and>
    length (tp_tasks tp') \<le> unat (tp_maxQueueSize tp)"
  using assms
proof (induction rule: tp_run.induct)
  case (nil tp)
  then show ?case by simp
next
  case (cons tp e tp1 es tp2)
  note s = tp_step_tasks [OF cons(1)]
  have "tp_tasks tp1 @ accepted es = started es @ tp_tasks tp2 \<and> length (tp_tasks tp2) \<le> unat (tp_maxQueueSize tp)"
    using cons.IH s(2,3) cons.prems by simp
  then show ?case using s(1) by (simp add: accepted_Cons [of e es] started_Cons [of e es])
      (metis append.assoc)
qed

text \<open>A run of commands, for examples: \<open>None\<close> when a command is not enabled.\<close>

datatype tp_command = Submit int nat | Take nat int | End nat

fun tp_command_step :: "tp_command \<Rightarrow> nat threadPool \<Rightarrow> (nat tp_event \<times> nat threadPool) option" where
  "tp_command_step (Submit now task) tp =
     (case executeTask now task tp of (Inr _, tp') \<Rightarrow> Some (Accepted task, tp') | (Inl _, tp') \<Rightarrow> None)"
| "tp_command_step (Take i now) tp =
     (if i < length (tp_pool tp) \<and> \<not> wt_terminated (tp_pool tp ! i)
      then (case take_task i now tp of (Some task, tp') \<Rightarrow> Some (Started task, tp') | (None, tp') \<Rightarrow> None)
      else None)"
| "tp_command_step (End i) tp =
     (if i < length (tp_pool tp) \<and> \<not> (tp_active tp \<and> wt_active (tp_pool tp ! i))
      then Some (Ended, end_worker i tp) else None)"

fun tp_commands :: "tp_command list \<Rightarrow> nat threadPool \<Rightarrow> (nat tp_event list \<times> nat threadPool) option" where
  "tp_commands [] tp = Some ([], tp)"
| "tp_commands (c # cs) tp =
     (case tp_command_step c tp of
        None \<Rightarrow> None
      | Some (e, tp1) \<Rightarrow> (case tp_commands cs tp1 of None \<Rightarrow> None | Some (es, tp2) \<Rightarrow> Some (e # es, tp2)))"

lemma tp_command_step_sound: "tp_command_step c tp = Some (e, tp') \<Longrightarrow> tp_step tp e tp'"
  by (cases c) (auto intro: tp_step.intros split: prod.splits sum.splits option.splits if_splits)

lemma tp_commands_sound: "tp_commands cs tp = Some (es, tp') \<Longrightarrow> tp_run tp es tp'"
  by (induction cs arbitrary: tp es)
    (fastforce dest: tp_command_step_sound split: prod.splits option.splits)+

definition small_pool :: "nat threadPool" where
  "small_pool = ThreadPool_sized 0 1 1 10 256"

lemmas tp_eval = small_pool_def initializeThreadPool_def ThreadPool_sized_def executeTask_def sx_seq_def sx_bind_def
  sx_modify_def push_task_def purgeIdleThreads_def Let_def take_task_def pop_task_def end_worker_def createWorker_def

theorem thread_pool_fifo_witness:
  "\<exists>tp' :: nat threadPool. tp_run small_pool [Accepted 1, Accepted 2, Started 1] tp' \<and> tp_tasks tp' = [2]"
proof -
  obtain tp' where "tp_commands [Submit 0 1, Submit 0 2, Take 0 5] small_pool =
      Some ([Accepted 1, Accepted 2, Started 1], tp')"
    by (simp add: tp_eval)
  then have r: "tp_run small_pool [Accepted 1, Accepted 2, Started 1] tp'" by (rule tp_commands_sound)
  have t: "tp_tasks small_pool = []" by (simp add: tp_eval)
  from thread_pool_fifo [OF r] t have "tp_tasks tp' = [2]" by simp
  with r show ?thesis by blast
qed

text \<open>What submitting a task does, branch by branch.\<close>

lemma executeTask_full: "unat (tp_maxQueueSize tp) \<le> length (tp_tasks tp) \<Longrightarrow> executeTask now task tp = (Inl queue_full, tp)"
  by (simp add: executeTask_def)

lemma executeTask_grow:
  "length (tp_tasks tp) < unat (tp_maxQueueSize tp) \<Longrightarrow> unat (tp_currentPoolSize tp) < length (tp_tasks tp) \<Longrightarrow>
     executeTask now task tp = (Inr (), push_task task (createWorker now tp))"
  by (simp add: executeTask_def sx_seq_def sx_bind_def sx_modify_def)

lemma executeTask_purge:
  "length (tp_tasks tp) < unat (tp_maxQueueSize tp) \<Longrightarrow> length (tp_tasks tp) \<le> unat (tp_currentPoolSize tp) \<Longrightarrow>
     tp_minPoolSize tp < tp_currentPoolSize tp \<Longrightarrow>
     executeTask now task tp =
       (case purge_loop now (tp_maxIdleTimeMilis tp) (tp_minPoolSize tp) (tp_currentPoolSize tp) (tp_pool tp) of
          Inl e \<Rightarrow> (Inl e, tp)
        | Inr (n, ws) \<Rightarrow> (Inr (), push_task task (tp\<lparr>tp_currentPoolSize := n, tp_pool := ws\<rparr>)))"
  by (simp add: executeTask_def sx_seq_def sx_bind_def sx_modify_def purgeIdleThreads_def split: sum.splits prod.splits)

lemma executeTask_plain:
  "length (tp_tasks tp) < unat (tp_maxQueueSize tp) \<Longrightarrow> length (tp_tasks tp) \<le> unat (tp_currentPoolSize tp) \<Longrightarrow>
     \<not> tp_minPoolSize tp < tp_currentPoolSize tp \<Longrightarrow> executeTask now task tp = (Inr (), push_task task tp)"
  by (simp add: executeTask_def sx_seq_def sx_bind_def sx_modify_def)

text \<open>While no worker has ended and the queue has room, submitting a task succeeds.\<close>

definition none_ended :: "'t threadPool \<Rightarrow> bool" where
  "none_ended tp \<longleftrightarrow> (\<forall>w\<in>set (tp_pool tp). \<not> wt_terminated w)"

lemma purge_loop_none_ended:
  "\<forall>w\<in>set ws. \<not> wt_terminated w \<Longrightarrow>
     \<exists>n ws'. purge_loop now mi ms c ws = Inr (n, ws') \<and> (\<forall>w\<in>set ws'. \<not> wt_terminated w)"
proof (induction ws arbitrary: c)
  case Nil
  then show ?case by simp
next
  case (Cons w ws)
  show ?case
    using Cons.IH [of "c - 1"] Cons.IH [of c] Cons.prems
    by (cases "idle now mi w") (auto simp: Let_def idle_def)
qed

lemma executeTask_none_ended:
  assumes "none_ended tp" and "length (tp_tasks tp) < unat (tp_maxQueueSize tp)"
  shows "\<exists>tp'. executeTask now task tp = (Inr (), tp') \<and> none_ended tp' \<and> tp_tasks tp' = tp_tasks tp @ [task] \<and>
    tp_maxQueueSize tp' = tp_maxQueueSize tp"
proof -
  obtain n ws where p: "purge_loop now (tp_maxIdleTimeMilis tp) (tp_minPoolSize tp) (tp_currentPoolSize tp) (tp_pool tp) =
      Inr (n, ws)" "\<forall>w\<in>set ws. \<not> wt_terminated w"
    using purge_loop_none_ended assms(1) unfolding none_ended_def by blast
  show ?thesis
    using assms p
    by (cases "unat (tp_currentPoolSize tp) < length (tp_tasks tp)"; cases "tp_minPoolSize tp < tp_currentPoolSize tp")
      (auto simp: executeTask_grow executeTask_purge executeTask_plain push_task_def none_ended_def)
qed

fun submit_all :: "int \<Rightarrow> 't list \<Rightarrow> ('t threadPool, unit) sx" where
  "submit_all now [] tp = (Inr (), tp)"
| "submit_all now (t # ts) tp = sx_seq (executeTask now t) (submit_all now ts) tp"

lemma submit_all_snoc: "submit_all now (ts @ [t]) tp = sx_seq (submit_all now ts) (executeTask now t) tp"
  by (induction ts arbitrary: tp) (auto simp: sx_seq_def sx_bind_def split: prod.splits sum.splits)

lemma create_workers_spec:
  "tp_tasks (create_workers n now tp) = tp_tasks tp \<and>
   length (tp_pool (create_workers n now tp)) = length (tp_pool tp) + n \<and>
   tp_currentPoolSize (create_workers n now tp) = tp_currentPoolSize tp + word_of_nat n \<and>
   tp_minPoolSize (create_workers n now tp) = tp_minPoolSize tp \<and>
   tp_maxPoolSize (create_workers n now tp) = tp_maxPoolSize tp \<and>
   tp_maxQueueSize (create_workers n now tp) = tp_maxQueueSize tp"
  by (induction n arbitrary: tp) auto

lemma ThreadPool_new_simps:
  "tp_tasks (ThreadPool_new now) = []" "length (tp_pool (ThreadPool_new now)) = 8"
  "tp_currentPoolSize (ThreadPool_new now) = 8" "tp_minPoolSize (ThreadPool_new now) = 8"
  "tp_maxPoolSize (ThreadPool_new now) = 16" "tp_maxQueueSize (ThreadPool_new now) = 256"
  by (simp_all add: create_workers_spec ThreadPool_new_def initializeThreadPool_def)

text \<open>
  The maximal size of the pool, 16 by default, limits nothing. With every worker busy,
  the default pool accepts up to 256 tasks, and after \<open>n\<close> of them it has \<open>n - 1\<close> workers as soon
  as that is more than the 8 it started with; the next task is refused.
\<close>

theorem pool_grows_past_maximum:
  assumes "length ts \<le> 256"
  shows "\<exists>tp. submit_all now ts (ThreadPool_new now) = (Inr (), tp) \<and> tp_tasks tp = ts \<and>
    length (tp_pool tp) = max 8 (length ts - 1) \<and> tp_maxPoolSize tp = 16 \<and>
    (length ts = 256 \<longrightarrow> executeTask now t tp = (Inl queue_full, tp))"
proof -
  have "\<exists>tp. submit_all now ts (ThreadPool_new now) = (Inr (), tp) \<and> tp_tasks tp = ts \<and>
    length (tp_pool tp) = max 8 (length ts - 1) \<and> tp_maxPoolSize tp = 16 \<and>
    tp_currentPoolSize tp = word_of_nat (max 8 (length ts - 1)) \<and> tp_minPoolSize tp = 8 \<and> tp_maxQueueSize tp = 256"
    using assms
  proof (induction ts rule: rev_induct)
    case Nil
    then show ?case by (simp add: ThreadPool_new_simps)
  next
    case (snoc x xs)
    then obtain tp where tp: "submit_all now xs (ThreadPool_new now) = (Inr (), tp)" "tp_tasks tp = xs"
      "length (tp_pool tp) = max 8 (length xs - 1)" "tp_maxPoolSize tp = 16" "tp_minPoolSize tp = 8"
      "tp_currentPoolSize tp = word_of_nat (max 8 (length xs - 1))" "tp_maxQueueSize tp = 256" by auto
    have len: "length xs < 256" using snoc.prems by simp
    have c: "unat (word_of_nat (max 8 (length xs - 1)) :: 32 word) = max 8 (length xs - 1)"
      using len by (simp add: unat_of_nat take_bit_eq_mod)
    show ?case
    proof (cases "8 < length xs")
      case True
      then have l: "max 8 (length xs - 1) = length xs - 1" "length xs - 1 < length xs" "Suc (length xs - 1) = length xs"
        by auto
      have e: "executeTask now x tp = (Inr (), push_task x (createWorker now tp))"
        using tp len c l by (intro executeTask_grow) simp_all
      have "word_of_nat (length xs - 1) + 1 = (word_of_nat (length xs) :: 32 word)"
        using l(3) by (metis of_nat_Suc add.commute)
      then show ?thesis using tp True l e
        by (simp add: submit_all_snoc sx_seq_def sx_bind_def push_task_def max_def)
    next
      case False
      then have m: "max 8 (length xs - 1) = 8" "max 8 (length xs) = 8" by simp_all
      have "executeTask now x tp = (Inr (), push_task x tp)"
        using tp len m False by (intro executeTask_plain) simp_all
      then show ?thesis using tp m
        by (simp add: submit_all_snoc sx_seq_def sx_bind_def push_task_def)
    qed
  qed
  then show ?thesis by (auto simp: executeTask_full)
qed

theorem pool_grows_past_maximum_witness:
  "\<exists>tp. submit_all 0 [0..<256] (ThreadPool_new 0) = (Inr (), tp) \<and> length (tp_pool tp) = 255"
  using pool_grows_past_maximum [of "[0..<256]" 0] by auto

text \<open>
  A worker that has ended makes the pool undefined: its entry is erased through an
  iterator that is used again. With no more tasks than workers, submitting one is undefined when
  the first ended worker has fewer idle workers before it than there are workers above the
  minimum.
\<close>

theorem ended_worker_breaks_pool:
  assumes "length (tp_tasks tp) < unat (tp_maxQueueSize tp)"
    and "length (tp_tasks tp) \<le> unat (tp_currentPoolSize tp)"
    and "tp_pool tp = ws @ w # rest" and "wt_terminated w" and "\<forall>x\<in>set ws. \<not> wt_terminated x"
    and "unat (tp_minPoolSize tp) + length (filter (idle now (tp_maxIdleTimeMilis tp)) ws) < unat (tp_currentPoolSize tp)"
  shows "executeTask now task tp = (Inl (UB Invalid_iterator), tp)"
proof -
  have "tp_minPoolSize tp < tp_currentPoolSize tp" using assms(6) by (simp add: word_less_nat_alt)
  then show ?thesis
    using assms(1-3) purge_loop_dead [OF assms(4-6)] by (simp add: executeTask_purge)
qed

definition ended_run :: "tp_command list" where
  "ended_run = [Submit 0 1, Submit 0 2, Submit 0 3, Take 0 15, Take 0 15, Take 0 15, Submit 20 4, End 1, Take 0 20,
     Submit 20 5, Submit 20 6, Submit 20 7, Take 0 20, Take 0 20, Take 0 20]"

theorem ended_worker_breaks_pool_witness:
  "\<exists>es tp. tp_run small_pool es tp \<and> executeTask 21 8 tp = (Inl (UB Invalid_iterator), tp)"
proof -
  obtain es tp where c: "tp_commands ended_run small_pool = Some (es, tp)"
    by (simp add: ended_run_def tp_eval)
  have tp: "tp_tasks tp = []" "tp_maxQueueSize tp = 256" "tp_currentPoolSize tp = 2" "tp_minPoolSize tp = 1"
    "tp_maxIdleTimeMilis tp = 10"
    "tp_pool tp = [\<lparr>wt_lastActiveTime = 20, wt_active = True, wt_terminated = False, wt_joinable = False\<rparr>] @
       \<lparr>wt_lastActiveTime = 0, wt_active = False, wt_terminated = True, wt_joinable = False\<rparr> #
       [\<lparr>wt_lastActiveTime = 20, wt_active = True, wt_terminated = False, wt_joinable = False\<rparr>]"
    using c by (auto simp: ended_run_def tp_eval)
  from ended_worker_breaks_pool [of tp, OF _ _ tp(6), of 21 8] tp have "executeTask 21 8 tp = (Inl (UB Invalid_iterator), tp)"
    by (simp add: idle_def)
  with tp_commands_sound [OF c] show ?thesis by blast
qed

end
