(* ===== verification/Selector.thy ===== *)
theory Selector
  imports Sockets Connection ThreadPool
begin

text \<open>
  The thread of a server that reads and writes the connections it owns:
  \<open>ReMoLON_Util/SelectorThread.h\<close> and \<open>src/SelectorThread.cpp\<close>.

  The object is the record \<open>selector\<close>; the program that received packets act on while they are
  read is \<open>se_world\<close>, and \<open>se_sent\<close> is what was given to \<open>sendBytes\<close>, with the descriptor. The
  poll set is a value changed by the operations \<open>poll_ops\<close>, and polling gives the list of the
  ready descriptors with their flags and what receive calls will return. Every connection a
  server accepts has a receive timeout, so a receive call on which nothing more arrives throws a
  \<open>TimeoutException\<close>. \<open>sendBytes\<close> is taken to send everything.

  The counter \<open>total\<close> of \<open>readFromConnection\<close> is an \<open>int\<close> that one call would have to receive two
  gigabytes to overflow.
\<close>

section \<open>The object\<close>

record 'ps poll_ops =
  po_add :: "int \<Rightarrow> poll_flag set \<Rightarrow> 'ps \<Rightarrow> 'ps"
  po_update :: "int \<Rightarrow> poll_flag set \<Rightarrow> 'ps \<Rightarrow> 'ps"
  po_remove :: "int \<Rightarrow> 'ps \<Rightarrow> 'ps"

text \<open>The packet handler, the classes of packets, and the addresses of peers.\<close>

record ('k, 'w, 'q, 'p) packet_env =
  pe_readImpl :: "'k \<Rightarrow> ('w \<times> bytebuffer option, 'q) sx"
  pe_handler :: "'k packetHandler"
  pe_address :: "'p connection \<Rightarrow> string"
  pe_writePacket :: "'p \<Rightarrow> (bytebuffer option, unit) sx"

record ('w, 'q, 'p, 'ps) selector =
  se_world :: 'w
  se_readBuffer :: bytebuffer
  se_writeBuffer :: bytebuffer
  se_writeBufferHelper :: bytebuffer
  se_active :: bool
  se_connections :: "(int, 'p connection) umap"
  se_socketProcessSet :: 'ps
  se_threadPool :: "'q threadPool"
  se_sent :: "(int \<times> byte list) list"

text \<open>The constructor: two buffers of the default size, a helper of 8192 bytes.\<close>

definition SelectorThread_new ::
  "(nat \<Rightarrow> byte) \<Rightarrow> 'ps \<Rightarrow> 'q threadPool \<Rightarrow> 'w \<Rightarrow> ('w, 'q, 'p, 'ps) selector" where
  "SelectorThread_new fresh ps tp w =
     \<lparr>se_world = w, se_readBuffer = ByteBuffer_default fresh, se_writeBuffer = ByteBuffer_default fresh,
      se_writeBufferHelper = snd (resize fresh 8192 (ByteBuffer_default fresh)), se_active = True,
      se_connections = [], se_socketProcessSet = ps, se_threadPool = tp, se_sent = []\<rparr>"

definition getNumConnections :: "('w, 'q, 'p, 'ps) selector \<Rightarrow> nat" where
  "getNumConnections se = length (se_connections se)"

definition addConnection ::
  "'ps poll_ops \<Rightarrow> 'p connection \<Rightarrow> (('w, 'q, 'p, 'ps) selector, bool) sx" where
  "addConnection po con se =
     (let fd = getSockFD con in
      if um_find (se_connections se) fd = None
      then (let se1 = se\<lparr>se_connections := um_set fd (setPollSetSource True con) (se_connections se)\<rparr>
            in case con_socket con of
                 None \<Rightarrow> (Inl (UB Null_deref), se1)
               | Some s \<Rightarrow> (Inr True, se1\<lparr>se_socketProcessSet := po_add po s {POLL_READ} (se_socketProcessSet se1)\<rparr>))
      else (Inr False, se))"

text \<open>The connection is ended and destroyed.\<close>

definition removeConnection ::
  "'ps poll_ops \<Rightarrow> 'p connection \<Rightarrow> (('w, 'q, 'p, 'ps) selector, bool) sx" where
  "removeConnection po con se =
     (let fd = getSockFD con in
      if um_find (se_connections se) fd \<noteq> None
      then (case con_socket con of
              None \<Rightarrow> (Inl (UB Null_deref), se)
            | Some s \<Rightarrow>
                (Inr True, se\<lparr>se_socketProcessSet := po_remove po s (se_socketProcessSet se),
                   se_connections := um_erase fd (um_replace fd (endConnection con) (se_connections se))\<rparr>))
      else (Inr False, se))"

section \<open>Reading\<close>

text \<open>One packet off the read buffer and into the thread pool.\<close>

definition read_packet ::
  "('k, 'w, 'q, 'p) packet_env \<Rightarrow> 'p connection \<Rightarrow> int \<Rightarrow> (('w, 'q, 'p, 'ps) selector, unit) sx" where
  "read_packet en con now se =
     (case handlePacket (pe_readImpl en) (pe_handler en) (pe_address en con) (se_world se, se_readBuffer se) of
        (r, (w, rb)) \<Rightarrow>
          (let se1 = se\<lparr>se_world := w, se_readBuffer := rb\<rparr> in
           case r of
             Inl e \<Rightarrow> (Inl e, se1)
           | Inr None \<Rightarrow> (Inr (), se1)
           | Inr (Some packet) \<Rightarrow>
               (case executeTask now packet (se_threadPool se1) of
                  (r', tp) \<Rightarrow> (r', se1\<lparr>se_threadPool := tp\<rparr>))))"

text \<open>
  The body of the loop, for \<open>bs\<close> received and \<open>tot\<close> bytes with them: a thrown exception is caught
  and reported.
\<close>

definition receive_step ::
  "('k, 'w, 'q, 'p) packet_env \<Rightarrow> 'ps poll_ops \<Rightarrow> 'p connection \<Rightarrow> int \<Rightarrow> int \<Rightarrow> byte list \<Rightarrow>
   (('w, 'q, 'p, 'ps) selector, unit) sx" where
  "receive_step en po con tot now bs se =
     (case store_received bs (se_readBuffer se) of
        (Inl e, rb) \<Rightarrow> (Inl e, se\<lparr>se_readBuffer := rb\<rparr>)
      | (Inr _, rb) \<Rightarrow>
          (case (if tot > 0 then read_packet en con now
                 else sx_seq (removeConnection po con) (sx_return ())) (se\<lparr>se_readBuffer := rb\<rparr>) of
             (Inl e, se1) \<Rightarrow> (if is_ub e then (Inl e, se1) else (Inr (), se1))
           | (Inr _, se1) \<Rightarrow> (Inr (), se1)))"

fun read_loop ::
  "('k, 'w, 'q, 'p) packet_env \<Rightarrow> 'ps poll_ops \<Rightarrow> 'p connection \<Rightarrow> int \<Rightarrow> arrival list \<Rightarrow>
   (('w, 'q, 'p, 'ps) selector, unit) sx" where
  "read_loop en po con tot [] se = (Inr (), se)"
| "read_loop en po con tot (Net_error # rs) se = (Inl Net_exception, se)"
| "read_loop en po con tot (Received now bs # rs) se =
     (if bs = [] then (Inr (), se)
      else (case receive_step en po con (tot + int (length bs)) now bs se of
              (Inl e, se1) \<Rightarrow> (Inl e, se1)
            | (Inr _, se1) \<Rightarrow> read_loop en po con (tot + int (length bs)) rs se1))"

definition readFromConnection ::
  "('k, 'w, 'q, 'p) packet_env \<Rightarrow> 'ps poll_ops \<Rightarrow> 'p connection \<Rightarrow> arrival list \<Rightarrow>
   (('w, 'q, 'p, 'ps) selector, unit) sx" where
  "readFromConnection en po con rs se =
     (let se1 = se\<lparr>se_readBuffer := reset (se_readBuffer se)\<rparr> in
      if con_socket con = None then (Inl (UB Null_deref), se1) else read_loop en po con 0 rs se1)"

section \<open>Writing\<close>

text \<open>Append a packet to the write buffer, or send the buffer first and append then.\<close>

definition append_frame :: "bytebuffer \<Rightarrow> (bytebuffer \<times> byte list list, unit) sx" where
  "append_frame helper st =
     (case st of (wb, sent) \<Rightarrow>
        (case appendContent helper wb of
           (Inl e, wb1) \<Rightarrow> (Inl e, (wb1, sent))
         | (Inr True, wb1) \<Rightarrow> (Inr (), (wb1, sent))
         | (Inr False, wb1) \<Rightarrow>
             (case bytes_to_send wb1 of
                Inl e \<Rightarrow> (Inl e, (wb1, sent))
              | Inr bs \<Rightarrow>
                  (case appendContent helper (reset wb1) of
                     (Inl e, wb2) \<Rightarrow> (Inl e, (wb2, sent @ [bs]))
                   | (Inr _, wb2) \<Rightarrow> (Inr (), (wb2, sent @ [bs]))))))"

type_synonym ('p, 'ps) write_state = "('p connection \<times> 'ps) \<times> bytebuffer \<times> bytebuffer \<times> byte list list"

text \<open>One packet: into the helper buffer, and from there to the write buffer.\<close>

definition write_packet :: "(bytebuffer option, unit) sx \<Rightarrow> (('p, 'ps) write_state, unit) sx" where
  "write_packet writePkt st =
     (case st of (cp, helper, wb, sent) \<Rightarrow>
        (case writePkt (Some (reset helper)) of
           (Inl e, bo) \<Rightarrow> (Inl e, (cp, (case bo of None \<Rightarrow> helper | Some h \<Rightarrow> h), wb, sent))
         | (Inr _, None) \<Rightarrow> (Inl (UB Null_deref), (cp, helper, wb, sent))
         | (Inr _, Some helper1) \<Rightarrow>
             (case append_frame helper1 (wb, sent) of
                (r, (wb1, sent1)) \<Rightarrow> (r, (cp, helper1, wb1, sent1)))))"

lemma poll_shortens:
  "pollSendablePacket update cp = (Inr (Some p), cp1) \<Longrightarrow>
     length (con_sendPackets (fst cp1)) < length (con_sendPackets (fst cp))"
  by (cases cp)
    (auto simp: pollSendablePacket_def sx_seq_def sx_bind_def sx_return_def split: list.splits prod.splits sum.splits)

function write_loop ::
  "(int \<Rightarrow> poll_flag set \<Rightarrow> 'ps \<Rightarrow> 'ps) \<Rightarrow> ('p \<Rightarrow> (bytebuffer option, unit) sx) \<Rightarrow> (('p, 'ps) write_state, unit) sx" where
  "write_loop update writer (cp, helper, wb, sent) =
     (case pollSendablePacket update cp of
        (Inl e, cp1) \<Rightarrow> (Inl e, (cp1, helper, wb, sent))
      | (Inr None, cp1) \<Rightarrow> (Inr (), (cp1, helper, wb, sent))
      | (Inr (Some p), cp1) \<Rightarrow>
          (case write_packet (writer p) (cp1, helper, wb, sent) of
             (Inl e, st) \<Rightarrow> (Inl e, st)
           | (Inr _, (_, helper1, wb1, sent1)) \<Rightarrow> write_loop update writer (cp1, helper1, wb1, sent1)))"
  by pat_completeness auto

termination
  by (relation "measure (\<lambda>(update, writer, (cp, helper, wb, sent)). length (con_sendPackets (fst cp)))")
    (auto dest!: sym [of "(Inr (Some _), _)"] poll_shortens)

declare write_loop.simps [simp del]

definition writeToConnection ::
  "('k, 'w, 'q, 'p) packet_env \<Rightarrow> 'ps poll_ops \<Rightarrow> int \<Rightarrow> 'p connection \<Rightarrow>
   (('w, 'q, 'p, 'ps) selector, unit) sx" where
  "writeToConnection en po fd con se =
     (case write_loop (po_update po) (pe_writePacket en)
        ((con, se_socketProcessSet se), se_writeBufferHelper se, reset (se_writeBuffer se), []) of
        (r, ((con1, ps), helper, wb, sent)) \<Rightarrow>
          (let se1 = se\<lparr>se_connections := um_replace fd con1 (se_connections se), se_socketProcessSet := ps,
                  se_writeBufferHelper := helper, se_writeBuffer := wb, se_sent := se_sent se @ map (Pair fd) sent\<rparr>
           in case r of
                Inl e \<Rightarrow> (Inl e, se1)
              | Inr _ \<Rightarrow>
                  (if getUsedSize wb > 0
                   then (case bytes_to_send wb of
                           Inl e \<Rightarrow> (Inl e, se1)
                         | Inr bs \<Rightarrow> (Inr (), se1\<lparr>se_sent := se_sent se1 @ [(fd, bs)]\<rparr>))
                   else (Inr (), se1))))"

section \<open>The loop of the thread\<close>

definition handleConnectionCrash ::
  "'ps poll_ops \<Rightarrow> 'p connection \<Rightarrow> (('w, 'q, 'p, 'ps) selector, unit) sx" where
  "handleConnectionCrash po con se =
     (if con_socket con = None then (Inl (UB Null_deref), se)
      else sx_seq (removeConnection po con) (sx_return ()) se)"

text \<open>
  One ready descriptor. \<open>_connections [ fd ]\<close> of an unknown descriptor is a null pointer. Were the
  connection removed while it is read, the pointer would dangle.
\<close>

definition on_connection ::
  "int \<Rightarrow> ub_kind \<Rightarrow> ('p connection \<Rightarrow> (('w, 'q, 'p, 'ps) selector, unit) sx) \<Rightarrow> (('w, 'q, 'p, 'ps) selector, unit) sx" where
  "on_connection fd k f se =
     (case um_find (se_connections se) fd of None \<Rightarrow> (Inl (UB k), se) | Some con \<Rightarrow> f con se)"

definition serve_socket ::
  "('k, 'w, 'q, 'p) packet_env \<Rightarrow> 'ps poll_ops \<Rightarrow> int \<Rightarrow> poll_flag set \<Rightarrow> arrival list \<Rightarrow>
   (('w, 'q, 'p, 'ps) selector, unit) sx" where
  "serve_socket en po fd flags rs =
     on_connection fd Null_deref (\<lambda>con.
       sx_seq (if POLL_READ \<in> flags then readFromConnection en po con rs else sx_return ())
         (sx_seq (if POLL_WRITE \<in> flags
                  then on_connection fd Dangling_pointer (writeToConnection en po fd) else sx_return ())
           (if POLL_ERROR \<in> flags
            then on_connection fd Dangling_pointer (handleConnectionCrash po) else sx_return ())))"

text \<open>A round over the polled sockets: an exception of Poco is reported and the round goes on.\<close>

fun select_round ::
  "('k, 'w, 'q, 'p) packet_env \<Rightarrow> 'ps poll_ops \<Rightarrow> (int \<times> poll_flag set \<times> arrival list) list \<Rightarrow>
   (('w, 'q, 'p, 'ps) selector, unit) sx" where
  "select_round en po [] se = (Inr (), se)"
| "select_round en po ((fd, flags, rs) # polled) se =
     (case serve_socket en po fd flags rs se of
        (Inl e, se1) \<Rightarrow> (if e = Net_exception then select_round en po polled se1 else (Inl e, se1))
      | (Inr _, se1) \<Rightarrow> select_round en po polled se1)"

definition selector_shutDown :: "('w, 'q, 'p, 'ps) selector \<Rightarrow> ('w, 'q, 'p, 'ps) selector" where
  "selector_shutDown se = se\<lparr>se_active := False\<rparr>"

section \<open>Connections: lemmas\<close>

lemma addConnection_new:
  assumes "um_find (se_connections se) fd = None"
  shows "addConnection po (Connection_new fd) se =
    (Inr True, se\<lparr>se_connections := um_set fd (setPollSetSource True (Connection_new fd)) (se_connections se),
       se_socketProcessSet := po_add po fd {POLL_READ} (se_socketProcessSet se)\<rparr>)"
  using assms by (simp add: addConnection_def Connection_new_def getSockFD_def Let_def)

section \<open>Reading: lemmas\<close>

text \<open>
  What reading does to the connections and the poll set: nothing, and no exception of the program
  gets out.
\<close>

definition se_net :: "('w, 'q, 'p, 'ps) selector \<Rightarrow> (int, 'p connection) umap \<times> 'ps" where
  "se_net se = (se_connections se, se_socketProcessSet se)"

lemma se_net_read_buffer [simp]: "se_net (se\<lparr>se_readBuffer := b\<rparr>) = se_net se"
  by (simp add: se_net_def)

lemma read_packet_connections: "read_packet en con now se = (r, se') \<Longrightarrow> se_net se' = se_net se"
  by (auto simp: se_net_def read_packet_def Let_def split: prod.splits sum.splits option.splits)

lemma store_received_error: "store_received bs b = (Inl e, b') \<Longrightarrow> is_ub e"
  by (auto simp: store_received_def sx_seq_def sx_bind_def mem_store_def sx_modify_def
      split: option.splits if_splits prod.splits)

lemma receive_step_connections:
  assumes "receive_step en po con tot now bs se = (r, se')" and "0 < tot"
  shows "se_net se' = se_net se" and "r = Inl e \<Longrightarrow> is_ub e"
  using assms
  by (auto simp: receive_step_def split: prod.splits sum.splits if_splits
      dest: read_packet_connections store_received_error)

lemma read_loop_connections:
  "read_loop en po con tot rs se = (r, se') \<Longrightarrow> 0 \<le> tot \<Longrightarrow>
     se_net se' = se_net se \<and> (\<forall>e. r = Inl e \<longrightarrow> is_ub e \<or> e = Net_exception)"
proof (induction en po con tot rs se rule: read_loop.induct)
  case (3 en po con tot now bs rs se)
  show ?case
  proof (cases "bs = []")
    case True
    then show ?thesis using 3(2) by auto
  next
    case False
    then have pos: "0 < tot + int (length bs)" using 3(3) by (cases bs) auto
    obtain s se1 where st: "receive_step en po con (tot + int (length bs)) now bs se = (s, se1)" by fastforce
    show ?thesis
      using receive_step_connections [OF st pos] 3(1) [OF False st [symmetric]] 3(2,3) st False pos
      by (cases s) auto
  qed
qed auto

lemma readFromConnection_net:
  assumes "readFromConnection en po con rs se = (r, se')"
  shows "se_net se' = se_net se" and "r = Inl e \<Longrightarrow> is_ub e \<or> e = Net_exception"
  using assms read_loop_connections [of en po con 0 rs "se\<lparr>se_readBuffer := reset (se_readBuffer se)\<rparr>" r se']
  by (auto simp: readFromConnection_def Let_def split: if_splits)

text \<open>The packets of a list of frames, and what reading them does to the program.\<close>

fun deliver_all :: "('w \<Rightarrow> 'q \<times> 'w) list \<Rightarrow> 'w \<Rightarrow> 'q list \<times> 'w" where
  "deliver_all [] w = ([], w)"
| "deliver_all (out # outs) w = (case deliver_all outs (snd (out w)) of (qs, w') \<Rightarrow> (fst (out w) # qs, w'))"

text \<open>A selector that can take \<open>n\<close> more packets of \<open>m\<close> bytes altogether.\<close>

definition se_ready :: "nat \<Rightarrow> nat \<Rightarrow> ('w, 'q, 'p, 'ps) selector \<Rightarrow> bool" where
  "se_ready n m se \<longleftrightarrow> bb_ok (se_readBuffer se) \<and> bb_buf (se_readBuffer se) \<noteq> None \<and>
     bb_used (se_readBuffer se) + m \<le> bb_size (se_readBuffer se) \<and> none_ended (se_threadPool se) \<and>
     length (tp_tasks (se_threadPool se)) + n \<le> unat (tp_maxQueueSize (se_threadPool se))"

lemma se_ready_store:
  assumes "se_ready n (length bs + m) se"
  shows "store_received bs (se_readBuffer se) = (Inr (), bb_append bs (se_readBuffer se))"
    and "bb_ok (bb_append bs (se_readBuffer se))"
    and "bb_unread (bb_append bs (se_readBuffer se)) = bb_unread (se_readBuffer se) @ bs"
    and "bb_buf (bb_append bs (se_readBuffer se)) \<noteq> None"
  using store_received_ok [of "se_readBuffer se" bs] assms
  by (auto simp: se_ready_def bb_append_def)

text \<open>The bytes that complete a frame deliver its packet and leave what follows it.\<close>

lemma receive_completes:
  assumes ready: "se_ready (Suc n) (length bs + m) se" and rc: "receives (pe_readImpl en) (pe_handler en) f out"
    and u: "bb_unread (se_readBuffer se) @ bs = f @ g" and "0 < tot"
  shows "\<exists>se'. receive_step en po con tot now bs se = (Inr (), se') \<and> se_ready n m se' \<and>
    bb_unread (se_readBuffer se') = g \<and> bb_size (se_readBuffer se') = bb_size (se_readBuffer se) \<and>
    se_world se' = snd (out (se_world se)) \<and>
    tp_tasks (se_threadPool se') = tp_tasks (se_threadPool se) @ [fst (out (se_world se))]"
proof -
  let ?b = "bb_append bs (se_readBuffer se)"
  note st = se_ready_store [OF ready]
  obtain b' where h: "handlePacket (pe_readImpl en) (pe_handler en) (pe_address en con) (se_world se, ?b) =
      (Inr (Some (fst (out (se_world se)))), (snd (out (se_world se)), b'))" "bb_ok b'" "bb_unread b' = g"
      "bb_used b' = bb_used ?b" "bb_size b' = bb_size ?b" "bb_buf b' = bb_buf ?b"
    using receives_handle [OF rc st(2), of g] st(3) u by metis
  have "none_ended (se_threadPool se)" "length (tp_tasks (se_threadPool se)) < unat (tp_maxQueueSize (se_threadPool se))"
    using ready by (auto simp: se_ready_def)
  from executeTask_none_ended [OF this, of now "fst (out (se_world se))"] obtain tp' where
    tp: "executeTask now (fst (out (se_world se))) (se_threadPool se) = (Inr (), tp')" "none_ended tp'"
      "tp_tasks tp' = tp_tasks (se_threadPool se) @ [fst (out (se_world se))]"
      "tp_maxQueueSize tp' = tp_maxQueueSize (se_threadPool se)" by blast
  let ?se = "se\<lparr>se_world := snd (out (se_world se)), se_readBuffer := b', se_threadPool := tp'\<rparr>"
  have "receive_step en po con tot now bs se = (Inr (), ?se)"
    using assms(4) by (simp add: receive_step_def st(1) read_packet_def h(1) tp(1) Let_def)
  moreover have "se_ready n m ?se"
    using ready h st(4) tp by (auto simp: se_ready_def)
  ultimately show ?thesis using h(3,5) tp(3) by (intro exI [of _ ?se]) simp
qed

text \<open>A prefix of a frame that has its header is kept at the start of the buffer.\<close>

lemma receive_part:
  assumes ready: "se_ready n (length bs + m) se" and rc: "receives (pe_readImpl en) (pe_handler en) f out"
    and u: "bb_unread (se_readBuffer se) @ bs = part" and f: "f = part @ rest" "rest \<noteq> []" "3 \<le> length part"
    and start: "bb_read (se_readBuffer se) = 0" and fits: "length f \<le> bb_size (se_readBuffer se)" and "0 < tot"
  shows "\<exists>se'. receive_step en po con tot now bs se = (Inr (), se') \<and> se_ready n m se' \<and>
    bb_unread (se_readBuffer se') = part \<and> bb_read (se_readBuffer se') = 0 \<and>
    bb_size (se_readBuffer se') = bb_size (se_readBuffer se) \<and> se_world se' = se_world se \<and>
    se_threadPool se' = se_threadPool se"
proof -
  let ?b = "bb_append bs (se_readBuffer se)"
  note st = se_ready_store [OF ready]
  have up: "bb_unread ?b = part" using st(3) u by simp
  obtain b' where h: "handlePacket (pe_readImpl en) (pe_handler en) (pe_address en con) (se_world se, ?b) =
      (Inr None, (se_world se, b'))" "bb_ok b'" "bb_unread b' = part" "bb_read b' = 0" "bb_size b' = bb_size ?b"
      "bb_buf b' \<noteq> None"
    using receives_partial [OF rc st(2) up f, of "pe_address en con" "se_world se"] start fits by auto
  let ?se = "se\<lparr>se_readBuffer := b'\<rparr>"
  have "receive_step en po con tot now bs se = (Inr (), ?se)"
    using assms(9) by (simp add: receive_step_def st(1) read_packet_def h(1) Let_def)
  moreover have "bb_used b' = bb_used ?b"
    using length_bb_unread [OF h(2)] length_bb_unread [OF st(2)] h(2-4) up start st(2) by (auto simp: bb_ok_def)
  then have "se_ready n m ?se" using ready h by (auto simp: se_ready_def)
  ultimately show ?thesis using h by (intro exI [of _ ?se]) simp
qed

lemma read_loop_step:
  "bs \<noteq> [] \<Longrightarrow> receive_step en po con (tot + int (length bs)) now bs se = (Inr (), se1) \<Longrightarrow>
     read_loop en po con tot (Received now bs # rs) se = read_loop en po con (tot + int (length bs)) rs se1"
  by (simp add: read_loop.simps(3))

declare read_loop.simps(3) [simp del]

lemma se_ready_mono: "se_ready n m se \<Longrightarrow> n' \<le> n \<Longrightarrow> m' \<le> m \<Longrightarrow> se_ready n' m' se"
  by (auto simp: se_ready_def)

text \<open>Frames that arrive one per receive call are all delivered.\<close>

lemma read_loop_frames:
  assumes "\<forall>(now, f, out)\<in>set fs. receives (pe_readImpl en) (pe_handler en) f out"
    and "se_ready (length fs) (sum_list (map (\<lambda>(now, f, out). length f) fs)) se"
    and "bb_unread (se_readBuffer se) = []" and "0 \<le> tot"
  shows "\<exists>se'. read_loop en po con tot (map (\<lambda>(now, f, out). Received now f) fs) se = (Inr (), se') \<and>
    se_world se' = snd (deliver_all (map (\<lambda>(now, f, out). out) fs) (se_world se)) \<and>
    tp_tasks (se_threadPool se') =
      tp_tasks (se_threadPool se) @ fst (deliver_all (map (\<lambda>(now, f, out). out) fs) (se_world se))"
  using assms
proof (induction fs arbitrary: se tot)
  case Nil
  then show ?case by simp
next
  case (Cons x fs)
  obtain now f out where x: "x = (now, f, out)" by (cases x)
  have rc: "receives (pe_readImpl en) (pe_handler en) f out" using Cons.prems(1) x by simp
  have ready: "se_ready (Suc (length fs)) (length f + sum_list (map (\<lambda>(now, f, out). length f) fs)) se"
    using Cons.prems(2) x by simp
  have u: "bb_unread (se_readBuffer se) @ f = f @ []" using Cons.prems(3) by simp
  have ne: "f \<noteq> []" and pos: "0 < tot + int (length f)" using receives_nonempty [OF rc] Cons.prems(4) by auto
  from receive_completes [OF ready rc u pos, of po con now] obtain se1 where
    se1: "receive_step en po con (tot + int (length f)) now f se = (Inr (), se1)"
      "se_ready (length fs) (sum_list (map (\<lambda>(now, f, out). length f) fs)) se1" "bb_unread (se_readBuffer se1) = []"
      "se_world se1 = snd (out (se_world se))"
      "tp_tasks (se_threadPool se1) = tp_tasks (se_threadPool se) @ [fst (out (se_world se))]" by blast
  have "0 \<le> tot + int (length f)" using pos by simp
  with Cons.IH [OF _ se1(2,3) this] Cons.prems(1) show ?case
    by (auto simp: x read_loop_step [OF ne se1(1)] se1(4,5) split: prod.splits)
qed

text \<open>A frame that arrives in pieces, the first with the header, is delivered once complete.\<close>

lemma read_loop_pieces:
  assumes "receives (pe_readImpl en) (pe_handler en) f out" and "length f \<le> bb_size (se_readBuffer se)"
    and "f = bb_unread (se_readBuffer se) @ concat (map snd cs)" and "cs \<noteq> []" and "[] \<notin> snd ` set cs"
    and "bb_read (se_readBuffer se) = 0" and "3 \<le> length (bb_unread (se_readBuffer se) @ snd (hd cs))"
    and "se_ready 1 (length (concat (map snd cs))) se" and "0 \<le> tot"
  shows "\<exists>se'. read_loop en po con tot (map (\<lambda>(now, bs). Received now bs) cs) se = (Inr (), se') \<and>
    se_world se' = snd (out (se_world se)) \<and>
    tp_tasks (se_threadPool se') = tp_tasks (se_threadPool se) @ [fst (out (se_world se))]"
  using assms
proof (induction cs arbitrary: se tot)
  case Nil
  then show ?case by simp
next
  case (Cons x cs)
  obtain now bs where x: "x = (now, bs)" by (cases x)
  have ne: "bs \<noteq> []" using Cons.prems(5) x by auto
  then have pos: "0 < tot + int (length bs)" using Cons.prems(9) by (cases bs) auto
  show ?case
  proof (cases "cs = []")
    case True
    have ready: "se_ready (Suc 0) (length bs + 0) se" using Cons.prems(8) x True by simp
    have "bb_unread (se_readBuffer se) @ bs = f @ []" using Cons.prems(3) x True by simp
    from receive_completes [OF ready Cons.prems(1) this pos, of po con now] show ?thesis
      using True by (auto simp: x read_loop_step [OF ne])
  next
    case False
    let ?part = "bb_unread (se_readBuffer se) @ bs"
    have ready: "se_ready 1 (length bs + length (concat (map snd cs))) se" using Cons.prems(8) x by simp
    have f: "f = ?part @ concat (map snd cs)" using Cons.prems(3) x by simp
    have rest: "concat (map snd cs) \<noteq> []" using False Cons.prems(5) by (cases cs) auto
    have three: "3 \<le> length ?part" using Cons.prems(7) x by simp
    from receive_part [OF ready Cons.prems(1) refl f rest three Cons.prems(6,2) pos, of po con now] obtain se1 where
      se1: "receive_step en po con (tot + int (length bs)) now bs se = (Inr (), se1)"
        "se_ready 1 (length (concat (map snd cs))) se1" "bb_unread (se_readBuffer se1) = ?part"
        "bb_read (se_readBuffer se1) = 0" "bb_size (se_readBuffer se1) = bb_size (se_readBuffer se)"
        "se_world se1 = se_world se" "se_threadPool se1 = se_threadPool se" by blast
    have "\<exists>se'. read_loop en po con (tot + int (length bs)) (map (\<lambda>(now, bs). Received now bs) cs) se1 = (Inr (), se') \<and>
      se_world se' = snd (out (se_world se1)) \<and>
      tp_tasks (se_threadPool se') = tp_tasks (se_threadPool se1) @ [fst (out (se_world se1))]"
    proof (rule Cons.IH [OF Cons.prems(1)])
      show "f = bb_unread (se_readBuffer se1) @ concat (map snd cs)" using f se1(3) by simp
      show "[] \<notin> snd ` set cs" using Cons.prems(5) by simp
      show "3 \<le> length (bb_unread (se_readBuffer se1) @ snd (hd cs))" using three se1(3) by simp
      show "0 \<le> tot + int (length bs)" using pos by simp
    qed (use se1 Cons.prems(2) False in simp_all)
    then show ?thesis by (auto simp: x read_loop_step [OF ne se1(1)] se1(6,7))
  qed
qed

section \<open>Writing: lemmas\<close>

text \<open>
  \<open>pending\<close> is what the write buffer holds; everything written so far is what was sent followed
  by it.
\<close>

lemma append_frame_spec:
  assumes "bb_ok helper" and "bb_ok wb" and "bb_read wb = 0" and "bb_used helper < bb_size wb"
  shows "\<exists>wb' sent'. append_frame helper (wb, sent) = (Inr (), (wb', sent')) \<and> bb_ok wb' \<and> bb_read wb' = 0 \<and>
    bb_size wb' = bb_size wb \<and> concat sent' @ bb_written wb' = concat sent @ bb_written wb @ bb_written helper"
proof (cases "bb_room (bb_used helper) wb")
  case True
  have len: "length (bb_written helper) = bb_used helper"
    using assms(1) by (auto simp: bb_ok_def bb_written_def split: option.splits)
  show ?thesis
    using True assms bb_written_append [of wb "bb_written helper"] bb_ok_append [of wb "bb_written helper"]
    by (simp add: append_frame_def appendContent_spec len)
next
  case False
  have len: "length (bb_written helper) = bb_used helper"
    using assms(1) by (auto simp: bb_ok_def bb_written_def split: option.splits)
  have room: "bb_room (length (bb_written helper)) (reset wb)" using assms(4) len by (simp add: bb_room_def)
  show ?thesis
    using False room assms len bytes_to_send_reset [OF assms(2,3)] reset_ok [OF assms(2)]
      bb_written_append [of "reset wb" "bb_written helper"] bb_ok_append [of "reset wb" "bb_written helper"]
    by (simp add: append_frame_def appendContent_spec)
qed

text \<open>Every packet of the queue is written as its frame, in order, whatever the batches.\<close>

lemma write_loop_spec:
  assumes "\<forall>p\<in>set (con_sendPackets con). sends_frame (writer p) (frame_of p) (bb_size helper)"
    and "bb_ok helper" and "bb_ok wb" and "bb_read wb = 0" and "bb_size helper \<le> bb_size wb"
    and "con_socket con = Some s" and "con_hasPollset con"
  shows "\<exists>helper' wb' sent'. write_loop update writer ((con, ps), helper, wb, sent) =
      (Inr (), ((con\<lparr>con_sendPackets := []\<rparr>, update s {POLL_READ} ps), helper', wb', sent')) \<and>
    bb_ok wb' \<and> bb_read wb' = 0 \<and>
    concat sent' @ bb_written wb' = concat sent @ bb_written wb @ concat (map frame_of (con_sendPackets con))"
  using assms
proof (induction "con_sendPackets con" arbitrary: con helper wb sent)
  case Nil
  have "pollSendablePacket update (con, ps) = (Inr None, (con\<lparr>con_sendPackets := []\<rparr>, update s {POLL_READ} ps))"
    using Nil by (simp add: pollSendablePacket_def update_poll_def sx_seq_def sx_bind_def sx_return_def)
  then show ?case using Nil by (subst write_loop.simps) simp
next
  case (Cons p qs)
  let ?con = "con\<lparr>con_sendPackets := qs\<rparr>"
  have queue: "con_sendPackets con = p # qs" using Cons.hyps(2) by simp
  have poll: "pollSendablePacket update (con, ps) = (Inr (Some p), (?con, ps))"
    using queue by (simp add: pollSendablePacket_def)
  let ?h = "bb_append (frame_of p) (reset helper)"
  have w: "writer p (Some (reset helper)) = (Inr (), Some ?h)" and room: "bb_room (length (frame_of p)) (reset helper)"
    using Cons.prems(1,2) queue reset_ok [of helper] by (auto simp: sends_frame_def)
  have okh: "bb_ok ?h" using reset_ok [OF Cons.prems(2)] room by (rule bb_ok_append)
  have used: "bb_used ?h < bb_size wb" using room Cons.prems(5) by (simp add: bb_room_def)
  have written: "bb_written ?h = frame_of p"
    using bb_written_append [OF reset_ok [OF Cons.prems(2)] room] by simp
  from append_frame_spec [OF okh Cons.prems(3,4) used, of sent] written obtain wb1 sent1 where
    a: "append_frame ?h (wb, sent) = (Inr (), (wb1, sent1))" "bb_ok wb1" "bb_read wb1 = 0" "bb_size wb1 = bb_size wb"
      "concat sent1 @ bb_written wb1 = concat sent @ bb_written wb @ frame_of p" by auto
  have "\<exists>helper' wb' sent'. write_loop update writer ((?con, ps), ?h, wb1, sent1) =
      (Inr (), ((?con\<lparr>con_sendPackets := []\<rparr>, update s {POLL_READ} ps), helper', wb', sent')) \<and>
    bb_ok wb' \<and> bb_read wb' = 0 \<and>
    concat sent' @ bb_written wb' = concat sent1 @ bb_written wb1 @ concat (map frame_of (con_sendPackets ?con))"
    by (rule Cons.hyps(1)) (use Cons.prems queue okh a in simp_all)
  moreover have "concat sent1 @ bb_written wb1 @ x = concat sent @ bb_written wb @ frame_of p @ x" for x
    using a(5) by (metis append.assoc)
  ultimately show ?case
    by (subst write_loop.simps) (simp add: poll write_packet_def w a(1) queue)
qed

text \<open>With room for all of them in the write buffer, the frames make up one batch.\<close>

lemma write_loop_batch:
  assumes "\<forall>p\<in>set (con_sendPackets con). sends_frame (writer p) (frame_of p) (bb_size helper)"
    and "bb_ok helper" and "bb_ok wb"
    and "bb_used wb + length (concat (map frame_of (con_sendPackets con))) < bb_size wb"
    and "con_socket con = Some s" and "con_hasPollset con"
  shows "\<exists>helper'. write_loop update writer ((con, ps), helper, wb, sent) =
      (Inr (), ((con\<lparr>con_sendPackets := []\<rparr>, update s {POLL_READ} ps), helper',
        bb_append (concat (map frame_of (con_sendPackets con))) wb, sent))"
  using assms
proof (induction "con_sendPackets con" arbitrary: con helper wb)
  case Nil
  have "pollSendablePacket update (con, ps) = (Inr None, (con\<lparr>con_sendPackets := []\<rparr>, update s {POLL_READ} ps))"
    using Nil by (simp add: pollSendablePacket_def update_poll_def sx_seq_def sx_bind_def sx_return_def)
  moreover have "bb_append [] wb = wb" by (cases "bb_buf wb") (simp_all add: bb_append_def)
  ultimately show ?case using Nil by (subst write_loop.simps) simp
next
  case (Cons p qs)
  let ?con = "con\<lparr>con_sendPackets := qs\<rparr>"
  have queue: "con_sendPackets con = p # qs" using Cons.hyps(2) by simp
  have poll: "pollSendablePacket update (con, ps) = (Inr (Some p), (?con, ps))"
    using queue by (simp add: pollSendablePacket_def)
  let ?h = "bb_append (frame_of p) (reset helper)" and ?wb = "bb_append (frame_of p) wb"
  have w: "writer p (Some (reset helper)) = (Inr (), Some ?h)" and room: "bb_room (length (frame_of p)) (reset helper)"
    using Cons.prems(1,2) queue reset_ok [of helper] by (auto simp: sends_frame_def)
  have okh: "bb_ok ?h" using reset_ok [OF Cons.prems(2)] room by (rule bb_ok_append)
  have written: "bb_written ?h = frame_of p"
    using bb_written_append [OF reset_ok [OF Cons.prems(2)] room] by simp
  have fits: "bb_room (length (frame_of p)) wb" using Cons.prems(4) queue by (simp add: bb_room_def)
  have okw: "bb_ok ?wb" using Cons.prems(3) fits by (rule bb_ok_append)
  have a: "append_frame ?h (wb, sent) = (Inr (), (?wb, sent))"
    using fits by (simp add: append_frame_def appendContent_spec [OF Cons.prems(3) okh] written)
  have "\<exists>helper'. write_loop update writer ((?con, ps), ?h, ?wb, sent) =
      (Inr (), ((?con\<lparr>con_sendPackets := []\<rparr>, update s {POLL_READ} ps), helper',
        bb_append (concat (map frame_of (con_sendPackets ?con))) ?wb, sent))"
    by (rule Cons.hyps(1)) (use Cons.prems queue okh okw in simp_all)
  moreover have "bb_append cs ?wb = bb_append (frame_of p @ cs) wb" if "cs = concat (map frame_of qs)" for cs
    using Cons.prems(4) queue that by (intro bb_append_append [OF Cons.prems(3)]) (simp add: bb_room_def)
  ultimately show ?case
    by (subst write_loop.simps) (simp add: poll write_packet_def w a queue)
qed

text \<open>So one call to the socket gets them all.\<close>

lemma writeToConnection_batch:
  assumes "\<forall>p\<in>set (con_sendPackets con).
      sends_frame (pe_writePacket en p) (frame_of p) (bb_size (se_writeBufferHelper se))"
    and "bb_ok (se_writeBufferHelper se)" and "bb_ok (se_writeBuffer se)"
    and "length (concat (map frame_of (con_sendPackets con))) < bb_size (se_writeBuffer se)"
    and "concat (map frame_of (con_sendPackets con)) \<noteq> []"
    and "con_socket con = Some s" and "con_hasPollset con"
  shows "\<exists>se'. writeToConnection en po fd con se = (Inr (), se') \<and>
    se_sent se' = se_sent se @ [(fd, concat (map frame_of (con_sendPackets con)))] \<and>
    se_readBuffer se' = se_readBuffer se \<and> se_threadPool se' = se_threadPool se \<and> se_world se' = se_world se"
proof -
  let ?bs = "concat (map frame_of (con_sendPackets con))" and ?wb = "reset (se_writeBuffer se)"
  have ok: "bb_ok ?wb" using assms(3) by (rule reset_ok)
  have room: "bb_room (length ?bs) ?wb" using assms(4) by (simp add: bb_room_def)
  from write_loop_batch [OF assms(1,2) ok _ assms(6,7), of "po_update po" "se_socketProcessSet se" "[]"] assms(4)
  obtain helper where w: "write_loop (po_update po) (pe_writePacket en)
      ((con, se_socketProcessSet se), se_writeBufferHelper se, ?wb, []) =
      (Inr (), ((con\<lparr>con_sendPackets := []\<rparr>, po_update po s {POLL_READ} (se_socketProcessSet se)), helper,
        bb_append ?bs ?wb, []))"
    by auto
  have "bytes_to_send (bb_append ?bs ?wb) = Inr ?bs"
    using bytes_to_send_reset [OF bb_ok_append [OF ok room]] bb_written_append [OF ok room] by simp
  then show ?thesis
    using assms(5) by (simp add: writeToConnection_def w Let_def getUsedSize_def)
qed

section \<open>An example\<close>

text \<open>A server whose packets are a \<open>short\<close> with opcode 1.\<close>

definition short_env :: "(unit, unit, 16 word, 16 word) packet_env" where
  "short_env =
     \<lparr>pe_readImpl = (\<lambda>_. rp_readShort), pe_handler = short_handler,
      pe_address = (\<lambda>_. ''10.0.0.5''), pe_writePacket = (\<lambda>s. writePacket 1 (sp_writeShort s))\<rparr>"

definition short_polls :: "(int \<Rightarrow> poll_flag set) poll_ops" where
  "short_polls = \<lparr>po_add = (\<lambda>fd m ps. ps(fd := m)), po_update = (\<lambda>fd m ps. ps(fd := m)), po_remove = (\<lambda>fd ps. ps(fd := {}))\<rparr>"

definition short_selector :: "(unit, 16 word, 16 word, int \<Rightarrow> poll_flag set) selector" where
  "short_selector = SelectorThread_new (\<lambda>_. 0) (\<lambda>_. {}) (ThreadPool_new 0) ()"

lemma short_env_receives: "receives (pe_readImpl short_env) (pe_handler short_env) (short_frame s) (\<lambda>w. (s, w))"
  by (simp add: short_env_def short_receives)

lemma short_env_sends: "5 < n \<Longrightarrow> sends_frame (pe_writePacket short_env s) (short_frame s) n"
  by (simp add: short_env_def short_sends)

lemma resize_unused:
  assumes "bb_ok b" and "bb_used b = 0" and "0 < n" and "n < 9223372036854775808"
  shows "bb_ok (snd (resize fresh n b))" "bb_size (snd (resize fresh n b)) = n"
  using assms by (auto simp: resize_def bb_ok_def Let_def split: option.splits)

lemma SelectorThread_new_buffers:
  "bb_ok (se_readBuffer (SelectorThread_new fresh ps tp w))"
  "bb_buf (se_readBuffer (SelectorThread_new fresh ps tp w)) \<noteq> None"
  "bb_size (se_readBuffer (SelectorThread_new fresh ps tp w)) = 65535"
  "bb_ok (se_writeBuffer (SelectorThread_new fresh ps tp w))"
  "bb_size (se_writeBuffer (SelectorThread_new fresh ps tp w)) = 65535"
  "bb_ok (se_writeBufferHelper (SelectorThread_new fresh ps tp w))"
  "bb_size (se_writeBufferHelper (SelectorThread_new fresh ps tp w)) = 8192"
  by (simp_all add: SelectorThread_new_def ByteBuffer_default_def ByteBuffer_sized_ok ByteBuffer_sized_buf resize_unused
      del: upt_rec_numeral)

lemma createWorker_none_ended: "none_ended tp \<Longrightarrow> none_ended (createWorker now tp)"
  by (auto simp: none_ended_def)

lemma create_workers_none_ended: "none_ended tp \<Longrightarrow> none_ended (create_workers n now tp)"
  by (induction n arbitrary: tp) (auto intro: createWorker_none_ended)

lemma ThreadPool_new_none_ended: "none_ended (ThreadPool_new now)"
  unfolding ThreadPool_new_def initializeThreadPool_def if_True snd_conv
  by (rule create_workers_none_ended) (simp add: none_ended_def)

lemma short_selector_pool:
  "none_ended (se_threadPool short_selector)" "tp_tasks (se_threadPool short_selector) = []"
  "tp_maxQueueSize (se_threadPool short_selector) = 256"
  by (simp_all add: short_selector_def SelectorThread_new_def ThreadPool_new_none_ended ThreadPool_new_simps)

lemma short_selector_buffers:
  "bb_ok (se_readBuffer short_selector)" "bb_buf (se_readBuffer short_selector) \<noteq> None"
  "bb_size (se_readBuffer short_selector) = 65535"
  "bb_ok (se_writeBuffer short_selector)" "bb_size (se_writeBuffer short_selector) = 65535"
  "bb_ok (se_writeBufferHelper short_selector)" "bb_size (se_writeBufferHelper short_selector) = 8192"
  unfolding short_selector_def by (rule SelectorThread_new_buffers)+

section \<open>Properties\<close>

text \<open>
  Property C37. Frames that arrive one per receive call are delivered: the packets go to the thread pool in
  order, each read exactly once, provided the read buffer and the queue of the pool have room and
  no worker has ended.
\<close>

theorem selector_delivers_frames:
  assumes "\<forall>(now, f, out)\<in>set fs. receives (pe_readImpl en) (pe_handler en) f out"
    and "con_socket con \<noteq> None" and "bb_ok (se_readBuffer se)" and "bb_buf (se_readBuffer se) \<noteq> None"
    and "sum_list (map (\<lambda>(now, f, out). length f) fs) \<le> bb_size (se_readBuffer se)"
    and "none_ended (se_threadPool se)"
    and "length (tp_tasks (se_threadPool se)) + length fs \<le> unat (tp_maxQueueSize (se_threadPool se))"
  shows "\<exists>se'. readFromConnection en po con (map (\<lambda>(now, f, out). Received now f) fs) se = (Inr (), se') \<and>
    se_world se' = snd (deliver_all (map (\<lambda>(now, f, out). out) fs) (se_world se)) \<and>
    tp_tasks (se_threadPool se') =
      tp_tasks (se_threadPool se) @ fst (deliver_all (map (\<lambda>(now, f, out). out) fs) (se_world se))"
proof -
  let ?se = "se\<lparr>se_readBuffer := reset (se_readBuffer se)\<rparr>"
  have "bb_buf (reset (se_readBuffer se)) \<noteq> None" using assms(4) by (simp add: reset_def)
  then have "se_ready (length fs) (sum_list (map (\<lambda>(now, f, out). length f) fs)) ?se"
    using assms by (simp add: se_ready_def reset_ok)
  from read_loop_frames [OF assms(1) this, of 0] assms(2) show ?thesis
    by (simp add: readFromConnection_def Let_def)
qed

theorem selector_delivers_frames_witness:
  "\<exists>se'. readFromConnection short_env short_polls (Connection_new 5)
      [Received 1 (short_frame 7), Received 2 (short_frame 8)] short_selector = (Inr (), se') \<and>
    tp_tasks (se_threadPool se') = [7, 8]"
proof -
  have "\<forall>(now, f, out)\<in>set [(1, short_frame 7, \<lambda>w. (7, w)), (2, short_frame 8, \<lambda>w. (8, w))].
      receives (pe_readImpl short_env) (pe_handler short_env) f out"
    by (simp add: short_env_receives)
  from selector_delivers_frames [OF this, of "Connection_new 5" short_selector short_polls] show ?thesis
    by (simp add: Connection_new_def short_selector_buffers short_selector_pool)
qed

lemma read_joined:
  assumes "receives (pe_readImpl en) (pe_handler en) (concat (map snd cs)) out" and "[] \<notin> snd ` set cs"
    and "3 \<le> length (snd (hd cs))"
    and "con_socket con \<noteq> None" and "bb_ok (se_readBuffer se)" and "bb_buf (se_readBuffer se) \<noteq> None"
    and "length (concat (map snd cs)) \<le> bb_size (se_readBuffer se)"
    and "none_ended (se_threadPool se)"
    and "length (tp_tasks (se_threadPool se)) < unat (tp_maxQueueSize (se_threadPool se))"
  shows "\<exists>se'. readFromConnection en po con (map (\<lambda>(now, bs). Received now bs) cs) se = (Inr (), se') \<and>
    se_world se' = snd (out (se_world se)) \<and>
    tp_tasks (se_threadPool se') = tp_tasks (se_threadPool se) @ [fst (out (se_world se))]"
proof -
  let ?se = "se\<lparr>se_readBuffer := reset (se_readBuffer se)\<rparr>"
  have cs: "cs \<noteq> []" using receives_nonempty [OF assms(1)] by auto
  have "bb_buf (reset (se_readBuffer se)) \<noteq> None" using assms(6) by (simp add: reset_def)
  then have "se_ready 1 (length (concat (map snd cs))) ?se"
    using assms by (simp add: se_ready_def reset_ok)
  moreover have "concat (map snd cs) = bb_unread (se_readBuffer ?se) @ concat (map snd cs)"
    "bb_read (se_readBuffer ?se) = 0" "3 \<le> length (bb_unread (se_readBuffer ?se) @ snd (hd cs))"
    "length (concat (map snd cs)) \<le> bb_size (se_readBuffer ?se)"
    using assms(3,7) by simp_all
  ultimately show ?thesis
    using read_loop_pieces [OF assms(1) _ _ cs assms(2), of ?se 0 po con] assms(4)
    by (simp add: readFromConnection_def Let_def)
qed

text \<open>
  A frame that arrives in several receive calls is put together, provided the first call
  brings its three header bytes: once the last byte is there the packet goes to the pool.
\<close>

theorem selector_joins_pieces:
  assumes "receives (pe_readImpl en) (pe_handler en) (concat (map snd cs)) out" and "[] \<notin> snd ` set cs"
    and "3 \<le> length (snd (hd cs))"
    and "con_socket con \<noteq> None" and "bb_ok (se_readBuffer se)" and "bb_buf (se_readBuffer se) \<noteq> None"
    and "length (concat (map snd cs)) \<le> bb_size (se_readBuffer se)"
    and "none_ended (se_threadPool se)"
    and "length (tp_tasks (se_threadPool se)) < unat (tp_maxQueueSize (se_threadPool se))"
  shows "\<exists>se'. readFromConnection en po con (map (\<lambda>(now, bs). Received now bs) cs) se = (Inr (), se') \<and>
    se_world se' = snd (out (se_world se)) \<and>
    tp_tasks (se_threadPool se') = tp_tasks (se_threadPool se) @ [fst (out (se_world se))]"
  by (rule read_joined) (use assms in simp_all)

theorem selector_joins_pieces_witness:
  "\<exists>se'. readFromConnection short_env short_polls (Connection_new 5)
      [Received 1 (take 4 (short_frame 7)), Received 2 (drop 4 (short_frame 7))] short_selector = (Inr (), se') \<and>
    tp_tasks (se_threadPool se') = [7]"
proof -
  let ?cs = "[(1, take 4 (short_frame 7)), (2, drop 4 (short_frame 7))]"
  have r: "receives (pe_readImpl short_env) (pe_handler short_env) (concat (map snd ?cs)) (\<lambda>w. (7, w))"
    using short_env_receives [of 7] by simp
  have ne: "[] \<notin> snd ` set ?cs"
  proof
    assume "[] \<in> snd ` set ?cs"
    then have "length (take 4 (short_frame 7)) = 0 \<or> length (drop 4 (short_frame 7)) = 0" by auto
    then show False by (simp only: length_take length_drop length_short_frame) simp
  qed
  have "3 \<le> length (snd (hd ?cs))" by simp
  from selector_joins_pieces [OF r ne this, of "Connection_new 5" short_selector short_polls] show ?thesis
    by (simp add: Connection_new_def short_selector_buffers short_selector_pool)
qed

text \<open>
  Two packets that arrive in one receive call: the first is delivered, the second is not. It
  stays in the buffer, and the next time the selector reads from a connection, it is discarded.
\<close>

theorem selector_loses_second_packet:
  assumes "receives (pe_readImpl en) (pe_handler en) f1 out1" and "receives (pe_readImpl en) (pe_handler en) f2 out2"
    and "receives (pe_readImpl en) (pe_handler en) f3 out3"
    and "con_socket con \<noteq> None" and "bb_ok (se_readBuffer se)" and "bb_buf (se_readBuffer se) \<noteq> None"
    and "length f1 + length f2 \<le> bb_size (se_readBuffer se)" and "length f3 \<le> bb_size (se_readBuffer se)"
    and "none_ended (se_threadPool se)"
    and "length (tp_tasks (se_threadPool se)) + 2 \<le> unat (tp_maxQueueSize (se_threadPool se))"
  shows "\<exists>se1 se2. readFromConnection en po con [Received now1 (f1 @ f2)] se = (Inr (), se1) \<and>
    bb_unread (se_readBuffer se1) = f2 \<and>
    readFromConnection en po con [Received now2 f3] se1 = (Inr (), se2) \<and>
    tp_tasks (se_threadPool se2) = tp_tasks (se_threadPool se) @
      [fst (out1 (se_world se)), fst (out3 (snd (out1 (se_world se))))]"
proof -
  let ?se = "se\<lparr>se_readBuffer := reset (se_readBuffer se)\<rparr>"
  have "bb_buf (reset (se_readBuffer se)) \<noteq> None" using assms(6) by (simp add: reset_def)
  then have ready: "se_ready (Suc 1) (length (f1 @ f2) + 0) ?se"
    using assms by (simp add: se_ready_def reset_ok)
  have ne: "f1 @ f2 \<noteq> []" "0 < 0 + int (length (f1 @ f2))" using receives_nonempty [OF assms(1)] by auto
  obtain se1 where se1: "receive_step en po con (0 + int (length (f1 @ f2))) now1 (f1 @ f2) ?se = (Inr (), se1)"
      "se_ready 1 0 se1" "bb_unread (se_readBuffer se1) = f2" "se_world se1 = snd (out1 (se_world se))"
      "bb_size (se_readBuffer se1) = bb_size (se_readBuffer se)"
      "tp_tasks (se_threadPool se1) = tp_tasks (se_threadPool se) @ [fst (out1 (se_world se))]"
    using receive_completes [OF ready assms(1) _ ne(2), of f2 po con now1] by auto
  have r1: "readFromConnection en po con [Received now1 (f1 @ f2)] se = (Inr (), se1)"
    using assms(4) read_loop_step [OF ne(1) se1(1), of "[]"] by (simp add: readFromConnection_def Let_def)
  have ok1: "bb_ok (se_readBuffer se1)" "bb_buf (se_readBuffer se1) \<noteq> None" "none_ended (se_threadPool se1)"
    "length (tp_tasks (se_threadPool se1)) + 1 \<le> unat (tp_maxQueueSize (se_threadPool se1))"
    using se1(2) by (auto simp: se_ready_def)
  have size: "length f3 \<le> bb_size (se_readBuffer se1)" using se1(5) assms(8) by simp
  have "\<exists>se2. readFromConnection en po con (map (\<lambda>(now, bs). Received now bs) [(now2, f3)]) se1 = (Inr (), se2) \<and>
    se_world se2 = snd (out3 (se_world se1)) \<and>
    tp_tasks (se_threadPool se2) = tp_tasks (se_threadPool se1) @ [fst (out3 (se_world se1))]"
    by (rule read_joined)
      (use assms(3,4) ok1 size receives_nonempty [OF assms(3)] in auto)
  then show ?thesis using r1 se1 by auto
qed

theorem selector_loses_second_packet_witness:
  "\<exists>se1 se2. readFromConnection short_env short_polls (Connection_new 5)
      [Received 1 (short_frame 7 @ short_frame 8)] short_selector = (Inr (), se1) \<and>
    readFromConnection short_env short_polls (Connection_new 5) [Received 2 (short_frame 9)] se1 = (Inr (), se2) \<and>
    tp_tasks (se_threadPool se2) = [7, 9]"
  using selector_loses_second_packet [OF short_env_receives [of 7] short_env_receives [of 8] short_env_receives [of 9],
      of "Connection_new 5" short_selector short_polls 1 2]
  by (simp add: Connection_new_def short_selector_buffers short_selector_pool) blast

text \<open>
  Reading never removes a connection and never ends the thread. The branch that removes a
  connection on an empty read is not reachable, so a connection whose peer has closed it stays;
  whatever a peer sends, an exception of a packet or of a full pool is caught, and all that can
  leave the function is an exception of the socket or undefined behaviour.
\<close>

theorem reading_keeps_connections:
  assumes "readFromConnection en po con rs se = (r, se')"
  shows "se_connections se' = se_connections se \<and> (\<forall>e. r = Inl e \<longrightarrow> is_ub e \<or> e = Net_exception)"
  using readFromConnection_net [OF assms] by (simp add: se_net_def)

theorem reading_keeps_connections_witness:
  "se_connections (snd (readFromConnection short_env short_polls (setPollSetSource True (Connection_new 5))
     [Received 1 []] (snd (addConnection short_polls (Connection_new 5) short_selector)))) =
   [(5, setPollSetSource True (Connection_new 5))]"
proof -
  have "se_connections (snd (addConnection short_polls (Connection_new 5) short_selector)) =
      [(5, setPollSetSource True (Connection_new 5))]"
    by (simp add: addConnection_def Connection_new_def getSockFD_def short_selector_def SelectorThread_new_def um_set_def)
  then show ?thesis
    using reading_keeps_connections [OF surjective_pairing [of "readFromConnection short_env short_polls
        (setPollSetSource True (Connection_new 5)) [Received 1 []]
        (snd (addConnection short_polls (Connection_new 5) short_selector))"]] by simp
qed

text \<open>
  Writing to a connection empties its queue: the bytes given to the socket, whatever their
  division into calls, are the frames of the queued packets in order, provided each frame fits
  the helper buffer; and the socket is then polled for reading only.
\<close>

theorem writeToConnection_sends_frames:
  assumes "\<forall>p\<in>set (con_sendPackets con).
      sends_frame (pe_writePacket en p) (frame_of p) (bb_size (se_writeBufferHelper se))"
    and "bb_ok (se_writeBufferHelper se)" and "bb_ok (se_writeBuffer se)"
    and "bb_size (se_writeBufferHelper se) \<le> bb_size (se_writeBuffer se)"
    and "con_socket con = Some s" and "con_hasPollset con" and "um_find (se_connections se) fd = Some con"
  shows "\<exists>se' sent. writeToConnection en po fd con se = (Inr (), se') \<and>
    se_sent se' = se_sent se @ map (Pair fd) sent \<and> concat sent = concat (map frame_of (con_sendPackets con)) \<and>
    um_find (se_connections se') fd = Some (con\<lparr>con_sendPackets := []\<rparr>) \<and>
    se_socketProcessSet se' = po_update po s {POLL_READ} (se_socketProcessSet se)"
proof -
  from write_loop_spec [OF assms(1,2) reset_ok [OF assms(3)] _ _ assms(5,6), of "po_update po" "se_socketProcessSet se" "[]"]
  obtain helper wb sent where w: "write_loop (po_update po) (pe_writePacket en)
      ((con, se_socketProcessSet se), se_writeBufferHelper se, reset (se_writeBuffer se), []) =
      (Inr (), ((con\<lparr>con_sendPackets := []\<rparr>, po_update po s {POLL_READ} (se_socketProcessSet se)), helper, wb, sent))"
      "bb_ok wb" "bb_read wb = 0" "concat sent @ bb_written wb = concat (map frame_of (con_sendPackets con))"
    using assms(4) by auto
  have r: "um_find (um_replace fd c (se_connections se)) fd = Some c" for c
    using assms(7) by (simp add: um_find_replace)
  show ?thesis
  proof (cases "bb_used wb > 0")
    case True
    then show ?thesis
      using w(4) bytes_to_send_reset [OF w(2,3)]
      by (intro exI [of _ "snd (writeToConnection en po fd con se)"] exI [of _ "sent @ [bb_written wb]"])
        (simp add: writeToConnection_def w(1) Let_def getUsedSize_def r)
  next
    case False
    then have "bb_written wb = []" by (auto simp: bb_written_def split: option.splits)
    then show ?thesis
      using w(4) False
      by (intro exI [of _ "snd (writeToConnection en po fd con se)"] exI [of _ sent])
        (simp add: writeToConnection_def w(1) Let_def getUsedSize_def r)
  qed
qed

theorem writeToConnection_sends_frames_witness:
  "\<exists>se' sent. writeToConnection short_env short_polls 5
      ((setPollSetSource True (Connection_new 5))\<lparr>con_sendPackets := [7, 8]\<rparr>)
      (short_selector\<lparr>se_connections := [(5, (setPollSetSource True (Connection_new 5))\<lparr>con_sendPackets := [7, 8]\<rparr>)]\<rparr>) =
      (Inr (), se') \<and> se_sent se' = map (Pair 5) sent \<and> concat sent = short_frame 7 @ short_frame 8"
proof -
  let ?con = "(setPollSetSource True (Connection_new 5))\<lparr>con_sendPackets := [7, 8]\<rparr> :: 16 word connection"
  let ?se = "short_selector\<lparr>se_connections := [(5, ?con)]\<rparr>"
  have s: "\<forall>p\<in>set (con_sendPackets ?con).
      sends_frame (pe_writePacket short_env p) (short_frame p) (bb_size (se_writeBufferHelper ?se))"
    by (simp add: short_env_sends short_selector_buffers)
  have c: "con_socket ?con = Some 5" "con_hasPollset ?con"
    by (simp_all add: setPollSetSource_def Connection_new_def)
  have b: "bb_ok (se_writeBufferHelper ?se)" "bb_ok (se_writeBuffer ?se)"
    "bb_size (se_writeBufferHelper ?se) \<le> bb_size (se_writeBuffer ?se)"
    by (simp_all add: short_selector_buffers)
  have sent: "se_sent ?se = []" by (simp add: short_selector_def SelectorThread_new_def)
  have "um_find (se_connections ?se) 5 = Some ?con" by simp
  from writeToConnection_sends_frames [OF s b c this, of short_polls] show ?thesis
    by (elim exE conjE, intro exI conjI) (auto simp: sent)
qed

end
