(* ===== verification/Server.thy ===== *)
theory Server
  imports Selector
begin

text \<open>
  The server: \<open>ReMoLON_Util/Server.h\<close> and \<open>src/Server.cpp\<close>. It accepts connections and gives each
  to one of its selector threads.

  Accepting is Poco's: \<open>acceptLoop\<close> runs on the list of what its accept calls give, a descriptor or
  an exception. The pool of threads, the packet handler and the program are shared by the
  selector threads through pointers; \<open>start\<close> creates one such thread, which holds them here.
  \<open>RawServer\<close> and \<open>SecureServer\<close> differ in the sockets they create only.
\<close>

section \<open>The object\<close>

record ('w, 'q, 'p, 'ps) server =
  sv_bindIPAddress :: string
  sv_bindPort :: "16 word"
  sv_active :: bool
  sv_selectorWorkers :: "('w, 'q, 'p, 'ps) selector list"

text \<open>\<open>assignConnectionToWorker\<close>: the first worker with the smallest load below 999999.\<close>

fun less_loaded :: "nat \<Rightarrow> nat option \<Rightarrow> nat \<Rightarrow> ('w, 'q, 'p, 'ps) selector list \<Rightarrow> nat option" where
  "less_loaded lessLoad lessLoaded i [] = lessLoaded"
| "less_loaded lessLoad lessLoaded i (worker # ws) =
     (let workerLoad = getNumConnections worker in
      if workerLoad < lessLoad then less_loaded workerLoad (Some i) (Suc i) ws
      else less_loaded lessLoad lessLoaded (Suc i) ws)"

definition assignConnectionToWorker ::
  "'ps poll_ops \<Rightarrow> 'p connection \<Rightarrow> (('w, 'q, 'p, 'ps) server, unit) sx" where
  "assignConnectionToWorker po con sv =
     (case less_loaded 999999 None 0 (sv_selectorWorkers sv) of
        None \<Rightarrow> (Inr (), sv)
      | Some i \<Rightarrow>
          (case addConnection po con (sv_selectorWorkers sv ! i) of
             (r, w) \<Rightarrow> (map_sum id (\<lambda>_. ()) r, sv\<lparr>sv_selectorWorkers := (sv_selectorWorkers sv)[i := w]\<rparr>)))"

datatype accept = Accepted_socket int | Accept_failed

text \<open>An exception is reported and the loop goes on.\<close>

fun acceptLoop :: "'ps poll_ops \<Rightarrow> accept list \<Rightarrow> (('w, 'q, 'p, 'ps) server, unit) sx" where
  "acceptLoop po [] sv = (Inr (), sv)"
| "acceptLoop po (a # as) sv =
     (if \<not> sv_active sv then (Inr (), sv)
      else (case a of
              Accept_failed \<Rightarrow> acceptLoop po as sv
            | Accepted_socket fd \<Rightarrow>
                (case assignConnectionToWorker po (Connection_new fd) sv of
                   (Inl e, sv1) \<Rightarrow> (if is_ub e then (Inl e, sv1) else acceptLoop po as sv1)
                 | (Inr _, sv1) \<Rightarrow> acceptLoop po as sv1)))"

text \<open>\<open>start\<close>, up to the accepting, which it does itself or in a thread of its own.\<close>

definition server_start ::
  "(nat \<Rightarrow> byte) \<Rightarrow> 'ps \<Rightarrow> 'q threadPool \<Rightarrow> 'w \<Rightarrow> ('w, 'q, 'p, 'ps) server \<Rightarrow> ('w, 'q, 'p, 'ps) server" where
  "server_start fresh ps tp w sv =
     sv\<lparr>sv_active := True, sv_selectorWorkers := sv_selectorWorkers sv @ [SelectorThread_new fresh ps tp w]\<rparr>"

definition server_shutDown :: "('w, 'q, 'p, 'ps) server \<Rightarrow> ('w, 'q, 'p, 'ps) server" where
  "server_shutDown sv =
     (if sv_active sv
      then sv\<lparr>sv_active := False,
             sv_selectorWorkers :=
               map (\<lambda>w. (selector_shutDown w)\<lparr>se_threadPool := snd (tp_shutDown (se_threadPool w))\<rparr>) (sv_selectorWorkers sv)\<rparr>
      else sv)"

section \<open>Lemmas\<close>

text \<open>The choice, relative to the best load so far.\<close>

lemma less_loaded_spec:
  assumes "less_loaded ld best i ws = r"
  shows "(r = best \<and> (\<forall>w\<in>set ws. ld \<le> getNumConnections w)) \<or>
    (\<exists>j. r = Some (i + j) \<and> j < length ws \<and> getNumConnections (ws ! j) < ld \<and>
       (\<forall>w\<in>set ws. getNumConnections (ws ! j) \<le> getNumConnections w))"
  using assms
proof (induction ld best i ws rule: less_loaded.induct)
  case (1 ld best i)
  then show ?case by simp
next
  case (2 ld best i w ws)
  let ?load = "getNumConnections w"
  show ?case
  proof (cases "?load < ld")
    case True
    then have "less_loaded ?load (Some i) (Suc i) ws = r" using 2(3) by (simp add: Let_def)
    from 2(1) [OF refl True this] show ?thesis
    proof
      assume "r = Some i \<and> (\<forall>w\<in>set ws. ?load \<le> getNumConnections w)"
      then show ?thesis using True by (intro disjI2 exI [of _ 0]) simp
    next
      assume "\<exists>j. r = Some (Suc i + j) \<and> j < length ws \<and> getNumConnections (ws ! j) < ?load \<and>
        (\<forall>w\<in>set ws. getNumConnections (ws ! j) \<le> getNumConnections w)"
      then obtain j where "r = Some (Suc i + j)" "j < length ws" "getNumConnections (ws ! j) < ?load"
        "\<forall>w\<in>set ws. getNumConnections (ws ! j) \<le> getNumConnections w" by blast
      then show ?thesis using True by (intro disjI2 exI [of _ "Suc j"]) simp
    qed
  next
    case False
    then have "less_loaded ld best (Suc i) ws = r" using 2(3) by (simp add: Let_def)
    from 2(2) [OF refl False this] show ?thesis
    proof
      assume "r = best \<and> (\<forall>w\<in>set ws. ld \<le> getNumConnections w)"
      then show ?thesis using False by (intro disjI1) simp
    next
      assume "\<exists>j. r = Some (Suc i + j) \<and> j < length ws \<and> getNumConnections (ws ! j) < ld \<and>
        (\<forall>w\<in>set ws. getNumConnections (ws ! j) \<le> getNumConnections w)"
      then obtain j where "r = Some (Suc i + j)" "j < length ws" "getNumConnections (ws ! j) < ld"
        "\<forall>w\<in>set ws. getNumConnections (ws ! j) \<le> getNumConnections w" by blast
      then show ?thesis using False by (intro disjI2 exI [of _ "Suc j"]) simp
    qed
  qed
qed

section \<open>Properties\<close>

text \<open>
  A new connection goes to a worker with the fewest connections: when some worker has fewer than
  999999 and the descriptor is new to every worker, one worker with the smallest load gets the
  connection, polled for reading, and the other workers are not touched.
\<close>

theorem assigned_to_least_loaded:
  assumes "\<exists>w\<in>set (sv_selectorWorkers sv). getNumConnections w < 999999"
    and "\<forall>w\<in>set (sv_selectorWorkers sv). um_find (se_connections w) fd = None"
  shows "\<exists>i sv'. assignConnectionToWorker po (Connection_new fd) sv = (Inr (), sv') \<and>
    i < length (sv_selectorWorkers sv) \<and>
    (\<forall>w\<in>set (sv_selectorWorkers sv). getNumConnections (sv_selectorWorkers sv ! i) \<le> getNumConnections w) \<and>
    um_find (se_connections (sv_selectorWorkers sv' ! i)) fd = Some (setPollSetSource True (Connection_new fd)) \<and>
    getNumConnections (sv_selectorWorkers sv' ! i) = Suc (getNumConnections (sv_selectorWorkers sv ! i)) \<and>
    se_socketProcessSet (sv_selectorWorkers sv' ! i) =
      po_add po fd {POLL_READ} (se_socketProcessSet (sv_selectorWorkers sv ! i)) \<and>
    (\<forall>j. j \<noteq> i \<longrightarrow> sv_selectorWorkers sv' ! j = sv_selectorWorkers sv ! j)"
proof -
  from less_loaded_spec [OF refl, of 999999 None 0 "sv_selectorWorkers sv"] assms(1) obtain i where
    i: "less_loaded 999999 None 0 (sv_selectorWorkers sv) = Some i" "i < length (sv_selectorWorkers sv)"
      "\<forall>w\<in>set (sv_selectorWorkers sv). getNumConnections (sv_selectorWorkers sv ! i) \<le> getNumConnections w"
    by force
  have new: "um_find (se_connections (sv_selectorWorkers sv ! i)) fd = None" using assms(2) i(2) by simp
  show ?thesis
    by (intro exI [of _ i] exI [of _ "snd (assignConnectionToWorker po (Connection_new fd) sv)"])
      (use i new in \<open>simp add: assignConnectionToWorker_def addConnection_new um_find_set getNumConnections_def um_set_def\<close>)
qed

definition example_server :: "nat \<Rightarrow> (unit, 16 word, 16 word, int \<Rightarrow> poll_flag set) server" where
  "example_server n = \<lparr>sv_bindIPAddress = ''0.0.0.0'', sv_bindPort = 9000, sv_active = True,
     sv_selectorWorkers = replicate n short_selector\<rparr>"

lemma short_selector_empty: "se_connections short_selector = []" "getNumConnections short_selector = 0"
  by (simp_all add: short_selector_def SelectorThread_new_def getNumConnections_def)

theorem assigned_to_least_loaded_witness:
  "\<exists>i sv'. assignConnectionToWorker short_polls (Connection_new 5) (example_server 2) = (Inr (), sv') \<and> i < 2 \<and>
    getNumConnections (sv_selectorWorkers sv' ! i) = 1"
proof -
  have a: "\<exists>w\<in>set (sv_selectorWorkers (example_server 2)). getNumConnections w < 999999"
    by (simp add: example_server_def short_selector_empty)
  have b: "\<forall>w\<in>set (sv_selectorWorkers (example_server 2)). um_find (se_connections w) 5 = None"
    by (simp add: example_server_def short_selector_empty)
  have n: "length (sv_selectorWorkers (example_server 2)) = 2" by (simp add: example_server_def)
  have z: "i < 2 \<Longrightarrow> getNumConnections (sv_selectorWorkers (example_server 2) ! i) = 0" for i
    by (simp add: example_server_def short_selector_empty)
  from assigned_to_least_loaded [OF a b, of short_polls] show ?thesis
    by (elim exE conjE, intro exI conjI) (assumption, simp_all add: n z)
qed

text \<open>The descriptors a run of \<open>acceptLoop\<close> was given.\<close>

definition accepted_sockets :: "accept list \<Rightarrow> int list" where
  "accepted_sockets as = List.map_filter (\<lambda>a. case a of Accepted_socket fd \<Rightarrow> Some fd | Accept_failed \<Rightarrow> None) as"

lemma accepted_sockets_simps [simp]:
  "accepted_sockets [] = []" "accepted_sockets (Accept_failed # as) = accepted_sockets as"
  "accepted_sockets (Accepted_socket fd # as) = fd # accepted_sockets as"
  by (simp_all add: accepted_sockets_def List.map_filter_simps)

lemma acceptLoop_one_worker:
  assumes "sv_active sv" and "sv_selectorWorkers sv = [w]" and "distinct (accepted_sockets as)"
    and "\<forall>fd\<in>set (accepted_sockets as). um_find (se_connections w) fd = None"
    and "getNumConnections w + length (accepted_sockets as) \<le> 999999"
  shows "\<exists>sv' w'. acceptLoop po as sv = (Inr (), sv') \<and> sv_selectorWorkers sv' = [w'] \<and>
    getNumConnections w' = getNumConnections w + length (accepted_sockets as) \<and>
    (\<forall>fd. um_find (se_connections w') fd =
       (if fd \<in> set (accepted_sockets as) then Some (setPollSetSource True (Connection_new fd))
        else um_find (se_connections w) fd))"
  using assms
proof (induction as arbitrary: sv w)
  case Nil
  then show ?case by simp
next
  case (Cons a as)
  show ?case
  proof (cases a)
    case Accept_failed
    then show ?thesis using Cons.IH [OF Cons.prems(1,2)] Cons.prems by simp
  next
    case (Accepted_socket fd)
    let ?w = "w\<lparr>se_connections := um_set fd (setPollSetSource True (Connection_new fd)) (se_connections w),
       se_socketProcessSet := po_add po fd {POLL_READ} (se_socketProcessSet w)\<rparr>"
    let ?sv = "sv\<lparr>sv_selectorWorkers := [?w]\<rparr>"
    have new: "um_find (se_connections w) fd = None" and load: "getNumConnections w < 999999"
      using Cons.prems(4,5) Accepted_socket by simp_all
    have step: "assignConnectionToWorker po (Connection_new fd) sv = (Inr (), ?sv)"
      using Cons.prems(2) load by (simp add: assignConnectionToWorker_def Let_def addConnection_new [OF new])
    have num: "getNumConnections ?w = Suc (getNumConnections w)"
      using new by (simp add: getNumConnections_def um_set_def)
    have "\<exists>sv' w'. acceptLoop po as ?sv = (Inr (), sv') \<and> sv_selectorWorkers sv' = [w'] \<and>
      getNumConnections w' = getNumConnections ?w + length (accepted_sockets as) \<and>
      (\<forall>fd. um_find (se_connections w') fd =
         (if fd \<in> set (accepted_sockets as) then Some (setPollSetSource True (Connection_new fd))
          else um_find (se_connections ?w) fd))"
      by (rule Cons.IH) (use Cons.prems Accepted_socket num in \<open>auto simp: um_find_set\<close>)
    then show ?thesis
      using Cons.prems(1,3) Accepted_socket step num by (auto simp: um_find_set)
  qed
qed

text \<open>
  A server has one selector thread, which gets everything: after a start, whatever calls to accept
  fail, every accepted connection whose descriptor is new belongs to it, up to 999999 of them.
\<close>

theorem started_server_owns_connections:
  assumes "sv_selectorWorkers sv = []" and "distinct (accepted_sockets as)" and "length (accepted_sockets as) \<le> 999999"
  shows "\<exists>sv' w. acceptLoop po as (server_start fresh ps tp world sv) = (Inr (), sv') \<and> sv_selectorWorkers sv' = [w] \<and>
    getNumConnections w = length (accepted_sockets as) \<and>
    (\<forall>fd\<in>set (accepted_sockets as).
       um_find (se_connections w) fd = Some (setPollSetSource True (Connection_new fd)))"
proof -
  let ?w = "SelectorThread_new fresh ps tp world" and ?sv = "server_start fresh ps tp world sv"
  have w: "se_connections ?w = []" "getNumConnections ?w = 0"
    by (simp_all add: SelectorThread_new_def getNumConnections_def)
  have sv: "sv_active ?sv" "sv_selectorWorkers ?sv = [?w]" using assms(1) by (simp_all add: server_start_def)
  have new: "\<forall>fd\<in>set (accepted_sockets as). um_find (se_connections ?w) fd = None"
    and small: "getNumConnections ?w + length (accepted_sockets as) \<le> 999999"
    using assms(3) by (simp_all add: SelectorThread_new_def getNumConnections_def)
  from acceptLoop_one_worker [OF sv assms(2) new small, of po] show ?thesis by (auto simp: w(2))
qed

theorem started_server_owns_connections_witness:
  "\<exists>sv' w. acceptLoop short_polls [Accepted_socket 5, Accept_failed, Accepted_socket 6]
      (server_start (\<lambda>_. 0) (\<lambda>_. {}) (ThreadPool_new 0) () (example_server 0)) = (Inr (), sv') \<and>
    sv_selectorWorkers sv' = [w] \<and> getNumConnections w = 2"
proof -
  let ?as = "[Accepted_socket 5, Accept_failed, Accepted_socket 6]"
  have a: "sv_selectorWorkers (example_server 0) = []" "distinct (accepted_sockets ?as)"
    "length (accepted_sockets ?as) \<le> 999999" "length (accepted_sockets ?as) = 2"
    by (simp_all add: example_server_def)
  from started_server_owns_connections [OF a(1-3), of short_polls "\<lambda>_. 0" "\<lambda>_. {}" "ThreadPool_new 0" "()"]
  show ?thesis unfolding a(4) by blast
qed

end
