(* ===== verification/Config.thy ===== *)
theory Config
  imports Prelude
begin

text \<open>
  The configuration reader: \<open>ReMoLON_Util/Config.h\<close> and \<open>src/Config.cpp\<close>, with what it uses of
  the standard library: \<open>getline\<close>, \<open>find_first_of\<close>, \<open>substr\<close> and \<open>stoi\<close>. A file is its
  content, \<open>None\<close> if it cannot be opened.
\<close>

section \<open>The standard library\<close>

text \<open>\<open>getline\<close>: the lines of a stream; a last line without a newline counts unless it is empty.\<close>

fun lines_of :: "string \<Rightarrow> string list" where
  "lines_of [] = []"
| "lines_of (c # cs) =
     (if c = CHR 0x0A then [] # lines_of cs
      else (case lines_of cs of [] \<Rightarrow> [[c]] | l # ls \<Rightarrow> (c # l) # ls))"

text \<open>\<open>s.find_first_of ( cs, pos )\<close>: \<open>None\<close> is \<open>npos\<close>.\<close>

definition find_first_of :: "string \<Rightarrow> string \<Rightarrow> nat \<Rightarrow> nat option" where
  "find_first_of s cs pos =
     (let k = length (takeWhile (\<lambda>c. c \<notin> set cs) (drop pos s))
      in if pos + k < length s then Some (pos + k) else None)"

definition substr :: "string \<Rightarrow> nat \<Rightarrow> nat \<Rightarrow> string" where
  "substr s pos n = take n (drop pos s)"

definition is_space :: "char \<Rightarrow> bool" where
  "is_space c \<longleftrightarrow> c = CHR '' '' \<or> c = CHR 0x09 \<or> c = CHR 0x0A \<or> c = CHR 0x0B \<or> c = CHR 0x0C \<or> c = CHR 0x0D"

definition digit_of :: "char \<Rightarrow> nat option" where
  "digit_of c = (let n = of_char c :: nat in if 48 \<le> n \<and> n \<le> 57 then Some (n - 48) else None)"

text \<open>The digits at the front of a string; \<open>None\<close> if there is none.\<close>

fun digits_value :: "int option \<Rightarrow> string \<Rightarrow> int option" where
  "digits_value acc [] = acc"
| "digits_value acc (c # cs) =
     (case digit_of c of
        None \<Rightarrow> acc
      | Some d \<Rightarrow> digits_value (Some ((case acc of None \<Rightarrow> 0 | Some a \<Rightarrow> a) * 10 + int d)) cs)"

text \<open>\<open>std::stoi\<close>: blanks, a sign, digits; what follows them is ignored.\<close>

definition stoi :: "string \<Rightarrow> cpp_error + int" where
  "stoi s =
     (let t = dropWhile is_space s;
          (neg, u) = (case t of
             [] \<Rightarrow> (False, [])
           | c # cs \<Rightarrow> if c = CHR ''-'' then (True, cs) else if c = CHR ''+'' then (False, cs) else (False, t))
      in case digits_value None u of
           None \<Rightarrow> Inl Invalid_argument
         | Some n \<Rightarrow>
             (let v = (if neg then - n else n)
              in if - (2 ^ 31) \<le> v \<and> v < 2 ^ 31 then Inr v else Inl Out_of_range))"

section \<open>Config\<close>

record config =
  properties :: "(string, string) umap"

definition removeWhiteSpaces :: "string \<Rightarrow> string" where
  "removeWhiteSpaces source = filter (\<lambda>c. c \<noteq> CHR '' '') source"

text \<open>The body of the loop over the lines of the file.\<close>

definition load_line :: "string \<Rightarrow> (string, string) umap \<Rightarrow> (string, string) umap" where
  "load_line raw props =
     (let line = removeWhiteSpaces raw in
      if line = [] then props
      else if hd line = CHR ''#'' then props
      else (case find_first_of line ''='' 0 of
              None \<Rightarrow> props
            | Some equalSim \<Rightarrow>
                um_set (substr line 0 equalSim) (substr line (equalSim + 1) (length line)) props))"

definition load :: "string option \<Rightarrow> config \<Rightarrow> config" where
  "load file c =
     (case file of
        None \<Rightarrow> c
      | Some content \<Rightarrow> c\<lparr>properties := fold load_line (lines_of content) (properties c)\<rparr>)"

definition Config_new :: "string option \<Rightarrow> config" where
  "Config_new file = load file \<lparr>properties = []\<rparr>"

definition getProperty :: "string \<Rightarrow> string \<Rightarrow> config \<Rightarrow> string" where
  "getProperty key defaultValue c =
     (case um_find (properties c) key of Some v \<Rightarrow> v | None \<Rightarrow> defaultValue)"

definition config_index :: "config \<Rightarrow> string \<Rightarrow> string" where
  "config_index c key = getProperty key [] c"

lemma find_first_of_bounds: "find_first_of s cs pos = Some k \<Longrightarrow> pos \<le> k \<and> k < length s"
  by (auto simp: find_first_of_def Let_def split: if_splits)

function list_loop :: "string \<Rightarrow> string \<Rightarrow> nat \<Rightarrow> nat \<Rightarrow> string list" where
  "list_loop delimiter content charPos prevPos =
     (case find_first_of content delimiter charPos of
        Some p \<Rightarrow> substr content prevPos (p - prevPos) # list_loop delimiter content (p + 1) (p + 1)
      | None \<Rightarrow> [substr content prevPos (length content - prevPos)])"
  by pat_completeness auto
termination
  by (relation "measure (\<lambda>(delimiter, content, charPos, prevPos). Suc (length content) - charPos)")
    (auto dest: find_first_of_bounds)

declare list_loop.simps [simp del]

definition getPropertyList :: "string \<Rightarrow> string \<Rightarrow> config \<Rightarrow> string list" where
  "getPropertyList key delimiter c =
     (case um_find (properties c) key of
        None \<Rightarrow> []
      | Some content \<Rightarrow> list_loop delimiter content 0 0)"

definition getIntProperty :: "string \<Rightarrow> int \<Rightarrow> config \<Rightarrow> cpp_error + int" where
  "getIntProperty key defaultValue c =
     (let val = getProperty key [] c in if val \<noteq> [] then stoi val else Inr defaultValue)"

section \<open>Lemmas\<close>

lemma find_first_of_Some:
  assumes "find_first_of s [d] pos = Some k" and "pos \<le> length s"
  shows "drop pos s = take (k - pos) (drop pos s) @ d # drop (Suc k) s" and "d \<notin> set (take (k - pos) (drop pos s))"
proof -
  let ?t = "takeWhile (\<lambda>c. c \<noteq> d) (drop pos s)"
  have k: "k = pos + length ?t" "k < length s"
    using assms(1) by (auto simp: find_first_of_def Let_def split: if_splits)
  have t: "take (k - pos) (drop pos s) = ?t" by (simp add: k(1) takeWhile_eq_take [symmetric])
  show "d \<notin> set (take (k - pos) (drop pos s))" unfolding t by (auto dest: set_takeWhileD)
  have lt: "length ?t < length (drop pos s)" using k by simp
  have "drop pos s ! length ?t = d" using nth_length_takeWhile [OF lt] by simp
  then have "drop (length ?t) (drop pos s) = d # drop (Suc (length ?t)) (drop pos s)"
    using Cons_nth_drop_Suc [OF lt] by simp
  then have "drop (length ?t) (drop pos s) = d # drop (Suc k) s" using k(1) by (simp add: add.commute)
  then show "drop pos s = take (k - pos) (drop pos s) @ d # drop (Suc k) s"
    using append_take_drop_id [of "length ?t" "drop pos s"] k(1) by simp
qed

lemma find_first_of_None:
  assumes "find_first_of s [d] pos = None" and "pos \<le> length s"
  shows "d \<notin> set (drop pos s)"
proof -
  have "length (takeWhile (\<lambda>c. c \<noteq> d) (drop pos s)) = length (drop pos s)"
    using assms length_takeWhile_le [of "\<lambda>c. c \<noteq> d" "drop pos s"]
    by (auto simp: find_first_of_def Let_def split: if_splits)
  then have "takeWhile (\<lambda>c. c \<noteq> d) (drop pos s) = drop pos s" by (metis takeWhile_eq_take take_all order_refl)
  then show ?thesis by (metis (mono_tags, lifting) set_takeWhileD)
qed

text \<open>Joining pieces with a delimiter, the reference for the splitting loop.\<close>

fun join_with :: "char \<Rightarrow> string list \<Rightarrow> string" where
  "join_with d [] = []"
| "join_with d [x] = x"
| "join_with d (x # y # ys) = x @ d # join_with d (y # ys)"

lemma list_loop_nonempty: "list_loop d s k p \<noteq> []"
  by (subst list_loop.simps) (simp split: option.split)

lemma join_with_Cons: "xs \<noteq> [] \<Longrightarrow> join_with d (x # xs) = x @ d # join_with d xs"
  by (cases xs) simp_all

lemma list_loop_pieces:
  "pos \<le> length s \<Longrightarrow> join_with d (list_loop [d] s pos pos) = drop pos s \<and> (\<forall>x \<in> set (list_loop [d] s pos pos). d \<notin> set x)"
proof (induction "length s - pos" arbitrary: pos rule: less_induct)
  case less
  show ?case
  proof (cases "find_first_of s [d] pos")
    case None
    then show ?thesis
      using find_first_of_None [OF None less.prems] by (subst (1 2) list_loop.simps) (simp add: substr_def)
  next
    case (Some k)
    note b = find_first_of_bounds [OF Some] and f = find_first_of_Some [OF Some less.prems]
    have l: "list_loop [d] s pos pos = take (k - pos) (drop pos s) # list_loop [d] s (k + 1) (k + 1)"
      using Some by (subst list_loop.simps) (simp add: substr_def)
    have "join_with d (list_loop [d] s (k + 1) (k + 1)) = drop (k + 1) s \<and>
        (\<forall>x \<in> set (list_loop [d] s (k + 1) (k + 1)). d \<notin> set x)"
      using b less.prems by (intro less.hyps) auto
    then show ?thesis
      using f by (simp add: l join_with_Cons list_loop_nonempty)
  qed
qed

text \<open>A line as the reader means it: a name and a value, or nothing.\<close>

definition parse_line :: "string \<Rightarrow> (string \<times> string) option" where
  "parse_line raw =
     (let line = removeWhiteSpaces raw in
      if line = [] \<or> hd line = CHR ''#'' \<or> CHR ''='' \<notin> set line then None
      else Some (takeWhile (\<lambda>c. c \<noteq> CHR ''='') line, tl (dropWhile (\<lambda>c. c \<noteq> CHR ''='') line)))"

lemma load_line_parse:
  "load_line raw props = (case parse_line raw of None \<Rightarrow> props | Some (n, v) \<Rightarrow> um_set n v props)"
proof (cases "find_first_of (removeWhiteSpaces raw) ''='' 0")
  case None
  then have "CHR ''='' \<notin> set (removeWhiteSpaces raw)" using find_first_of_None [OF None] by simp
  with None show ?thesis by (simp add: load_line_def parse_line_def Let_def)
next
  case (Some k)
  let ?l = "removeWhiteSpaces raw"
  note f = find_first_of_Some [OF Some le0]
  have l: "?l = take k ?l @ CHR ''='' # drop (Suc k) ?l" and n: "CHR ''='' \<notin> set (take k ?l)"
    using f by simp_all
  have t: "takeWhile (\<lambda>c. c \<noteq> CHR ''='') ?l = take k ?l" "dropWhile (\<lambda>c. c \<noteq> CHR ''='') ?l = CHR ''='' # drop (Suc k) ?l"
    by (subst l, subst takeWhile_append2, use n in force, simp)
      (subst l, subst dropWhile_append2, use n in force, simp)
  have m: "CHR ''='' \<in> set ?l" by (subst l) simp
  then have "?l \<noteq> []" by auto
  then show ?thesis
    using Some m t by (simp add: load_line_def parse_line_def Let_def substr_def)
qed

lemma fold_load_line:
  "um_find (fold load_line ls props) key =
     (case map_of (rev (List.map_filter parse_line ls)) key of Some v \<Rightarrow> Some v | None \<Rightarrow> um_find props key)"
proof (induction ls arbitrary: props)
  case (Cons l ls)
  then show ?case
    by (cases "parse_line l")
      (auto simp: load_line_parse um_find_set map_filter_simps map_add_def split: option.splits)
qed (simp add: map_filter_simps)

section \<open>Properties\<close>

text \<open>
  Reading a file: a property has the value of the last line that defines it, blanks
  removed; lines that are empty, start with a hash or have no equals sign define nothing, and
  a value may itself contain an equals sign.
\<close>

theorem config_last_definition_wins:
  "getProperty key dflt (Config_new (Some content)) =
     (case map_of (rev (List.map_filter parse_line (lines_of content))) key of Some v \<Rightarrow> v | None \<Rightarrow> dflt)"
  by (simp add: getProperty_def Config_new_def load_def fold_load_line split: option.split)

text \<open>
  A list property is split at the delimiter and nowhere else: joining the pieces
  with the delimiter gives the value back, and no piece contains the delimiter; a property that
  is not defined is the empty list.
\<close>

theorem getPropertyList_splits:
  "(case um_find (properties c) key of
      None \<Rightarrow> getPropertyList key [d] c = []
    | Some content \<Rightarrow> join_with d (getPropertyList key [d] c) = content \<and>
        list_all (\<lambda>x. d \<notin> set x) (getPropertyList key [d] c))"
  using list_loop_pieces [of 0 _ d] by (simp add: getPropertyList_def list_all_iff split: option.split)

end
