(* ===== verification/NodeSetup.thy ===== *)
theory NodeSetup
  imports Config SessionManager
begin

text \<open>
  The start of a node: \<open>Node::initialize\<close> in \<open>ReMoLON/src/Node.cpp\<close>, as far as it reads the
  configuration. Connecting to the front end and creating the inner server are network calls;
  their parameters are the result. A port number that does not parse is reported and skipped;
  an address or port property that does not parse ends the start.
\<close>

record 'c nodeSetup =
  ns_remotooBinDir :: string
  ns_remolonXinitrcDir :: string
  ns_frontendServerAddress :: string
  ns_frontendServerPort :: "16 word"
  ns_bindToAddress :: string
  ns_bindToPort :: "16 word"
  ns_manager :: "'c sessionManager"

text \<open>The loops over the three lists: \<open>static_cast < uint16_t > ( std::stoi ( str ) )\<close>.\<close>

fun add_ports :: "(16 word \<Rightarrow> 'm \<Rightarrow> 'm) \<Rightarrow> string list \<Rightarrow> 'm \<Rightarrow> 'm" where
  "add_ports addPort [] sm = sm"
| "add_ports addPort (str # strs) sm =
     (case stoi str of
        Inl e \<Rightarrow> add_ports addPort strs sm
      | Inr newPort \<Rightarrow> add_ports addPort strs (addPort (word_of_int newPort) sm))"

definition Node_initialize :: "config \<Rightarrow> 'c sessionManager \<Rightarrow> cpp_error + 'c nodeSetup" where
  "Node_initialize clientCfg sm =
     (case getIntProperty ''frontendServerPort'' 0 clientCfg of
        Inl e \<Rightarrow> Inl e
      | Inr frontendServerPort \<Rightarrow>
          (case getIntProperty ''innerServerPort'' 0 clientCfg of
             Inl e \<Rightarrow> Inl e
           | Inr bindToPort \<Rightarrow>
               Inr \<lparr>ns_remotooBinDir = getProperty ''remotooBinaryDir'' [] clientCfg,
                    ns_remolonXinitrcDir = getProperty ''remolonXinitrcDir'' [] clientCfg,
                    ns_frontendServerAddress = getProperty ''frontendServerAddress'' [] clientCfg,
                    ns_frontendServerPort = word_of_int frontendServerPort,
                    ns_bindToAddress = getProperty ''innerServerAddress'' [] clientCfg,
                    ns_bindToPort = word_of_int bindToPort,
                    ns_manager =
                      add_ports addAvailableRTCPort (getPropertyList ''availableWebRtcPorts'' '','' clientCfg)
                        (add_ports addAvailableSocketPort (getPropertyList ''availableWebSockPorts'' '','' clientCfg)
                          (add_ports addAvailablePort (getPropertyList ''availableWebPorts'' '','' clientCfg)
                            (setPublicAddress (getProperty ''publicAddress'' [] clientCfg) sm)))\<rparr>))"

section \<open>The port tables after the start\<close>

definition parsed_ports :: "string list \<Rightarrow> 16 word set" where
  "parsed_ports strs = {word_of_int n | n s. s \<in> set strs \<and> stoi s = Inr n}"

lemma parsed_ports_simps:
  "parsed_ports [] = {}"
  "parsed_ports (s # strs) = (case stoi s of Inl e \<Rightarrow> parsed_ports strs | Inr n \<Rightarrow> insert (word_of_int n) (parsed_ports strs))"
  by (auto simp: parsed_ports_def split: sum.split)

definition all_free :: "portTable \<Rightarrow> 16 word set \<Rightarrow> bool" where
  "all_free t P \<longleftrightarrow> um_wf t \<and> um_keys t = P \<and> used_keys t = {}"

lemma all_free_add: "all_free t P \<Longrightarrow> all_free (um_set p False t) (insert p P)"
  by (auto simp: all_free_def um_wf_set um_keys_set used_keys_set)

lemma add_ports_free:
  assumes "\<And>p sm. get (addPort p sm) = um_set p False (get sm)"
  shows "all_free (get sm) P \<Longrightarrow> all_free (get (add_ports addPort strs sm)) (parsed_ports strs \<union> P)"
proof (induction strs arbitrary: sm P)
  case (Cons str strs)
  show ?case
  proof (cases "stoi str")
    case (Inl e)
    then show ?thesis using Cons by (simp add: parsed_ports_simps)
  next
    case (Inr n)
    have "all_free (get (addPort (word_of_int n) sm)) (insert (word_of_int n) P)"
      using Cons.prems by (simp add: assms all_free_add)
    from Cons.IH [OF this] Inr show ?thesis by (simp add: parsed_ports_simps)
  qed
qed (simp add: parsed_ports_simps)

lemma add_ports_other:
  assumes "\<And>p sm. other (addPort p sm) = other sm"
  shows "other (add_ports addPort strs sm) = other sm"
  by (induction strs arbitrary: sm) (auto simp: assms split: sum.split)

lemma add_ports_simps [simp]:
  "sm_usedSockPorts (add_ports addAvailablePort strs sm) = sm_usedSockPorts sm"
  "sm_usedRTCPorts (add_ports addAvailablePort strs sm) = sm_usedRTCPorts sm"
  "sm_streamSessions (add_ports addAvailablePort strs sm) = sm_streamSessions sm"
  "sm_publicAddress (add_ports addAvailablePort strs sm) = sm_publicAddress sm"
  "sm_usedPorts (add_ports addAvailableSocketPort strs sm) = sm_usedPorts sm"
  "sm_usedRTCPorts (add_ports addAvailableSocketPort strs sm) = sm_usedRTCPorts sm"
  "sm_streamSessions (add_ports addAvailableSocketPort strs sm) = sm_streamSessions sm"
  "sm_publicAddress (add_ports addAvailableSocketPort strs sm) = sm_publicAddress sm"
  "sm_usedPorts (add_ports addAvailableRTCPort strs sm) = sm_usedPorts sm"
  "sm_usedSockPorts (add_ports addAvailableRTCPort strs sm) = sm_usedSockPorts sm"
  "sm_streamSessions (add_ports addAvailableRTCPort strs sm) = sm_streamSessions sm"
  "sm_publicAddress (add_ports addAvailableRTCPort strs sm) = sm_publicAddress sm"
  by (rule add_ports_other, simp add: addAvailablePort_def addAvailableSocketPort_def addAvailableRTCPort_def)+

lemmas add_ports_tables =
  add_ports_free [where get = sm_usedPorts and addPort = addAvailablePort]
  add_ports_free [where get = sm_usedSockPorts and addPort = addAvailableSocketPort]
  add_ports_free [where get = sm_usedRTCPorts and addPort = addAvailableRTCPort]

lemma Node_initialize_tables:
  fixes ns :: "'c nodeSetup"
  assumes "Node_initialize cfg SessionManager_new = Inr ns"
  shows "sm_configured (ns_manager ns) \<and>
    all_free (sm_usedPorts (ns_manager ns)) (parsed_ports (getPropertyList ''availableWebPorts'' '','' cfg)) \<and>
    all_free (sm_usedSockPorts (ns_manager ns)) (parsed_ports (getPropertyList ''availableWebSockPorts'' '','' cfg)) \<and>
    all_free (sm_usedRTCPorts (ns_manager ns)) (parsed_ports (getPropertyList ''availableWebRtcPorts'' '','' cfg)) \<and>
    sm_publicAddress (ns_manager ns) = getProperty ''publicAddress'' [] cfg"
proof -
  have start: "all_free ([] :: portTable) {}" by (simp add: all_free_def um_wf_def um_keys_def used_keys_def)
  define sm0 :: "'c sessionManager" where "sm0 = setPublicAddress (getProperty ''publicAddress'' [] cfg) SessionManager_new"
  have sm0: "sm_usedPorts sm0 = []" "sm_usedSockPorts sm0 = []" "sm_usedRTCPorts sm0 = []"
    "sm_streamSessions sm0 = []" "sm_publicAddress sm0 = getProperty ''publicAddress'' [] cfg"
    by (simp_all add: sm0_def setPublicAddress_def SessionManager_new_def)
  have m: "ns_manager ns = add_ports addAvailableRTCPort (getPropertyList ''availableWebRtcPorts'' '','' cfg)
      (add_ports addAvailableSocketPort (getPropertyList ''availableWebSockPorts'' '','' cfg)
        (add_ports addAvailablePort (getPropertyList ''availableWebPorts'' '','' cfg) sm0))"
    using assms by (auto simp: Node_initialize_def sm0_def split: sum.splits)
  have a: "all_free (sm_usedPorts (ns_manager ns)) (parsed_ports (getPropertyList ''availableWebPorts'' '','' cfg) \<union> {})"
    unfolding m add_ports_simps by (rule add_ports_tables(1)) (simp_all add: addAvailablePort_def sm0 start)
  have b: "all_free (sm_usedSockPorts (ns_manager ns)) (parsed_ports (getPropertyList ''availableWebSockPorts'' '','' cfg) \<union> {})"
    unfolding m add_ports_simps by (rule add_ports_tables(2)) (simp_all add: addAvailableSocketPort_def sm0 start)
  have c: "all_free (sm_usedRTCPorts (ns_manager ns)) (parsed_ports (getPropertyList ''availableWebRtcPorts'' '','' cfg) \<union> {})"
    unfolding m by (rule add_ports_tables(3)) (simp_all add: addAvailableRTCPort_def sm0 start)
  have d: "sm_streamSessions (ns_manager ns) = []" "sm_publicAddress (ns_manager ns) = getProperty ''publicAddress'' [] cfg"
    unfolding m by (simp_all add: sm0)
  show ?thesis using a b c d by (simp add: sm_configured_def all_free_def)
qed

section \<open>Properties\<close>

text \<open>
  A node that starts has no session, and its three port tables hold exactly the
  numbers of the three configured lists that parse, reduced to 16 bits, each free: the state
  from which the runs of the session manager start.
\<close>

theorem Node_initialize_ports:
  fixes ns :: "'c nodeSetup"
  assumes "Node_initialize cfg SessionManager_new = Inr ns"
  shows "sm_configured (ns_manager ns) \<and>
    all_free (sm_usedPorts (ns_manager ns)) (parsed_ports (getPropertyList ''availableWebPorts'' '','' cfg)) \<and>
    all_free (sm_usedSockPorts (ns_manager ns)) (parsed_ports (getPropertyList ''availableWebSockPorts'' '','' cfg)) \<and>
    all_free (sm_usedRTCPorts (ns_manager ns)) (parsed_ports (getPropertyList ''availableWebRtcPorts'' '','' cfg)) \<and>
    sm_publicAddress (ns_manager ns) = getProperty ''publicAddress'' [] cfg"
  by (rule Node_initialize_tables [OF assms])

theorem Node_initialize_ports_witness:
  "\<exists>ns :: nat nodeSetup. Node_initialize (Config_new (Some ''availableWebPorts = 8001, 70000, x'')) SessionManager_new = Inr ns \<and>
     um_keys (sm_usedPorts (ns_manager ns)) = {8001, 4464}"
proof -
  let ?c = "Config_new (Some ''availableWebPorts = 8001, 70000, x'')"
  have p: "properties ?c = [(''availableWebPorts'', ''8001,70000,x'')]"
    by (simp add: Config_new_def load_def load_line_def Let_def removeWhiteSpaces_def find_first_of_def substr_def um_set_def)
  have l: "getPropertyList ''availableWebPorts'' '','' ?c = [''8001'', ''70000'', ''x'']"
    by (simp add: getPropertyList_def p list_loop.simps find_first_of_def Let_def substr_def)
  have "stoi ''8001'' = Inr 8001" "stoi ''70000'' = Inr 70000" "stoi ''x'' = Inl Invalid_argument"
    by (simp_all add: stoi_def Let_def is_space_def digit_of_def)
  moreover have wrap: "(70000 :: 16 word) = 4464" by simp
  ultimately have k: "parsed_ports (getPropertyList ''availableWebPorts'' '','' ?c) = {8001, 4464}"
    by (simp add: l parsed_ports_simps) (metis (no_types) wrap)
  have "getIntProperty n 0 ?c = Inr 0" if "n \<noteq> ''availableWebPorts''" for n
    using that by (simp add: getIntProperty_def getProperty_def p)
  then obtain ns :: "nat nodeSetup" where ns: "Node_initialize ?c SessionManager_new = Inr ns"
    by (simp add: Node_initialize_def)
  from Node_initialize_ports [OF ns] ns show ?thesis by (simp add: all_free_def k)
qed

end
