(* ===== verification/System.thy ===== *)
theory System
  imports Protocol Client Server NodeSetup
begin

text \<open>
  The two daemons put together: the front end's selector thread and a node's client exchange
  packets through sockets. What one side gives to \<open>sendBytes\<close> is what the receive calls of the
  other side are run on; how the bytes are divided over the calls is up to the network.
\<close>

section \<open>The packets of the front end\<close>

definition server_content :: "server_packet \<Rightarrow> byte list" where
  "server_content p = (case p of StartRequest q \<Rightarrow> start_content q | CloseRequest q \<Rightarrow> close_content q)"

definition front_writePacket :: "server_packet \<Rightarrow> (bytebuffer option, unit) sx" where
  "front_writePacket p =
     (case p of
        StartRequest q \<Rightarrow> writePacket StartRequest_getOpcode (StartRequest_writeImpl q)
      | CloseRequest q \<Rightarrow> writePacket CloseRequest_getOpcode (CloseRequest_writeImpl q))"

definition server_frame :: "server_packet \<Rightarrow> byte list" where
  "server_frame p =
     frame (case p of StartRequest q \<Rightarrow> StartRequest_getOpcode | CloseRequest q \<Rightarrow> CloseRequest_getOpcode) (server_content p)"

definition server_fits :: "server_packet \<Rightarrow> bool" where
  "server_fits p = (case p of StartRequest q \<Rightarrow> start_fits q | CloseRequest q \<Rightarrow> close_fits q)"

text \<open>What a node makes of it.\<close>

definition node_receives :: "server_packet \<Rightarrow> node_received" where
  "node_receives p =
     (case p of StartRequest q \<Rightarrow> R_RequestStart (start_received q) | CloseRequest q \<Rightarrow> R_RequestClose (close_received q))"

lemma front_sends:
  "length (server_content p) + 3 < n \<Longrightarrow> sends_frame (front_writePacket p) (server_frame p) n"
  using sends_frame_writePacket [OF start_request.writes] sends_frame_writePacket [OF close_request.writes]
  by (cases p) (auto simp: front_writePacket_def server_frame_def server_content_def)

lemma node_takes:
  assumes "server_fits p"
  shows "receives node_readImpl node_handler (server_frame p) (\<lambda>w. (node_receives p, w))"
proof (cases p)
  case (StartRequest q)
  then have "start_fits q" using assms by (simp add: server_fits_def)
  then show ?thesis
    using start_request.reads [of q] start_request.content_small [of q] node_factories(2)
    unfolding receives_def StartRequest server_frame_def server_content_def node_receives_def
    by (intro exI [of _ StartRequest_getOpcode] exI [of _ "start_content q"] exI [of _ K_RequestStart])
      (simp add: opcode_defs)
next
  case (CloseRequest q)
  then have "close_fits q" using assms by (simp add: server_fits_def)
  then show ?thesis
    using close_request.reads [of q] close_request.content_small [of q] node_factories(3)
    unfolding receives_def CloseRequest server_frame_def server_content_def node_receives_def
    by (intro exI [of _ CloseRequest_getOpcode] exI [of _ "close_content q"] exI [of _ K_RequestClose])
      (simp add: opcode_defs)
qed

text \<open>The packets and handlers of the front end's server, for one connection.\<close>

definition front_env ::
  "32 word \<Rightarrow> ('c \<Rightarrow> string) \<Rightarrow> 'c \<Rightarrow>
   (front_kind, 'c visualizationNodeManager, front_received, server_packet) packet_env" where
  "front_env junk clientAddress con =
     \<lparr>pe_readImpl = front_readImpl junk clientAddress con, pe_handler = front_handler,
      pe_address = (\<lambda>_. clientAddress con), pe_writePacket = front_writePacket\<rparr>"

section \<open>The front end sends, a node executes\<close>

text \<open>The requests queued for a node leave in one call when they fit the write buffer together.\<close>

lemma requests_leave_together:
  assumes "con_sendPackets con = p # ps"
    and "\<forall>q\<in>set (p # ps). length (server_content q) + 3 < bb_size (se_writeBufferHelper se)"
    and "length (concat (map server_frame (p # ps))) < bb_size (se_writeBuffer se)"
    and "bb_ok (se_writeBufferHelper se)" and "bb_ok (se_writeBuffer se)"
    and "con_socket con = Some s" and "con_hasPollset con"
  shows "\<exists>se'. writeToConnection (front_env junk clientAddress c) po fd con se = (Inr (), se') \<and>
    se_sent se' = se_sent se @ [(fd, concat (map server_frame (p # ps)))] \<and>
    se_readBuffer se' = se_readBuffer se \<and> se_threadPool se' = se_threadPool se \<and> se_world se' = se_world se"
proof -
  have "\<forall>q\<in>set (con_sendPackets con).
      sends_frame (pe_writePacket (front_env junk clientAddress c) q) (server_frame q) (bb_size (se_writeBufferHelper se))"
    using assms(1,2) by (auto simp: front_env_def intro: front_sends)
  moreover have "server_frame p \<noteq> []" by (simp add: server_frame_def frame_def)
  ultimately show ?thesis
    using writeToConnection_batch [of con "front_env junk clientAddress c" server_frame se s po fd] assms by simp
qed

text \<open>A node executes the first request of what a receive call brings.\<close>

lemma node_executes_first:
  assumes "server_fits p" and "cl_listening cl" and "cl_execQueue cl = []"
    and "length (server_frame p @ others) \<le> bb_size (cl_recvBuffer cl)"
    and "node_execute ok junk (node_receives p) (cl_world cl) = (Inr (), nd')"
  shows "\<exists>cl1 cl2. recv_loop node_readImpl node_handler addr [Received now (server_frame p @ others)] cl = (Inr (), cl1) \<and>
    exec_loop (node_execute ok junk) cl1 = (Inr (), cl2) \<and> cl_world cl2 = nd' \<and> cl_active cl2 \<and>
    cl_connection cl2 = cl_connection cl \<and> cl_sendBuffer cl2 = cl_sendBuffer cl \<and> cl_sent cl2 = cl_sent cl"
proof -
  from recv_loop_frame [OF assms(2) node_takes [OF assms(1)] assms(4), of addr now "[]"] obtain b where
    r: "recv_loop node_readImpl node_handler addr [Received now (server_frame p @ others)] cl =
      (Inr (), push_exec (Some (node_receives p)) (cl\<lparr>cl_recvBuffer := b\<rparr>))"
    by auto
  have "exec_loop (node_execute ok junk) (push_exec (Some (node_receives p)) (cl\<lparr>cl_recvBuffer := b\<rparr>)) =
      (Inr (), push_exec (Some (node_receives p)) (cl\<lparr>cl_recvBuffer := b\<rparr>)\<lparr>cl_execQueue := [], cl_world := nd'\<rparr>)"
    using assms(2,3,5) by (intro exec_loop_run_all) (simp_all add: push_exec_def cl_listening_def sx_seq_def sx_bind_def)
  then show ?thesis using r assms(2) by (simp add: push_exec_def cl_listening_def)
qed

section \<open>A node answers\<close>

text \<open>
  The actions of a node queue their answers in \<open>nd_toFrontend\<close>; \<open>Client::sendPacket\<close> puts each on
  the connection.
\<close>

fun send_all :: "'p list \<Rightarrow> (('w, 'q, 'p) client, unit) sx" where
  "send_all [] = sx_return ()"
| "send_all (p # ps) = sx_seq (client_sendPacket p) (send_all ps)"

definition send_answers :: "('c node, node_received, front_packet) client \<Rightarrow>
    (cpp_error + unit) \<times> ('c node, node_received, front_packet) client" where
  "send_answers cl =
     send_all (nd_toFrontend (cl_world cl)) (cl\<lparr>cl_world := (cl_world cl)\<lparr>nd_toFrontend := []\<rparr>\<rparr>)"

lemma send_all_connection:
  "cl_connection cl = Some con \<Longrightarrow> \<not> con_hasPollset con \<Longrightarrow>
     send_all ps cl = (Inr (), cl\<lparr>cl_connection := Some (con\<lparr>con_sendPackets := con_sendPackets con @ ps\<rparr>)\<rparr>)"
proof (induction ps arbitrary: cl con)
  case Nil
  then show ?case by (simp add: sx_return_def)
next
  case (Cons p ps)
  let ?con = "con\<lparr>con_sendPackets := con_sendPackets con @ [p]\<rparr>"
  have "client_sendPacket p cl = (Inr (), cl\<lparr>cl_connection := Some ?con\<rparr>)"
    using Cons.prems by (simp add: client_sendPacket_def on_client_connection_def sendPacket_def update_poll_def
        sx_seq_def sx_bind_def sx_modify_def)
  then show ?case using Cons.IH [of "cl\<lparr>cl_connection := Some ?con\<rparr>" ?con] Cons.prems
    by (simp add: sx_seq_def sx_bind_def)
qed

text \<open>A result packet, from the node's client to the pool of the front end.\<close>

lemma result_sends:
  assumes "length (result_content (ssr_userName q) (ssr_sessionName q) (ssr_status q)) + 3 < n"
  shows "sends_frame (node_writePacket sm (StartResult q))
    (frame StartStreamingSessionResult_getOpcode (result_content (ssr_userName q) (ssr_sessionName q) (ssr_status q))) n"
  using sends_frame_writePacket [OF start_result.writes assms] by (simp add: node_writePacket_def)

lemma front_takes_result:
  assumes "start_result_fits q"
  shows "receives (pe_readImpl (front_env junk clientAddress con)) (pe_handler (front_env junk clientAddress con))
    (frame StartStreamingSessionResult_getOpcode (result_content (ssr_userName q) (ssr_sessionName q) (ssr_status q)))
    (\<lambda>m. (R_StartResult (start_result_received q), m))"
  using start_result.reads [OF assms] start_result.content_small [OF assms] front_factories(2)
  unfolding receives_def
  by (intro exI [of _ StartStreamingSessionResult_getOpcode]
      exI [of _ "result_content (ssr_userName q) (ssr_sessionName q) (ssr_status q)"] exI [of _ K_StartResult])
    (simp add: opcode_defs front_env_def)

text \<open>A node answers a start request: it executes it and sends the result packet.\<close>

lemma node_answers_start:
  assumes fit: "start_fits (RequestStartStreamingSession u name port)"
    and cl: "cl_listening cl" "cl_execQueue cl = []" "bb_ok (cl_sendBuffer cl)"
      "length (start_content (RequestStartStreamingSession u name port)) + 3 \<le> bb_size (cl_recvBuffer cl)"
      "length (start_content (RequestStartStreamingSession u name port)) + 3 < bb_size (cl_sendBuffer cl)"
    and conn: "cl_connection cl = Some ncon" "con_sendPackets ncon = []" "\<not> con_hasPollset ncon"
    and nd: "nd_toFrontend (cl_world cl) = []"
    and st: "startNewSession ok junk (getUserName u) (getAddress u) name (ucast port) (nd_manager (cl_world cl)) = (st, sm')"
  shows "\<exists>cl1 cl2 cl3 cl4.
    recv_loop node_readImpl node_handler addr
      [Received now (server_frame (StartRequest (RequestStartStreamingSession u name port)))] cl = (Inr (), cl1) \<and>
    exec_loop (node_execute ok junk) cl1 = (Inr (), cl2) \<and> nd_manager (cl_world cl2) = sm' \<and>
    send_answers cl2 = (Inr (), cl3) \<and> send_loop (node_writePacket sm') cl3 = (Inr (), cl4) \<and>
    cl_sent cl4 = cl_sent cl @ [frame StartStreamingSessionResult_getOpcode
      (result_content (getUserName u) name (launch_code st))]"
proof -
  let ?req = "RequestStartStreamingSession u name port"
  let ?q = "\<lparr>ssr_userName = getUserName u, ssr_sessionName = name, ssr_status = launch_code st\<rparr>"
  let ?nd = "(cl_world cl)\<lparr>nd_manager := sm', nd_toFrontend := [StartResult ?q]\<rparr>"
  let ?bs = "server_frame (StartRequest ?req)" and ?cs = "result_content (getUserName u) name (launch_code st)"
  have ex: "node_execute ok junk (node_receives (StartRequest ?req)) (cl_world cl) = (Inr (), ?nd)"
    using st nd by (simp add: node_execute_def node_receives_def sx_modify_def RequestStartStreamingSession_execute_def
        start_received_def RequestStartStreamingSession_def node_send_def)
  have fit': "server_fits (StartRequest ?req)" using fit by (simp add: server_fits_def)
  have room: "length (?bs @ []) \<le> bb_size (cl_recvBuffer cl)"
    using cl(4) by (simp add: server_frame_def server_content_def)
  obtain cl1 cl2 where c2: "recv_loop node_readImpl node_handler addr [Received now ?bs] cl = (Inr (), cl1)"
      "exec_loop (node_execute ok junk) cl1 = (Inr (), cl2)" "cl_world cl2 = ?nd" "cl_active cl2"
      "cl_connection cl2 = Some ncon" "cl_sendBuffer cl2 = cl_sendBuffer cl" "cl_sent cl2 = cl_sent cl"
    using node_executes_first [OF fit' cl(1,2) room ex, of addr now] conn(1) by auto
  let ?cl3 = "cl2\<lparr>cl_world := ?nd\<lparr>nd_toFrontend := []\<rparr>, cl_connection := Some (ncon\<lparr>con_sendPackets := [StartResult ?q]\<rparr>)\<rparr>"
  have c3: "send_answers cl2 = (Inr (), ?cl3)"
    using c2(3,5) conn(2,3) send_all_connection [of "cl2\<lparr>cl_world := ?nd\<lparr>nd_toFrontend := []\<rparr>\<rparr>" ncon "[StartResult ?q]"]
    by (simp add: send_answers_def)
  have "length ?cs + 3 \<le> length (start_content ?req) + 3"
    by (simp add: result_content_def start_content_def RequestStartStreamingSession_def)
  then have "sends_frame (node_writePacket sm' (StartResult ?q)) (frame StartStreamingSessionResult_getOpcode ?cs)
      (bb_size (cl_sendBuffer cl))"
    using cl(5) result_sends [of ?q "bb_size (cl_sendBuffer cl)" sm'] by simp
  then obtain cl4 where c4: "send_loop (node_writePacket sm') ?cl3 = (Inr (), cl4)"
      "cl_sent cl4 = cl_sent cl @ [frame StartStreamingSessionResult_getOpcode ?cs]"
    using send_loop_frames [of ?cl3 "ncon\<lparr>con_sendPackets := [StartResult ?q]\<rparr>" "node_writePacket sm'"
        "\<lambda>_. frame StartStreamingSessionResult_getOpcode ?cs"] c2(4,6,7) conn(3) cl(3) by auto
  have "nd_manager (cl_world cl2) = sm'" using c2(3) by simp
  then show ?thesis using c2(1,2) c3 c4 by blast
qed

section \<open>Properties\<close>

text \<open>
  Property C21. Requests that wait together for a node are lost but for the first: the selector thread puts
  them into one write buffer and gives it to the socket in one call; when the node's client
  receives it in one call, it executes the first request and discards the others.
\<close>

theorem batched_requests_lose_all_but_first:
  assumes "con_sendPackets con = p # ps"
    and "\<forall>q\<in>set (p # ps). length (server_content q) + 3 < bb_size (se_writeBufferHelper se)"
    and "length (concat (map server_frame (p # ps))) < bb_size (se_writeBuffer se)"
    and "bb_ok (se_writeBufferHelper se)" and "bb_ok (se_writeBuffer se)"
    and "con_socket con = Some s" and "con_hasPollset con"
    and "server_fits p" and "cl_listening cl" and "cl_execQueue cl = []"
    and "length (concat (map server_frame (p # ps))) \<le> bb_size (cl_recvBuffer cl)"
    and "node_execute ok junk (node_receives p) (cl_world cl) = (Inr (), nd')"
  shows "\<exists>se' bs cl1 cl2.
    writeToConnection (front_env junk' clientAddress c) po fd con se = (Inr (), se') \<and>
    se_sent se' = se_sent se @ [(fd, bs)] \<and> bs = concat (map server_frame (p # ps)) \<and>
    recv_loop node_readImpl node_handler addr [Received now bs] cl = (Inr (), cl1) \<and>
    exec_loop (node_execute ok junk) cl1 = (Inr (), cl2) \<and> cl_world cl2 = nd'"
proof -
  obtain se' where se': "writeToConnection (front_env junk' clientAddress c) po fd con se = (Inr (), se')"
    "se_sent se' = se_sent se @ [(fd, concat (map server_frame (p # ps)))]"
    using requests_leave_together [OF assms(1-7), of junk' clientAddress c po fd] by blast
  have "length (server_frame p @ concat (map server_frame ps)) \<le> bb_size (cl_recvBuffer cl)" using assms(11) by simp
  from node_executes_first [OF assms(8-10) this assms(12), of addr now] obtain cl1 cl2 where
    "recv_loop node_readImpl node_handler addr [Received now (concat (map server_frame (p # ps)))] cl = (Inr (), cl1)"
    "exec_loop (node_execute ok junk) cl1 = (Inr (), cl2)" "cl_world cl2 = nd'" by auto
  with se' show ?thesis by blast
qed

text \<open>
  Property C9. A start request through the sockets: queued alone for a node, it leaves the front end in one
  call; the node's client executes it and sends one answer back; and that answer, received in one
  call, goes to the thread pool of the front end, where its execution makes the session running
  exactly if the node launched it and crashed otherwise.
\<close>

theorem start_request_through_sockets:
  fixes se :: "('c visualizationNodeManager, front_received, server_packet, 'ps) selector"
  assumes req: "req = RequestStartStreamingSession u name port" "start_fits req"
    and con: "con_sendPackets con = [StartRequest req]" "con_socket con = Some s" "con_hasPollset con"
    and wb: "bb_ok (se_writeBufferHelper se)" "bb_ok (se_writeBuffer se)"
      "length (start_content req) + 3 < bb_size (se_writeBufferHelper se)"
      "length (start_content req) + 3 < bb_size (se_writeBuffer se)"
    and rb: "bb_ok (se_readBuffer se)" "bb_buf (se_readBuffer se) \<noteq> None"
      "length (start_content req) + 3 \<le> bb_size (se_readBuffer se)"
    and pool: "none_ended (se_threadPool se)"
      "length (tp_tasks (se_threadPool se)) < unat (tp_maxQueueSize (se_threadPool se))"
    and cl: "cl_listening cl" "cl_execQueue cl = []" "bb_ok (cl_sendBuffer cl)"
      "length (start_content req) + 3 \<le> bb_size (cl_recvBuffer cl)"
      "length (start_content req) + 3 < bb_size (cl_sendBuffer cl)"
    and conn: "cl_connection cl = Some ncon" "con_sendPackets ncon = []" "\<not> con_hasPollset ncon"
    and nd: "nd_toFrontend (cl_world cl) = []"
    and st: "startNewSession ok junk (getUserName u) (getAddress u) name (ucast port) (nd_manager (cl_world cl)) = (st, sm')"
    and usr: "users_ok users" "getUserByName (getUserName u) users = Some (ip, usr)"
    and info: "open_info t (getUserName u) name = Some info"
  shows "\<exists>se1 bs cl1 cl2 cl3 cl4 bs' se2 f.
    writeToConnection (front_env junk' clientAddress c) po fd con se = (Inr (), se1) \<and>
    se_sent se1 = se_sent se @ [(fd, bs)] \<and>
    recv_loop node_readImpl node_handler addr [Received now bs] cl = (Inr (), cl1) \<and>
    exec_loop (node_execute ok junk) cl1 = (Inr (), cl2) \<and> nd_manager (cl_world cl2) = sm' \<and>
    send_answers cl2 = (Inr (), cl3) \<and> send_loop (node_writePacket sm') cl3 = (Inr (), cl4) \<and>
    cl_sent cl4 = cl_sent cl @ [bs'] \<and>
    readFromConnection (front_env junk' clientAddress c) po con [Received now' bs'] se1 = (Inr (), se2) \<and>
    tp_tasks (se_threadPool se2) = tp_tasks (se_threadPool se) @ [f] \<and>
    open_info (snd (front_execute f (users, t))) (getUserName u) name =
      Some (info\<lparr>si_status := (if st = SESSION_LAUNCH_OK then SESSION_RUNNING else SESSION_CRASHED)\<rparr>)"
proof -
  let ?p = "StartRequest req"
    and ?e = "front_env junk' clientAddress c :: (front_kind, 'c visualizationNodeManager, front_received, server_packet) packet_env"
  have cont: "server_content ?p = start_content req" by (simp add: server_content_def)
  have len: "length (server_frame ?p) = length (start_content req) + 3" by (simp add: server_frame_def cont)
  obtain se1 where se1: "writeToConnection ?e po fd con se = (Inr (), se1)" "se_sent se1 = se_sent se @ [(fd, server_frame ?p)]"
      "se_readBuffer se1 = se_readBuffer se" "se_threadPool se1 = se_threadPool se"
    using requests_leave_together [of con ?p "[]" se s junk' clientAddress c po fd] con wb len cont by auto
  let ?q = "\<lparr>ssr_userName = getUserName u, ssr_sessionName = name, ssr_status = launch_code st\<rparr>"
  let ?bs' = "frame StartStreamingSessionResult_getOpcode (result_content (ssr_userName ?q) (ssr_sessionName ?q) (ssr_status ?q))"
  have node: "\<exists>cl1 cl2 cl3 cl4. recv_loop node_readImpl node_handler addr [Received now (server_frame ?p)] cl = (Inr (), cl1) \<and>
    exec_loop (node_execute ok junk) cl1 = (Inr (), cl2) \<and> nd_manager (cl_world cl2) = sm' \<and>
    send_answers cl2 = (Inr (), cl3) \<and> send_loop (node_writePacket sm') cl3 = (Inr (), cl4) \<and>
    cl_sent cl4 = cl_sent cl @ [?bs']"
    using node_answers_start [OF _ cl(1-3) _ _ conn nd st] req cl(4,5) by simp
  have rfit: "start_result_fits ?q"
    using req(2) by (simp add: req(1) start_result_fits_def start_fits_def strings_fit_def RequestStartStreamingSession_def)
  have "length ?bs' \<le> length (start_content req) + 3"
    by (simp add: result_content_def start_content_def req(1) RequestStartStreamingSession_def)
  then obtain se2 where r: "readFromConnection ?e po con [Received now' ?bs'] se1 = (Inr (), se2)"
      "tp_tasks (se_threadPool se2) = tp_tasks (se_threadPool se) @ [R_StartResult (start_result_received ?q)]"
    using read_joined [of ?e "[(now', ?bs')]" "\<lambda>m. (R_StartResult (start_result_received ?q), m)" con se1 po]
      front_takes_result [OF rfit, of junk' clientAddress c] con(2) rb se1(3,4) pool by (auto simp: frame_def)
  have n: "getUserName usr = getUserName u" using getUserByName_Some [OF usr] by (simp add: getUserName_def)
  have code: "launch_code st = 0 \<longleftrightarrow> st = SESSION_LAUNCH_OK" by (cases st) simp_all
  have "open_info (snd (front_execute (R_StartResult (start_result_received ?q)) (users, t))) (getUserName u) name =
      Some (info\<lparr>si_status := (if st = SESSION_LAUNCH_OK then SESSION_RUNNING else SESSION_CRASHED)\<rparr>)"
    using usr(2) info
    by (simp add: front_execute_def ClientStartResult_execute_def start_result_received_def
        open_info_createSession n code)
  then show ?thesis using se1(1,2) node r by blast
qed

section \<open>Witnesses\<close>

definition example_front_selector ::
  "(nat visualizationNodeManager, front_received, server_packet, int \<Rightarrow> poll_flag set) selector" where
  "example_front_selector = SelectorThread_new (\<lambda>_. 0) (\<lambda>_. {}) (ThreadPool_new 0) VisualizationNodeManager_new"

definition example_node_client :: "(nat node, node_received, front_packet) client" where
  "example_node_client = connect (Connection_new 3) (Client_new (\<lambda>_. 0) ''10.0.0.1'' 9000
     \<lparr>nd_manager = example_manager, nd_toFrontend = [], nd_finishing = []\<rparr>)"

definition example_start :: "string \<Rightarrow> 32 word \<Rightarrow> startRequest" where
  "example_start name port = RequestStartStreamingSession ann name port"

lemma example_front_selector_simps:
  "bb_ok (se_readBuffer example_front_selector)" "bb_buf (se_readBuffer example_front_selector) \<noteq> None"
  "bb_size (se_readBuffer example_front_selector) = 65535"
  "bb_ok (se_writeBuffer example_front_selector)" "bb_size (se_writeBuffer example_front_selector) = 65535"
  "bb_ok (se_writeBufferHelper example_front_selector)" "bb_size (se_writeBufferHelper example_front_selector) = 8192"
  "none_ended (se_threadPool example_front_selector)" "tp_tasks (se_threadPool example_front_selector) = []"
  "tp_maxQueueSize (se_threadPool example_front_selector) = 256" "se_sent example_front_selector = []"
  unfolding example_front_selector_def
  by (rule SelectorThread_new_buffers)+
    (simp_all add: SelectorThread_new_def ThreadPool_new_none_ended ThreadPool_new_simps)

lemma example_node_client_simps:
  "cl_listening example_node_client" "cl_execQueue example_node_client = []"
  "bb_size (cl_recvBuffer example_node_client) = 65535" "bb_ok (cl_sendBuffer example_node_client)"
  "bb_size (cl_sendBuffer example_node_client) = 65535" "cl_sent example_node_client = []"
  "cl_connection example_node_client = Some (Connection_new 3)"
  "cl_world example_node_client = \<lparr>nd_manager = example_manager, nd_toFrontend = [], nd_finishing = []\<rparr>"
  by (simp_all add: cl_listening_def example_node_client_def connect_def Client_new_def ByteBuffer_default_ok)

lemma example_start_simps:
  "length name < 100 \<Longrightarrow> start_fits (example_start name port)"
  "length (start_content (example_start name port)) = length name + 21"
  by (simp_all add: example_start_def start_fits_def strings_fit_def start_content_def RequestStartStreamingSession_def
      ann_def user_defs)

text \<open>Two requests for one node; the second is lost.\<close>

theorem batched_requests_lose_all_but_first_witness:
  "\<exists>se' bs cl1 cl2.
    writeToConnection (front_env 0 (\<lambda>_. ''10.0.0.5'') (7 :: nat)) short_polls 5
      ((setPollSetSource True (Connection_new 5))\<lparr>con_sendPackets :=
        [StartRequest (example_start ''a'' 8001), StartRequest (example_start ''b'' 8002)]\<rparr>) example_front_selector =
      (Inr (), se') \<and> se_sent se' = [(5, bs)] \<and>
    recv_loop node_readImpl node_handler ''10.0.0.1'' [Received 0 bs] example_node_client = (Inr (), cl1) \<and>
    exec_loop (node_execute True 0) cl1 = (Inr (), cl2) \<and>
    live (nd_manager (cl_world cl2)) ''ann'' ''a'' \<noteq> None \<and> live (nd_manager (cl_world cl2)) ''ann'' ''b'' = None"
proof -
  let ?p = "StartRequest (example_start ''a'' 8001)" and ?ps = "[StartRequest (example_start ''b'' 8002)]"
  let ?con = "(setPollSetSource True (Connection_new 5))\<lparr>con_sendPackets := ?p # ?ps\<rparr> :: server_packet connection"
  let ?nd = "\<lparr>nd_manager = example_manager, nd_toFrontend = [], nd_finishing = []\<rparr>"
  have len: "\<forall>q\<in>set (?p # ?ps). length (server_content q) + 3 < bb_size (se_writeBufferHelper example_front_selector)"
    by (simp add: server_content_def example_start_simps example_front_selector_simps)
  have total: "length (concat (map server_frame (?p # ?ps))) = 50"
    by (simp add: server_frame_def server_content_def example_start_simps)
  have sizes: "length (concat (map server_frame (?p # ?ps))) < bb_size (se_writeBuffer example_front_selector)"
    "length (concat (map server_frame (?p # ?ps))) \<le> bb_size (cl_recvBuffer example_node_client)"
    unfolding total by (simp_all add: example_front_selector_simps example_node_client_simps)
  have con: "con_socket ?con = Some 5" "con_hasPollset ?con" by (simp_all add: setPollSetSource_def Connection_new_def)
  have fit: "server_fits ?p" by (simp add: server_fits_def example_start_simps)
  let ?nd' = "snd (node_execute True 0 (node_receives ?p) ?nd)"
  have ex: "node_execute True 0 (node_receives ?p) (cl_world example_node_client) = (Inr (), ?nd')"
    by (simp add: example_node_client_simps node_execute_def node_receives_def sx_modify_def)
  have "live (nd_manager ?nd') ''ann'' ''a'' \<noteq> None \<and> live (nd_manager ?nd') ''ann'' ''b'' = None"
    by (simp add: node_execute_def node_receives_def sx_modify_def RequestStartStreamingSession_execute_def
        start_received_def example_start_def RequestStartStreamingSession_def ann_def user_defs example_simps
        startNewSession_def Let_def findAvailablePort_def um_set_def sessions_of_def put_sessions_def tryLaunchSession_def
        node_send_def live_def)
  note live = this
  from batched_requests_lose_all_but_first [OF _ len sizes(1) example_front_selector_simps(6,4) con fit
      example_node_client_simps(1,2) sizes(2) ex, of 0 "\<lambda>_. ''10.0.0.5''" 7 short_polls 5 "''10.0.0.1''" 0]
  obtain se' bs cl1 cl2 where r: "writeToConnection (front_env 0 (\<lambda>_. ''10.0.0.5'') 7) short_polls 5 ?con
      example_front_selector = (Inr (), se')" "se_sent se' = se_sent example_front_selector @ [(5, bs)]"
    "recv_loop node_readImpl node_handler ''10.0.0.1'' [Received 0 bs] example_node_client = (Inr (), cl1)"
    "exec_loop (node_execute True 0) cl1 = (Inr (), cl2)" "cl_world cl2 = ?nd'" by auto
  show ?thesis
    by (rule exI [of _ se'], rule exI [of _ bs], rule exI [of _ cl1], rule exI [of _ cl2])
      (intro conjI, use r live in \<open>simp_all only: example_front_selector_simps(11) append_Nil simp_thms\<close>)
qed

theorem start_request_through_sockets_witness:
  "\<exists>se1 bs cl1 cl2 cl3 cl4 bs' se2 f.
    writeToConnection (front_env 0 (\<lambda>_. ''10.0.0.5'') (7 :: nat)) short_polls 5
      ((setPollSetSource True (Connection_new 5))\<lparr>con_sendPackets := [StartRequest (example_start ''a'' 8001)]\<rparr>)
      example_front_selector = (Inr (), se1) \<and> se_sent se1 = [(5, bs)] \<and>
    recv_loop node_readImpl node_handler ''10.0.0.1'' [Received 0 bs] example_node_client = (Inr (), cl1) \<and>
    exec_loop (node_execute True 0) cl1 = (Inr (), cl2) \<and> send_answers cl2 = (Inr (), cl3) \<and>
    send_loop (node_writePacket (nd_manager (cl_world cl2))) cl3 = (Inr (), cl4) \<and> cl_sent cl4 = [bs'] \<and>
    readFromConnection (front_env 0 (\<lambda>_. ''10.0.0.5'') (7 :: nat)) short_polls
      ((setPollSetSource True (Connection_new 5))\<lparr>con_sendPackets := [StartRequest (example_start ''a'' 8001)]\<rparr>)
      [Received 0 bs'] se1 = (Inr (), se2) \<and> tp_tasks (se_threadPool se2) = [f] \<and>
    open_info (snd (front_execute f (put_user ''10.0.0.1'' ann UserManager_new,
        put_tracked ''ann'' [(''a'', created_info 0 ann ''a'' ''n'' ''n'' 8001)] \<lparr>openSessions = []\<rparr>))) ''ann'' ''a'' =
      Some ((created_info 0 ann ''a'' ''n'' ''n'' 8001)\<lparr>si_status := SESSION_RUNNING\<rparr>)"
proof -
  let ?req = "example_start ''a'' 8001"
  let ?con = "(setPollSetSource True (Connection_new 5))\<lparr>con_sendPackets := [StartRequest ?req]\<rparr> :: server_packet connection"
  let ?users = "put_user ''10.0.0.1'' ann UserManager_new"
  let ?t = "put_tracked ''ann'' [(''a'', created_info 0 ann ''a'' ''n'' ''n'' 8001)] \<lparr>openSessions = []\<rparr>"
  note S = example_front_selector_simps and C = example_node_client_simps
  have con: "con_sendPackets ?con = [StartRequest ?req]" "con_socket ?con = Some 5" "con_hasPollset ?con"
    by (simp_all add: setPollSetSource_def Connection_new_def)
  have name: "getUserName ann = ''ann''" "getAddress ann = ''10.0.0.1''" by (simp_all add: ann_def user_defs)
  have fit: "start_fits ?req" by (rule example_start_simps) simp
  have w: "length (start_content ?req) + 3 < bb_size (se_writeBufferHelper example_front_selector)"
    "length (start_content ?req) + 3 < bb_size (se_writeBuffer example_front_selector)"
    "length (start_content ?req) + 3 \<le> bb_size (se_readBuffer example_front_selector)"
    "length (tp_tasks (se_threadPool example_front_selector)) < unat (tp_maxQueueSize (se_threadPool example_front_selector))"
    "length (start_content ?req) + 3 \<le> bb_size (cl_recvBuffer example_node_client)"
    "length (start_content ?req) + 3 < bb_size (cl_sendBuffer example_node_client)"
    by (simp_all add: S C example_start_simps)
  have conn: "con_sendPackets (Connection_new 3 :: front_packet connection) = []"
    "\<not> con_hasPollset (Connection_new 3 :: front_packet connection)" by (simp_all add: Connection_new_def)
  have nd: "nd_toFrontend (cl_world example_node_client) = []" by (simp add: C)
  have "fst (startNewSession True 0 (getUserName ann) (getAddress ann) ''a'' (ucast (8001 :: 32 word)) example_manager)
      = SESSION_LAUNCH_OK"
    by (simp add: name example_simps startNewSession_def Let_def findAvailablePort_def
        um_set_def sessions_of_def put_sessions_def tryLaunchSession_def)
  then obtain sm' where st: "startNewSession True 0 (getUserName ann) (getAddress ann) ''a'' (ucast (8001 :: 32 word))
      (nd_manager (cl_world example_node_client)) = (SESSION_LAUNCH_OK, sm')"
    unfolding C by (metis prod.collapse node.select_convs(1))
  have u: "users_ok ?users"
    by (intro users_ok_put users_ok_new) (simp_all add: ann_def user_defs um_wf_def)
  have g: "getUserByName (getUserName ann) ?users = Some (''10.0.0.1'', ann)"
    by (simp add: getUserByName_def put_user_def UserManager_new_def um_set_def)
  have i: "open_info ?t (getUserName ann) ''a'' = Some (created_info 0 ann ''a'' ''n'' ''n'' 8001)"
    by (simp add: open_info_put name)
  from start_request_through_sockets [OF example_start_def fit con S(6,4) w(1,2) S(1,2) w(3) S(8) w(4) C(1,2,4) w(5,6)
      C(7) conn nd st u g i, of 0 "\<lambda>_. ''10.0.0.5''" 7 short_polls 5 "''10.0.0.1''" 0 0]
  show ?thesis unfolding name S(9,11) C(6) append_Nil
    by (elim exE conjE, hypsubst, intro exI conjI; assumption?) (simp_all only: if_True simp_thms)
qed

end
