(* ===== verification/Daemons.thy ===== *)
theory Daemons
  imports System
begin

text \<open>
  The start and the end of the two daemons: \<open>ReMoLON/src/main.cpp\<close> and \<open>Node\<close>, and
  \<open>ReMoLON_FrontEnd/src/main.cpp\<close> with \<open>SessionManagerServer\<close>. A server is a value of the record
  \<open>server\<close>; the pool of threads and the poll set it starts with are arguments.
\<close>

section \<open>The front end\<close>

text \<open>\<open>AbstractServer\<close>'s constructor leaves \<open>_active\<close> unset.\<close>

definition Server_new :: "bool \<Rightarrow> string \<Rightarrow> 16 word \<Rightarrow> ('w, 'q, 'p, 'ps) server" where
  "Server_new junk address port =
     \<lparr>sv_bindIPAddress = address, sv_bindPort = port, sv_active = junk, sv_selectorWorkers = []\<rparr>"

definition SessionManagerServer_start ::
  "bool \<Rightarrow> (nat \<Rightarrow> byte) \<Rightarrow> 'ps \<Rightarrow> 'q threadPool \<Rightarrow> 'w \<Rightarrow> config \<Rightarrow> cpp_error + ('w, 'q, 'p, 'ps) server" where
  "SessionManagerServer_start junk fresh ps tp w cfg =
     (case getIntProperty ''serverPortBind'' 0 cfg of
        Inl e \<Rightarrow> Inl e
      | Inr bindToPort \<Rightarrow>
          Inr (server_start fresh ps tp w
            (Server_new junk (getProperty ''serverIPAddressBind'' [] cfg) (word_of_int bindToPort))))"

definition SessionManagerServer_shutDown :: "('w, 'q, 'p, 'ps) server \<Rightarrow> ('w, 'q, 'p, 'ps) server" where
  "SessionManagerServer_shutDown = server_shutDown"

text \<open>
  \<open>atoi\<close> throws nothing: what is not a number is 0, and the value of a number that is no \<open>int\<close> is
  undefined.
\<close>

definition atoi :: "string \<Rightarrow> cpp_error + int" where
  "atoi s =
     (case stoi s of
        Inr n \<Rightarrow> Inr n
      | Inl e \<Rightarrow> if e = Out_of_range then Inl (UB Unrepresentable_value) else Inr 0)"

text \<open>The port of the web server: an argument of \<open>main\<close>, or 80; Poco takes a \<open>UInt16\<close>.\<close>

definition front_main_port :: "string list \<Rightarrow> cpp_error + 32 word" where
  "front_main_port argv =
     (if length argv < 2 then Inr 80
      else (case atoi (argv ! 1) of Inl e \<Rightarrow> Inl e | Inr n \<Rightarrow> Inr (word_of_int n)))"

definition WebServer_port :: "32 word \<Rightarrow> 16 word" where
  "WebServer_port port = ucast port"

section \<open>A node\<close>

record ('c, 'ps) daemon =
  dm_client :: "('c node, node_received, front_packet) client"
  dm_server :: "('c node, node_received, front_packet, 'ps) server"

text \<open>
  \<open>main\<close>: the configuration, the client connected to the front end, the node's announcement, and
  the inner server started.
\<close>

definition node_main ::
  "bool \<Rightarrow> (nat \<Rightarrow> byte) \<Rightarrow> 'ps \<Rightarrow> node_received threadPool \<Rightarrow> front_packet connection \<Rightarrow> config \<Rightarrow>
   cpp_error + ('c, 'ps) daemon" where
  "node_main junk fresh ps tp con cfg =
     (case Node_initialize cfg SessionManager_new of
        Inl e \<Rightarrow> Inl e
      | Inr ns \<Rightarrow>
          (let nd = \<lparr>nd_manager = ns_manager ns, nd_toFrontend = [], nd_finishing = []\<rparr>;
               cl = connect con (Client_new fresh (ns_frontendServerAddress ns) (ns_frontendServerPort ns) nd);
               sv = Server_new junk (ns_bindToAddress ns) (ns_bindToPort ns)
           in case client_sendPacket NodeInfo cl of
                (Inl e, _) \<Rightarrow> Inl e
              | (Inr _, cl1) \<Rightarrow> Inr \<lparr>dm_client = cl1, dm_server = server_start fresh ps tp nd sv\<rparr>))"

text \<open>\<open>Node::shutDown\<close>, and \<open>signalHandler\<close>, which tells every session to finish first.\<close>

definition Node_shutDown :: "(('c, 'ps) daemon, unit) sx" where
  "Node_shutDown dm =
     (case client_close (dm_client dm) of
        (Inl e, cl) \<Rightarrow> (Inl e, dm\<lparr>dm_client := cl\<rparr>)
      | (Inr _, cl) \<Rightarrow> (Inr (), dm\<lparr>dm_client := cl, dm_server := server_shutDown (dm_server dm)\<rparr>))"

definition signalHandler :: "(('c, 'ps) daemon, unit) sx" where
  "signalHandler dm =
     (let nd = cl_world (dm_client dm) in
      case finishAllSessions (nd_manager nd) of
        Inl e \<Rightarrow> (Inl e, dm)
      | Inr cs \<Rightarrow>
          Node_shutDown (dm\<lparr>dm_client := (dm_client dm)
            \<lparr>cl_world := nd\<lparr>nd_finishing := nd_finishing nd @ cs\<rparr>\<rparr>\<rparr>))"

section \<open>The announcement of a node\<close>

lemma all_free_find: "all_free t P \<Longrightarrow> um_find t p = (if p \<in> P then Some False else None)"
proof -
  assume f: "all_free t P"
  have k: "um_find t p \<noteq> None \<longleftrightarrow> p \<in> P" using f um_find_key [of t p] by (simp add: all_free_def)
  have u: "um_find t p \<noteq> Some True" using f by (auto simp: all_free_def used_keys_def)
  show ?thesis
  proof (cases "um_find t p")
    case None
    then show ?thesis using k by simp
  next
    case (Some v)
    then show ?thesis using k u by (cases v) simp_all
  qed
qed

lemma all_free_count: "all_free t P \<Longrightarrow> free_slots t = card P"
proof -
  assume f: "all_free t P"
  then have wf: "um_wf t" and k: "um_keys t = P" by (simp_all add: all_free_def)
  have "\<not> v" if "(q, v) \<in> set t" for q v
    using um_find_in [OF wf that] all_free_find [OF f, of q] by (auto split: if_splits)
  then have "filter (\<lambda>(k, v). \<not> v) t = t" by (auto simp: filter_id_conv)
  then have "free_slots t = length (map fst t)" by (simp add: um_count_def)
  also have "\<dots> = card (set (map fst t))" using wf unfolding um_wf_def by (rule distinct_card [symmetric])
  also have "set (map fst t) = P" using k by (simp add: um_keys_def)
  finally show ?thesis .
qed

text \<open>What a node's \<open>main\<close> sends first is its announcement.\<close>

lemma node_main_announces:
  fixes dm :: "('c, 'ps) daemon"
  assumes "node_main junk fresh ps tp con cfg = Inr dm" and "\<not> con_hasPollset con" and "con_sendPackets con = []"
    and "length (node_info_content (nd_manager (cl_world (dm_client dm)))) < 65532"
  shows "\<exists>cl. send_loop (node_writePacket (nd_manager (cl_world (dm_client dm)))) (dm_client dm) = (Inr (), cl) \<and>
    cl_sent cl = [frame NodeInfo_getOpcode (node_info_content (nd_manager (cl_world (dm_client dm))))]"
proof -
  obtain ns :: "'c nodeSetup" where ns: "Node_initialize cfg SessionManager_new = Inr ns"
    using assms(1) by (auto simp: node_main_def split: sum.splits)
  let ?con = "con\<lparr>con_sendPackets := [NodeInfo]\<rparr>"
  have dm: "nd_manager (cl_world (dm_client dm)) = ns_manager ns" "cl_connection (dm_client dm) = Some ?con"
    "cl_active (dm_client dm)" "bb_ok (cl_sendBuffer (dm_client dm))" "bb_size (cl_sendBuffer (dm_client dm)) = 65535"
    "cl_sent (dm_client dm) = []"
    using assms(1-3) by (auto simp: node_main_def ns Let_def client_sendPacket_def on_client_connection_def
        sendPacket_def update_poll_def sx_seq_def sx_bind_def sx_modify_def connect_def Client_new_def ByteBuffer_default_ok
        split: sum.splits prod.splits)
  let ?f = "frame NodeInfo_getOpcode (node_info_content (ns_manager ns))"
  have "sends_frame (node_writePacket (ns_manager ns) NodeInfo) ?f (bb_size (cl_sendBuffer (dm_client dm)))"
    unfolding node_writePacket_def front_packet.case
    by (rule sends_frame_writePacket [OF node_info.writes]) (use assms(4) dm(1,5) in simp)
  then show ?thesis
    using send_loop_frames [of "dm_client dm" ?con "node_writePacket (ns_manager ns)" "\<lambda>_. ?f"] dm assms(2) by auto
qed

lemma front_takes_announcement:
  assumes "info_fits sm"
  shows "receives (pe_readImpl (front_env junk clientAddress c)) (pe_handler (front_env junk clientAddress c))
    (frame NodeInfo_getOpcode (node_info_content sm))
    (\<lambda>m. (R_NodeInfo, announce junk clientAddress c (sm_publicAddress sm) (wide_ports (sm_usedPorts sm)) m))"
  using node_info.reads [OF assms] node_info.content_small [OF assms] front_factories(1)
  unfolding receives_def
  by (intro exI [of _ NodeInfo_getOpcode] exI [of _ "node_info_content sm"] exI [of _ K_NodeInfo])
    (simp add: opcode_defs front_env_def)

section \<open>Properties\<close>

text \<open>
  Property C22. From the configuration file of a node to the register of the front end: what a started node
  sends first, received in one call by the selector thread, registers the node under its address
  with exactly the configured web ports, all free, with the configured public address and
  consistent counters.
\<close>

theorem configured_node_registers:
  fixes se :: "('c visualizationNodeManager, front_received, server_packet, 'qs) selector"
    and dm :: "('d, 'ps) daemon"
  assumes start: "node_main junk fresh ps tp ncon cfg = Inr dm" "\<not> con_hasPollset ncon" "con_sendPackets ncon = []"
    and fits: "length (getProperty ''publicAddress'' [] cfg) +
      8 * card (parsed_ports (getPropertyList ''availableWebPorts'' '','' cfg)) + 10 \<le> bb_size (se_readBuffer se)"
      "bb_size (se_readBuffer se) \<le> 65535"
    and rb: "bb_ok (se_readBuffer se)" "bb_buf (se_readBuffer se) \<noteq> None"
    and pool: "none_ended (se_threadPool se)"
      "length (tp_tasks (se_threadPool se)) < unat (tp_maxQueueSize (se_threadPool se))"
    and con: "con_socket con \<noteq> None" and new: "getNode (clientAddress c) (se_world se) = None"
  shows "\<exists>cl bs se' n.
    send_loop (node_writePacket (nd_manager (cl_world (dm_client dm)))) (dm_client dm) = (Inr (), cl) \<and>
    cl_sent cl = [bs] \<and>
    readFromConnection (front_env junk' clientAddress c) po con [Received now bs] se = (Inr (), se') \<and>
    getNode (clientAddress c) (se_world se') = Some n \<and> vn_inv n \<and>
    vn_publicAddress n = getProperty ''publicAddress'' [] cfg \<and>
    node_free n = card (parsed_ports (getPropertyList ''availableWebPorts'' '','' cfg)) \<and>
    (\<forall>port :: 16 word. um_find (vn_slotTracker n) (ucast port) =
       (if port \<in> parsed_ports (getPropertyList ''availableWebPorts'' '','' cfg) then Some False else None))"
proof -
  let ?P = "parsed_ports (getPropertyList ''availableWebPorts'' '','' cfg)"
  let ?sm = "nd_manager (cl_world (dm_client dm))"
  obtain ns :: "'d nodeSetup" where ns: "Node_initialize cfg SessionManager_new = Inr ns"
    using start(1) by (auto simp: node_main_def split: sum.splits)
  have sm: "?sm = ns_manager ns"
    using start(1) by (auto simp: node_main_def ns Let_def client_sendPacket_def on_client_connection_def
        sendPacket_def update_poll_def sx_seq_def sx_bind_def sx_modify_def connect_def Client_new_def
        split: sum.splits prod.splits if_splits)
  have free: "all_free (sm_usedPorts ?sm) ?P" and pub: "sm_publicAddress ?sm = getProperty ''publicAddress'' [] cfg"
    using Node_initialize_tables [OF ns] by (simp_all add: sm)
  have wf: "um_wf (sm_usedPorts ?sm)" using free by (simp add: all_free_def)
  have "free_slots (sm_usedPorts ?sm) = length (sm_usedPorts ?sm)"
  proof -
    have "card ?P = length (sm_usedPorts ?sm)"
      using free wf distinct_card [of "map fst (sm_usedPorts ?sm)"] by (simp add: all_free_def um_wf_def um_keys_def)
    then show ?thesis using all_free_count [OF free] by simp
  qed
  then have len: "length (sm_usedPorts ?sm) = card ?P" using all_free_count [OF free] by simp
  have content: "length (node_info_content ?sm) + 3 < bb_size (se_readBuffer se)"
    using fits(1) len pub by (simp add: node_info_content_def)
  have info: "info_fits ?sm" using fits len pub by (simp add: info_fits_def)
  have small: "length (node_info_content ?sm) < 65532" using content fits(2) by simp
  let ?e = "front_env junk' clientAddress c :: (front_kind, 'c visualizationNodeManager, front_received, server_packet) packet_env"
  let ?f = "frame NodeInfo_getOpcode (node_info_content ?sm)"
  obtain cl where cl: "send_loop (node_writePacket ?sm) (dm_client dm) = (Inr (), cl)" "cl_sent cl = [?f]"
    using node_main_announces [OF start small] by blast
  let ?m = "announce junk' clientAddress c (sm_publicAddress ?sm) (wide_ports (sm_usedPorts ?sm)) (se_world se)"
  have rc: "receives (pe_readImpl ?e) (pe_handler ?e) (concat (map snd [(now, ?f)]))
      (\<lambda>m. (R_NodeInfo, announce junk' clientAddress c (sm_publicAddress ?sm) (wide_ports (sm_usedPorts ?sm)) m))"
    using front_takes_announcement [OF info] by simp
  obtain se' where r: "readFromConnection ?e po con [Received now ?f] se = (Inr (), se')" "se_world se' = ?m"
    using read_joined [OF rc, of con se po] con rb pool content by (auto simp: frame_def)
  from announce_new [where con = c and clientAddress = clientAddress and m = "se_world se", OF info wf new, of junk']
  show ?thesis using cl r all_free_find [OF free] all_free_count [OF free] pub by auto
qed

definition example_config :: config where
  "example_config = Config_new (Some ''availableWebPorts = 8001, 70000, x'')"

lemma example_config_ports:
  "parsed_ports (getPropertyList ''availableWebPorts'' '','' example_config) = {8001, 4464}"
  "getProperty ''publicAddress'' [] example_config = []"
  "n \<noteq> ''availableWebPorts'' \<Longrightarrow> getIntProperty n 0 example_config = Inr 0"
proof -
  have p: "properties example_config = [(''availableWebPorts'', ''8001,70000,x'')]"
    by (simp add: example_config_def Config_new_def load_def load_line_def Let_def removeWhiteSpaces_def find_first_of_def
        substr_def um_set_def)
  have l: "getPropertyList ''availableWebPorts'' '','' example_config = [''8001'', ''70000'', ''x'']"
    by (simp add: getPropertyList_def p list_loop.simps find_first_of_def Let_def substr_def)
  have "stoi ''8001'' = Inr 8001" "stoi ''70000'' = Inr 70000" "stoi ''x'' = Inl Invalid_argument"
    by (simp_all add: stoi_def Let_def is_space_def digit_of_def)
  moreover have wrap: "(70000 :: 16 word) = 4464" by simp
  ultimately show "parsed_ports (getPropertyList ''availableWebPorts'' '','' example_config) = {8001, 4464}"
    by (simp add: l parsed_ports_simps) (metis (no_types) wrap)
  show "getProperty ''publicAddress'' [] example_config = []"
    "n \<noteq> ''availableWebPorts'' \<Longrightarrow> getIntProperty n 0 example_config = Inr 0"
    by (simp_all add: getIntProperty_def getProperty_def p)
qed

theorem configured_node_registers_witness:
  "\<exists>dm cl bs se' n. node_main False (\<lambda>_. 0) () (ThreadPool_new 0) (Connection_new 3) example_config =
      Inr (dm :: (nat, unit) daemon) \<and>
    send_loop (node_writePacket (nd_manager (cl_world (dm_client dm)))) (dm_client dm) = (Inr (), cl) \<and>
    cl_sent cl = [bs] \<and>
    readFromConnection (front_env 0 (\<lambda>_. ''10.0.0.5'') (7 :: nat)) short_polls (Connection_new 5) [Received 0 bs]
      example_front_selector = (Inr (), se') \<and>
    getNode ''10.0.0.5'' (se_world se') = Some n \<and> node_free n = 2 \<and>
    um_find (vn_slotTracker n) 4464 = Some False"
proof -
  have c: "\<not> con_hasPollset (Connection_new 3 :: front_packet connection)"
    "con_sendPackets (Connection_new 3 :: front_packet connection) = []"
    "con_socket (Connection_new 5 :: server_packet connection) \<noteq> None" by (simp_all add: Connection_new_def)
  have "\<exists>ns :: nat nodeSetup. Node_initialize example_config SessionManager_new = Inr ns"
    by (simp add: Node_initialize_def example_config_ports)
  then obtain dm :: "(nat, unit) daemon" where
    dm: "node_main False (\<lambda>_. 0) () (ThreadPool_new 0) (Connection_new 3) example_config = Inr dm"
    by (auto simp: node_main_def Let_def client_sendPacket_def on_client_connection_def connect_def sendPacket_def
        update_poll_def sx_seq_def sx_bind_def sx_modify_def Connection_new_def)
  let ?P = "parsed_ports (getPropertyList ''availableWebPorts'' '','' example_config)"
  have card: "card ?P = 2" by (simp add: example_config_ports)
  have fits: "length (getProperty ''publicAddress'' [] example_config) + 8 * card ?P + 10
      \<le> bb_size (se_readBuffer example_front_selector)" "bb_size (se_readBuffer example_front_selector) \<le> 65535"
    unfolding card by (simp_all add: example_config_ports example_front_selector_simps)
  have pool: "length (tp_tasks (se_threadPool example_front_selector)) <
      unat (tp_maxQueueSize (se_threadPool example_front_selector))"
    and new: "getNode ((\<lambda>_. ''10.0.0.5'') (7 :: nat)) (se_world example_front_selector) = None"
    by (simp_all add: example_front_selector_simps)
      (simp add: example_front_selector_def SelectorThread_new_def getNode_def VisualizationNodeManager_new_def)
  from configured_node_registers [where junk' = 0 and po = short_polls and now = 0, OF dm c(1,2) fits example_front_selector_simps(1,2,8) pool c(3) new]
  obtain cl bs se' n where r: "send_loop (node_writePacket (nd_manager (cl_world (dm_client dm)))) (dm_client dm) = (Inr (), cl)"
    "cl_sent cl = [bs]"
    "readFromConnection (front_env 0 (\<lambda>_. ''10.0.0.5'') (7 :: nat)) short_polls (Connection_new 5) [Received 0 bs]
      example_front_selector = (Inr (), se')"
    "getNode ''10.0.0.5'' (se_world se') = Some n" "node_free n = card ?P"
    "\<forall>port :: 16 word. um_find (vn_slotTracker n) (ucast port) = (if port \<in> ?P then Some False else None)"
    by blast
  have "um_find (vn_slotTracker n) 4464 = Some False"
    using spec [OF r(6), of 4464] by (simp add: example_config_ports)
  with dm r(1-5) show ?thesis unfolding card by blast
qed

text \<open>An argument of the front end that is no number is port 0, not an error.\<close>

lemma front_main_port_not_a_number: "stoi s = Inl Invalid_argument \<Longrightarrow> front_main_port [prog, s] = Inr 0"
  by (simp add: front_main_port_def atoi_def)

end
