(* ===== verification/SelectorRun.thy ===== *)
theory SelectorRun
  imports Selector
begin

text \<open>
  Runs of a selector thread: the rounds of \<open>SelectorThread::selectLoop\<close>, interleaved with what
  other threads do to it: the server adds connections, and the program sends packets on them.
\<close>

text \<open>One iteration of the loop: without connections it waits and polls nothing.\<close>

definition poll_round ::
  "('k, 'w, 'q, 'p) packet_env \<Rightarrow> 'ps poll_ops \<Rightarrow> (int \<times> poll_flag set \<times> arrival list) list \<Rightarrow>
   (('w, 'q, 'p, 'ps) selector, unit) sx" where
  "poll_round en po polled se =
     (if \<not> se_active se \<or> se_connections se = [] then (Inr (), se) else select_round en po polled se)"

text \<open>\<open>Connection::sendPacket\<close> on a connection of the thread, by another thread.\<close>

definition send_on ::
  "'ps poll_ops \<Rightarrow> int \<Rightarrow> 'p \<Rightarrow> (('w, 'q, 'p, 'ps) selector, unit) sx" where
  "send_on po fd p se =
     on_connection fd Null_deref (\<lambda>con se.
       (case sendPacket (po_update po) p (con, se_socketProcessSet se) of
          (r, (con', ps)) \<Rightarrow>
            (r, se\<lparr>se_connections := um_replace fd con' (se_connections se), se_socketProcessSet := ps\<rparr>))) se"

inductive se_step ::
  "('k, 'w, 'q, 'p) packet_env \<Rightarrow> 'ps poll_ops \<Rightarrow>
   ('w, 'q, 'p, 'ps) selector \<Rightarrow> ('w, 'q, 'p, 'ps) selector \<Rightarrow> bool"
  for en po where
  connect: "addConnection po (Connection_new fd) se = (Inr b, se') \<Longrightarrow> se_step en po se se'"
| send: "send_on po fd p se = (Inr (), se') \<Longrightarrow> se_step en po se se'"
| round: "poll_round en po polled se = (Inr (), se') \<Longrightarrow> se_step en po se se'"
| stop: "se_step en po se (selector_shutDown se)"

inductive se_reachable ::
  "('k, 'w, 'q, 'p) packet_env \<Rightarrow> 'ps poll_ops \<Rightarrow> ('w, 'q, 'p, 'ps) selector \<Rightarrow> bool"
  for en po where
  start: "se_reachable en po (SelectorThread_new fresh ps tp w)"
| step: "se_reachable en po se \<Longrightarrow> se_step en po se se' \<Longrightarrow> se_reachable en po se'"

inductive_cases se_stepE: "se_step en po se se'"

section \<open>The poll set follows the connections\<close>

text \<open>What the code relies on in \<open>Poco::Net::PollSet\<close>: it keeps the mode it is given for each socket.\<close>

definition po_ok :: "'ps poll_ops \<Rightarrow> ('ps \<Rightarrow> int \<Rightarrow> poll_flag set) \<Rightarrow> bool" where
  "po_ok po mask_of \<longleftrightarrow> pollset_update_ok (po_add po) mask_of \<and> pollset_update_ok (po_update po) mask_of \<and>
     (\<forall>fd ps fd'. mask_of (po_remove po fd ps) fd' = (if fd' = fd then {} else mask_of ps fd'))"

text \<open>A connection is polled for reading, and for writing while packets wait on it.\<close>

definition conn_polled :: "('ps \<Rightarrow> int \<Rightarrow> poll_flag set) \<Rightarrow> 'ps \<Rightarrow> int \<Rightarrow> 'p connection \<Rightarrow> bool" where
  "conn_polled mask_of ps fd con \<longleftrightarrow> con_socket con = Some fd \<and> con_hasPollset con \<and> POLL_READ \<in> mask_of ps fd \<and>
     (con_sendPackets con \<noteq> [] \<longrightarrow> POLL_WRITE \<in> mask_of ps fd)"

definition all_polled :: "('ps \<Rightarrow> int \<Rightarrow> poll_flag set) \<Rightarrow> (int, 'p connection) umap \<times> 'ps \<Rightarrow> bool" where
  "all_polled mask_of net \<longleftrightarrow> um_wf (fst net) \<and>
     (\<forall>fd con. um_find (fst net) fd = Some con \<longrightarrow> conn_polled mask_of (snd net) fd con)"

text \<open>An operation that changes the mode of one socket only keeps the others polled.\<close>

lemma all_polled_replace:
  assumes "all_polled mask_of (cs, ps)" and "um_find cs fd \<noteq> None" and "conn_polled mask_of ps' fd con"
    and "\<And>fd'. fd' \<noteq> fd \<Longrightarrow> mask_of ps' fd' = mask_of ps fd'"
  shows "all_polled mask_of (um_replace fd con cs, ps')"
  using assms by (auto simp: all_polled_def um_wf_replace um_find_replace conn_polled_def split: if_splits)

lemma all_polled_set:
  assumes "all_polled mask_of (cs, ps)" and "conn_polled mask_of ps' fd con"
    and "\<And>fd'. fd' \<noteq> fd \<Longrightarrow> mask_of ps' fd' = mask_of ps fd'"
  shows "all_polled mask_of (um_set fd con cs, ps')"
  using assms by (auto simp: all_polled_def um_wf_set um_find_set conn_polled_def split: if_splits)

lemma addConnection_polled:
  assumes "po_ok po mask_of" and "all_polled mask_of (se_net se)"
    and "addConnection po (Connection_new fd) se = (r, se')"
  shows "all_polled mask_of (se_net se')"
proof (cases "um_find (se_connections se) fd = None")
  case True
  have "conn_polled mask_of (po_add po fd {POLL_READ} (se_socketProcessSet se)) fd (setPollSetSource True (Connection_new fd))"
    using assms(1) by (simp add: po_ok_def pollset_update_ok_def conn_polled_def setPollSetSource_def Connection_new_def)
  moreover have "\<And>fd'. fd' \<noteq> fd \<Longrightarrow>
      mask_of (po_add po fd {POLL_READ} (se_socketProcessSet se)) fd' = mask_of (se_socketProcessSet se) fd'"
    using assms(1) by (simp add: po_ok_def pollset_update_ok_def)
  ultimately have "all_polled mask_of (um_set fd (setPollSetSource True (Connection_new fd)) (se_connections se),
      po_add po fd {POLL_READ} (se_socketProcessSet se))"
    using assms(2) unfolding se_net_def by (intro all_polled_set)
  then show ?thesis using assms(3) by (auto simp: se_net_def addConnection_new [OF True])
next
  case False
  then show ?thesis using assms(2,3) by (auto simp: addConnection_def getSockFD_def Connection_new_def)
qed

lemma send_on_polled:
  assumes "po_ok po mask_of" and "all_polled mask_of (se_net se)" and "send_on po fd p se = (Inr (), se')"
  shows "all_polled mask_of (se_net se')"
proof -
  obtain con where con: "um_find (se_connections se) fd = Some con"
    using assms(3) by (auto simp: send_on_def on_connection_def split: option.splits)
  have c: "con_socket con = Some fd" "con_hasPollset con"
    using assms(2) con by (auto simp: all_polled_def se_net_def conn_polled_def)
  let ?con = "con\<lparr>con_sendPackets := con_sendPackets con @ [p]\<rparr>"
  let ?ps = "po_update po fd {POLL_WRITE, POLL_READ} (se_socketProcessSet se)"
  have "se' = se\<lparr>se_connections := um_replace fd ?con (se_connections se), se_socketProcessSet := ?ps\<rparr>"
    using assms(3) con c by (simp add: send_on_def on_connection_def connection_defs)
  moreover have "conn_polled mask_of ?ps fd ?con" "fd' \<noteq> fd \<Longrightarrow> mask_of ?ps fd' = mask_of (se_socketProcessSet se) fd'" for fd'
    using assms(1) c by (simp_all add: po_ok_def pollset_update_ok_def conn_polled_def)
  ultimately show ?thesis using assms(2) con by (simp add: se_net_def all_polled_replace)
qed

text \<open>Writing: a poll of the queue changes the mode of the connection's own socket only.\<close>

lemma poll_polled:
  assumes "pollset_update_ok update mask_of" and "conn_polled mask_of ps fd con"
    and "pollSendablePacket update (con, ps) = (r, (con1, ps1))"
  shows "conn_polled mask_of ps1 fd con1" and "fd' \<noteq> fd \<Longrightarrow> mask_of ps1 fd' = mask_of ps fd'"
proof -
  have u: "mask_of (update fd m ps) fd' = (if fd' = fd then m else mask_of ps fd')" for m fd'
    using assms(1) by (simp add: pollset_update_ok_def)
  show "conn_polled mask_of ps1 fd con1" "fd' \<noteq> fd \<Longrightarrow> mask_of ps1 fd' = mask_of ps fd'"
    using assms(2,3) by (auto simp: connection_defs conn_polled_def u split: list.splits)
qed

lemma write_packet_connection: "write_packet w (cp, helper, wb, sent) = (r, (cp', others)) \<Longrightarrow> cp' = cp"
  by (auto simp: write_packet_def split: prod.splits sum.splits option.splits)

lemma write_loop_polled:
  assumes "pollset_update_ok update mask_of"
  shows "write_loop update writer ((con, ps), helper, wb, sent) = (r, ((con1, ps1), others)) \<Longrightarrow>
    conn_polled mask_of ps fd con \<Longrightarrow>
    conn_polled mask_of ps1 fd con1 \<and> (\<forall>fd'. fd' \<noteq> fd \<longrightarrow> mask_of ps1 fd' = mask_of ps fd')"
proof (induction "length (con_sendPackets con)" arbitrary: con ps helper wb sent rule: less_induct)
  case less
  obtain q con2 ps2 where poll: "pollSendablePacket update (con, ps) = (q, (con2, ps2))" by (metis surj_pair)
  note P = poll_polled [OF assms less.prems(2) poll]
  show ?case
  proof (cases q)
    case (Inl e)
    then show ?thesis using less.prems(1) P by (subst (asm) write_loop.simps) (auto simp: poll)
  next
    case (Inr po)
    show ?thesis
    proof (cases po)
      case None
      then show ?thesis using less.prems(1) P Inr by (subst (asm) write_loop.simps) (auto simp: poll)
    next
      case (Some p)
      have short: "length (con_sendPackets con2) < length (con_sendPackets con)"
        using poll_shortens [of update "(con, ps)" p "(con2, ps2)"] poll Inr Some by simp
      obtain s cp2 helper2 wb2 sent2 where w: "write_packet (writer p) ((con2, ps2), helper, wb, sent) = (s, (cp2, helper2, wb2, sent2))"
        by (metis surj_pair)
      have cp2: "cp2 = (con2, ps2)" using write_packet_connection [OF w] .
      show ?thesis
      proof (cases s)
        case (Inl e)
        then show ?thesis using less.prems(1) P \<open>q = Inr po\<close> Some w cp2
          by (subst (asm) write_loop.simps) (auto simp: poll)
      next
        case (Inr u)
        then have "write_loop update writer ((con2, ps2), helper2, wb2, sent2) = (r, ((con1, ps1), others))"
          using less.prems(1) \<open>q = Inr po\<close> Some w by (subst (asm) write_loop.simps) (auto simp: poll)
        from less.hyps [OF short this P(1)] P(2) show ?thesis by simp
      qed
    qed
  qed
qed

lemma writeToConnection_polled:
  assumes "po_ok po mask_of" and "all_polled mask_of (se_net se)" and "um_find (se_connections se) fd = Some con"
    and "writeToConnection en po fd con se = (r, se')"
  shows "all_polled mask_of (se_net se')"
proof -
  obtain s con1 ps helper wb sent where w: "write_loop (po_update po) (pe_writePacket en)
      ((con, se_socketProcessSet se), se_writeBufferHelper se, reset (se_writeBuffer se), []) =
      (s, ((con1, ps), helper, wb, sent))" by (metis surj_pair)
  have "conn_polled mask_of (se_socketProcessSet se) fd con"
    using assms(2,3) by (simp add: all_polled_def se_net_def)
  from write_loop_polled [OF _ w this] assms(1)
  have p: "conn_polled mask_of ps fd con1" "\<And>fd'. fd' \<noteq> fd \<Longrightarrow> mask_of ps fd' = mask_of (se_socketProcessSet se) fd'"
    by (auto simp: po_ok_def)
  have "se_net se' = (um_replace fd con1 (se_connections se), ps)"
    using assms(4) by (auto simp: writeToConnection_def w Let_def se_net_def split: sum.splits if_splits)
  then show ?thesis
    using all_polled_replace [OF _ _ p] assms(2,3) by (simp add: se_net_def)
qed

text \<open>A connection that crashed is removed, and its socket no longer polled.\<close>

lemma handleConnectionCrash_net:
  assumes "all_polled mask_of (se_net se)" and "um_find (se_connections se) fd = Some con"
    and "handleConnectionCrash po con se = (r, se')"
  shows "r = Inr ()" and "se_connections se' = um_erase fd (um_replace fd (endConnection con) (se_connections se))"
    and "se_socketProcessSet se' = po_remove po fd (se_socketProcessSet se)"
proof -
  have "con_socket con = Some fd" using assms(1,2) by (simp add: all_polled_def se_net_def conn_polled_def)
  then show "r = Inr ()" "se_connections se' = um_erase fd (um_replace fd (endConnection con) (se_connections se))"
    "se_socketProcessSet se' = po_remove po fd (se_socketProcessSet se)"
    using assms(2,3) by (auto simp: handleConnectionCrash_def removeConnection_def getSockFD_def Let_def
        sx_seq_def sx_bind_def sx_return_def)
qed

lemma handleConnectionCrash_polled:
  assumes "po_ok po mask_of" and "all_polled mask_of (se_net se)" and "um_find (se_connections se) fd = Some con"
    and "handleConnectionCrash po con se = (r, se')"
  shows "all_polled mask_of (se_net se')"
proof -
  note N = handleConnectionCrash_net [OF assms(2-4)]
  have "mask_of (po_remove po fd ps) fd' = (if fd' = fd then {} else mask_of ps fd')" for ps fd'
    using assms(1) by (simp add: po_ok_def)
  moreover have "um_wf (um_replace fd (endConnection con) (se_connections se))"
    using assms(2) by (simp add: um_wf_replace all_polled_def se_net_def)
  ultimately show ?thesis
    using assms(2) by (auto simp: se_net_def N(2,3) all_polled_def um_wf_erase um_find_erase um_find_replace conn_polled_def
        split: if_splits)
qed

text \<open>A ready socket: whatever the three parts do, as long as nothing undefined happens.\<close>

lemma readFromConnection_polled:
  "readFromConnection en po con rs se = (r, se') \<Longrightarrow> all_polled mask_of (se_net se) \<Longrightarrow> all_polled mask_of (se_net se')"
  using readFromConnection_net(1) by metis

lemma on_connection_polled:
  assumes "on_connection fd k f se = (r, se')" and "all_polled mask_of (se_net se)"
    and "\<And>con. um_find (se_connections se) fd = Some con \<Longrightarrow> f con se = (r, se') \<Longrightarrow> all_polled mask_of (se_net se')"
  shows "all_polled mask_of (se_net se')"
  using assms by (auto simp: on_connection_def split: option.splits)

lemma sx_seq_cases:
  assumes "sx_seq m k s = (r, s')"
  obtains (thrown) e where "m s = (Inl e, s')" | (returned) x s1 where "m s = (Inr x, s1)" and "k s1 = (r, s')"
  using assms by (auto simp: sx_seq_def sx_bind_def split: prod.splits sum.splits)

lemma serve_socket_polled:
  assumes ok: "po_ok po mask_of" and p: "all_polled mask_of (se_net se)"
    and s: "serve_socket en po fd flags rs se = (r, se')"
  shows "all_polled mask_of (se_net se')"
proof -
  have writes: "all_polled mask_of (se_net s2)"
    if "(if POLL_WRITE \<in> flags then on_connection fd Dangling_pointer (writeToConnection en po fd) else sx_return ()) s1 = (q, s2)"
      and "all_polled mask_of (se_net s1)" for q s1 s2
    using that on_connection_polled [of fd Dangling_pointer "writeToConnection en po fd" s1 q s2 mask_of] writeToConnection_polled [where en = en, OF ok that(2)]
    by (auto simp: sx_return_def split: if_splits)
  have crashes: "all_polled mask_of (se_net s2)"
    if "(if POLL_ERROR \<in> flags then on_connection fd Dangling_pointer (handleConnectionCrash po) else sx_return ()) s1 = (q, s2)"
      and "all_polled mask_of (se_net s1)" for q s1 s2
    using that on_connection_polled [of fd Dangling_pointer "handleConnectionCrash po" s1 q s2 mask_of] handleConnectionCrash_polled [OF ok that(2)]
    by (auto simp: sx_return_def split: if_splits)
  have reads: "all_polled mask_of (se_net s2)"
    if "(if POLL_READ \<in> flags then readFromConnection en po con rs else sx_return ()) s1 = (q, s2)"
      and "all_polled mask_of (se_net s1)" for con q s1 s2
    using that by (auto simp: sx_return_def split: if_splits intro: readFromConnection_polled)
  from s p show ?thesis unfolding serve_socket_def
  proof (rule on_connection_polled)
    fix con
    assume "sx_seq (if POLL_READ \<in> flags then readFromConnection en po con rs else sx_return ())
      (sx_seq (if POLL_WRITE \<in> flags then on_connection fd Dangling_pointer (writeToConnection en po fd) else sx_return ())
        (if POLL_ERROR \<in> flags then on_connection fd Dangling_pointer (handleConnectionCrash po) else sx_return ())) se =
      (r, se')"
    then show "all_polled mask_of (se_net se')"
      using p by (elim sx_seq_cases) (blast dest: reads writes crashes)+
  qed
qed

lemma select_round_polled:
  "po_ok po mask_of \<Longrightarrow> all_polled mask_of (se_net se) \<Longrightarrow> select_round en po polled se = (r, se') \<Longrightarrow>
     all_polled mask_of (se_net se')"
proof (induction en po polled se rule: select_round.induct)
  case (2 en po fd flags rs polled se)
  obtain q se1 where s: "serve_socket en po fd flags rs se = (q, se1)" by fastforce
  have "all_polled mask_of (se_net se1)" using serve_socket_polled [OF 2(3,4) s] .
  then show ?case using 2(1) [OF s [symmetric] _ _ 2(3)] 2(2) [OF s [symmetric] _ 2(3)] 2(5) s
    by (auto split: sum.splits if_splits)
qed simp

lemma se_step_polled:
  assumes "se_step en po se se'" and "po_ok po mask_of" and "all_polled mask_of (se_net se)"
  shows "all_polled mask_of (se_net se')"
  using assms(1)
proof (cases rule: se_step.cases)
  case (connect fd b)
  then show ?thesis using addConnection_polled [OF assms(2,3)] by blast
next
  case (send fd p)
  then show ?thesis using send_on_polled [OF assms(2,3)] by blast
next
  case (round polled)
  then show ?thesis
    using select_round_polled [OF assms(2,3)] assms(3) by (auto simp: poll_round_def split: if_splits)
next
  case stop
  then show ?thesis using assms(3) by (simp add: selector_shutDown_def se_net_def)
qed

lemma se_reachable_polled:
  "se_reachable en po se \<Longrightarrow> po_ok po mask_of \<Longrightarrow> all_polled mask_of (se_net se)"
proof (induction rule: se_reachable.induct)
  case (start fresh ps tp w)
  then show ?case by (simp add: SelectorThread_new_def se_net_def all_polled_def)
next
  case (step se se')
  then show ?case using se_step_polled by blast
qed

section \<open>Properties\<close>

text \<open>
  Property C36. In every run of a selector thread, whatever connections are added, packets sent, bytes received
  and sockets in error, every connection it owns is registered under the descriptor of its socket
  and polled for reading, and for writing while packets wait on it: no packet is stranded.
\<close>

theorem selector_polls_its_connections:
  assumes "se_reachable en po se" and "po_ok po mask_of" and "um_find (se_connections se) fd = Some con"
  shows "con_socket con = Some fd \<and> POLL_READ \<in> mask_of (se_socketProcessSet se) fd \<and>
    (con_sendPackets con \<noteq> [] \<longrightarrow> POLL_WRITE \<in> mask_of (se_socketProcessSet se) fd)"
  using se_reachable_polled [OF assms(1,2)] assms(3) by (simp add: all_polled_def se_net_def conn_polled_def)

text \<open>A connection is added and a packet sent on it.\<close>

definition short_run :: "(unit, 16 word, 16 word, int \<Rightarrow> poll_flag set) selector" where
  "short_run = snd (send_on short_polls 5 7 (snd (addConnection short_polls (Connection_new 5) short_selector)))"

theorem selector_polls_its_connections_witness:
  "POLL_READ \<in> se_socketProcessSet short_run 5 \<and> POLL_WRITE \<in> se_socketProcessSet short_run 5"
proof -
  let ?con = "setPollSetSource True (Connection_new 5) :: 16 word connection"
  let ?se = "snd (addConnection short_polls (Connection_new 5) short_selector)"
  have none: "um_find (se_connections short_selector) 5 = None"
    by (simp add: short_selector_def SelectorThread_new_def)
  have add: "addConnection short_polls (Connection_new 5) short_selector = (Inr True, ?se)"
    and find: "um_find (se_connections ?se) 5 = Some ?con"
    by (simp_all add: addConnection_new [OF none] um_find_set)
  have "send_on short_polls 5 7 ?se = (Inr (), short_run)"
    using find by (simp add: short_run_def send_on_def on_connection_def connection_defs setPollSetSource_def Connection_new_def)
  then have "se_step short_env short_polls ?se short_run" by (rule se_step.send)
  moreover have "se_step short_env short_polls short_selector ?se" using add by (rule se_step.connect)
  moreover have "se_reachable short_env short_polls short_selector"
    unfolding short_selector_def by (rule se_reachable.start)
  ultimately have run: "se_reachable short_env short_polls short_run" by (blast intro: se_reachable.step)
  have polls: "po_ok short_polls (\<lambda>ps. ps)" by (simp add: po_ok_def pollset_update_ok_def short_polls_def)
  have "um_find (se_connections short_run) 5 = Some (?con\<lparr>con_sendPackets := [7]\<rparr>)"
    using find by (simp add: short_run_def send_on_def on_connection_def connection_defs setPollSetSource_def
        Connection_new_def um_find_replace)
  from selector_polls_its_connections [OF run polls this] show ?thesis by simp
qed

end
