(* ===== verification/Http.thy ===== *)
theory Http
  imports SessionTracker
begin

text \<open>
  The web interface of the front end: \<open>ReMoLON_FrontEnd/src/httpactions\<close>, \<open>src/RequestManager.cpp\<close>,
  \<open>src/XmlBuilder.cpp\<close> and the registration of handlers in \<open>src/WebServer.cpp\<close>.

  Poco parses the request and transports the response; neither is in the repository. A request
  is its URI, the address of the client and the form Poco has parsed. A response is its
  status, its content type and the body that was sent, \<open>None\<close> as long as \<open>send\<close> has not been
  called. The static pages are \<open>files\<close>, from path to content. PAM and the password database
  are the arguments of \<open>Users\<close>, collected in a record.

  Handlers may not return (\<open>None\<close>) or end in undefined behaviour (\<open>Inl\<close>).
\<close>

section \<open>Requests and responses\<close>

record httpRequest =
  rq_uri :: string
  rq_clientAddress :: string
  rq_form :: "(string, string) umap"

record httpResponse =
  rs_status :: nat
  rs_contentType :: "string option"
  rs_body :: "string option"

definition HTTP_OK :: nat where "HTTP_OK = 200"
definition HTTP_BAD_REQUEST :: nat where "HTTP_BAD_REQUEST = 400"
definition HTTP_FORBIDDEN :: nat where "HTTP_FORBIDDEN = 403"
definition HTTP_NOT_FOUND :: nat where "HTTP_NOT_FOUND = 404"

definition form_has :: "string \<Rightarrow> httpRequest \<Rightarrow> bool" where
  "form_has name rq \<longleftrightarrow> um_find (rq_form rq) name \<noteq> None"

definition form_get :: "string \<Rightarrow> string \<Rightarrow> httpRequest \<Rightarrow> string" where
  "form_get name dflt rq = (case um_find (rq_form rq) name of None \<Rightarrow> dflt | Some v \<Rightarrow> v)"

definition setStatus :: "nat \<Rightarrow> httpResponse \<Rightarrow> httpResponse" where
  "setStatus s rs = rs\<lparr>rs_status := s\<rparr>"

definition send_body :: "string \<Rightarrow> httpResponse \<Rightarrow> httpResponse" where
  "send_body s rs = rs\<lparr>rs_body := Some s\<rparr>"

text \<open>The answer with a page: the three lines every handler repeats.\<close>

definition send_page :: "(string \<Rightarrow> string) \<Rightarrow> string \<Rightarrow> httpResponse \<Rightarrow> httpResponse" where
  "send_page files path rs = send_body (files path) (rs\<lparr>rs_contentType := Some ''text/html''\<rparr>)"

record accounts =
  acc_pam_start :: "string \<Rightarrow> string \<Rightarrow> bool"
  acc_pam_authenticate :: "string \<Rightarrow> string \<Rightarrow> string \<Rightarrow> bool"
  acc_getpwnam :: "string \<Rightarrow> (32 word \<times> 32 word) option"

record 'c webState =
  ws_users :: userManager
  ws_front :: "'c frontend"

type_synonym 'c handled = "(cpp_error + httpResponse \<times> 'c webState) option"

definition answer :: "httpResponse \<Rightarrow> 'c webState \<Rightarrow> 'c handled" where
  "answer rs ws = Some (Inr (rs, ws))"

section \<open>The session list\<close>

definition session_xml :: "string \<times> streamingSessionInfo \<Rightarrow> string" where
  "session_xml s =
     (case s of (name, i) \<Rightarrow>
        ''<session>'' @ ''<name>'' @ name @ ''</name>'' @
        ''<url>http://'' @ si_nodePublicAddress i @ '':'' @ to_string_nat (unat (si_nodePort i)) @
        ''/index.html</url>'' @
        ''<status>'' @ to_string_nat (status_code (si_status i)) @ ''</status>'' @ ''</session>'')"

definition XMLBuildSessionList :: "user \<Rightarrow> sessionTracker \<Rightarrow> string \<times> sessionTracker" where
  "XMLBuildSessionList usr t =
     (case getUserSessions usr t of
        (l, t') \<Rightarrow>
          (''<?xml version=\"1.0\" encoding=\"UTF-8\"?><sessionlist>'' @ concat (map session_xml l) @ ''</sessionlist>'', t'))"

section \<open>The action handlers\<close>

definition DefaultActionHandler_handle ::
  "(string \<Rightarrow> string) \<Rightarrow> httpRequest \<Rightarrow> httpResponse \<Rightarrow> 'c webState \<Rightarrow> 'c handled" where
  "DefaultActionHandler_handle files rq rs ws =
     (let rs1 = setStatus HTTP_OK rs in
      if \<not> isUserLoggedIn (rq_clientAddress rq) (ws_users ws)
      then answer (send_page files ''FEClient/auth.html'' rs1) ws
      else answer (send_page files ''FEClient/index.html'' rs1) ws)"

definition LogInActionHandler_handle ::
  "accounts \<Rightarrow> 32 word \<Rightarrow> (string \<Rightarrow> string) \<Rightarrow> httpRequest \<Rightarrow> httpResponse \<Rightarrow> 'c webState \<Rightarrow> 'c handled" where
  "LogInActionHandler_handle acc junk files rq rs ws =
     (let rs1 = setStatus HTTP_OK rs;
          ip = rq_clientAddress rq
      in if \<not> form_has ''uname'' rq \<or> \<not> form_has ''psw'' rq
         then answer (send_page files ''FEClient/auth.html'' rs1) ws
         else (case tryAuthUser (acc_pam_start acc) (acc_pam_authenticate acc) (acc_getpwnam acc) junk ip
                      (form_get ''uname'' [] rq) (form_get ''psw'' [] rq) (ws_users ws) of
                 (ok, users) \<Rightarrow>
                   (let ws1 = ws\<lparr>ws_users := users\<rparr> in
                    if \<not> ok then answer (send_page files ''FEClient/auth.html'' rs1) ws1
                    else if isUserLoggedIn ip users
                    then answer (send_page files ''FEClient/index.html'' rs1) ws1
                    else answer rs1 ws1)))"

definition SessionListActionHandler_handle ::
  "(string \<Rightarrow> string) \<Rightarrow> httpRequest \<Rightarrow> httpResponse \<Rightarrow> 'c webState \<Rightarrow> 'c handled" where
  "SessionListActionHandler_handle files rq rs ws =
     (let rs1 = setStatus HTTP_OK rs;
          ip = rq_clientAddress rq
      in if \<not> isUserLoggedIn ip (ws_users ws)
         then answer (send_page files ''FEClient/auth.html'' rs1) ws
         else (case getUser ip (ws_users ws) of
                 Some usr \<Rightarrow>
                   (case XMLBuildSessionList usr (fe_tracker (ws_front ws)) of
                      (result, t) \<Rightarrow>
                        answer (send_body result rs1) (ws\<lparr>ws_front := (ws_front ws)\<lparr>fe_tracker := t\<rparr>\<rparr>))
               | None \<Rightarrow>
                   answer (send_body ''Unauthorized access from non identified used'' (setStatus HTTP_FORBIDDEN rs1)) ws))"

definition CreateSessionActionHandler_handle ::
  "32 word \<Rightarrow> (string \<Rightarrow> string) \<Rightarrow> httpRequest \<Rightarrow> httpResponse \<Rightarrow> 'c webState \<Rightarrow> 'c handled" where
  "CreateSessionActionHandler_handle junk files rq rs ws =
     (let rs1 = setStatus HTTP_OK rs;
          ip = rq_clientAddress rq
      in if \<not> isUserLoggedIn ip (ws_users ws)
         then answer (send_page files ''FEClient/auth.html'' rs1) ws
         else
           (let newSessionName = form_get ''session_name'' [] rq in
            if newSessionName = []
            then answer (send_body ''No session name specified'' (setStatus HTTP_BAD_REQUEST rs1)) ws
            else (case getUser ip (ws_users ws) of
                    None \<Rightarrow>
                      answer (send_body ''Unauthorized access from non identified used'' (setStatus HTTP_FORBIDDEN rs1)) ws
                  | Some usr \<Rightarrow>
                      (case tryCreateSession junk usr newSessionName (ws_front ws) of
                         None \<Rightarrow> None
                       | Some (result, usr', front) \<Rightarrow>
                           (let ws1 = ws\<lparr>ws_users := put_user ip usr' (ws_users ws), ws_front := front\<rparr> in
                            case result of
                              CREATION_FAIL_NO_AVAILABLE_NODES \<Rightarrow>
                                answer (send_body ''There are not available resources to create a new streaming session. Try again later.''
                                  (setStatus HTTP_BAD_REQUEST rs1)) ws1
                            | CREATION_FAIL_DUPLICATE_NAME \<Rightarrow>
                                answer (send_body (''A session with the name '' @ newSessionName @ '' already exists.'')
                                  (setStatus HTTP_BAD_REQUEST rs1)) ws1
                            | CREATION_OK \<Rightarrow> answer (send_body [] rs1) ws1)))))"

definition DestroySessionActionHandler_handle ::
  "(string \<Rightarrow> string) \<Rightarrow> httpRequest \<Rightarrow> httpResponse \<Rightarrow> 'c webState \<Rightarrow> 'c handled" where
  "DestroySessionActionHandler_handle files rq rs ws =
     (let rs1 = setStatus HTTP_OK rs;
          ip = rq_clientAddress rq
      in if \<not> isUserLoggedIn ip (ws_users ws)
         then answer (send_page files ''FEClient/auth.html'' rs1) ws
         else (case getUser ip (ws_users ws) of
                 None \<Rightarrow> Some (Inl (UB Null_deref))
               | Some usr \<Rightarrow>
                   (case tryFinishSession usr (form_get ''id'' [] rq) (ws_front ws) of
                      (usr', front) \<Rightarrow>
                        answer rs1 (ws\<lparr>ws_users := put_user ip usr' (ws_users ws), ws_front := front\<rparr>))))"

section \<open>Dispatch\<close>

datatype action = Default_action | LogIn_action | SessionList_action | CreateSession_action | DestroySession_action

fun getAction :: "action \<Rightarrow> string" where
  "getAction Default_action = ''''"
| "getAction LogIn_action = ''authenticate''"
| "getAction SessionList_action = ''RefreshSessionList''"
| "getAction CreateSession_action = ''CreateSession''"
| "getAction DestroySession_action = ''DestroySession''"

record requestManager =
  actionHandlers :: "(string, action) umap"

definition RequestManager_new :: requestManager where
  "RequestManager_new = \<lparr>actionHandlers = []\<rparr>"

text \<open>\<open>derived\<close> is the compile-time test that the class is an \<open>AbstractActionHandler\<close>.\<close>

definition registerActionHandler :: "bool \<Rightarrow> action \<Rightarrow> requestManager \<Rightarrow> bool \<times> requestManager" where
  "registerActionHandler derived a m =
     (if derived then (True, m\<lparr>actionHandlers := um_set (getAction a) a (actionHandlers m)\<rparr>) else (False, m))"

text \<open>\<open>WebServer::main\<close> registers the five handlers.\<close>

definition web_handlers :: requestManager where
  "web_handlers =
     snd (registerActionHandler True DestroySession_action
       (snd (registerActionHandler True CreateSession_action
         (snd (registerActionHandler True SessionList_action
           (snd (registerActionHandler True LogIn_action
             (snd (registerActionHandler True Default_action RequestManager_new)))))))))"

definition handleAction ::
  "accounts \<Rightarrow> 32 word \<Rightarrow> (string \<Rightarrow> string) \<Rightarrow> action \<Rightarrow> httpRequest \<Rightarrow> httpResponse \<Rightarrow> 'c webState \<Rightarrow> 'c handled" where
  "handleAction acc junk files a =
     (case a of
        Default_action \<Rightarrow> DefaultActionHandler_handle files
      | LogIn_action \<Rightarrow> LogInActionHandler_handle acc junk files
      | SessionList_action \<Rightarrow> SessionListActionHandler_handle files
      | CreateSession_action \<Rightarrow> CreateSessionActionHandler_handle junk files
      | DestroySession_action \<Rightarrow> DestroySessionActionHandler_handle files)"

definition request_action :: "string \<Rightarrow> string" where
  "request_action uri = (case uri of [] \<Rightarrow> [] | c # cs \<Rightarrow> if c = CHR ''/'' then cs else uri)"

definition handleRequest ::
  "accounts \<Rightarrow> 32 word \<Rightarrow> (string \<Rightarrow> string) \<Rightarrow> requestManager \<Rightarrow> httpRequest \<Rightarrow> httpResponse \<Rightarrow> 'c webState \<Rightarrow>
   'c handled" where
  "handleRequest acc junk files m rq rs ws =
     (case um_find (actionHandlers m) (request_action (rq_uri rq)) of
        None \<Rightarrow> answer (setStatus HTTP_NOT_FOUND rs) ws
      | Some a \<Rightarrow> handleAction acc junk files a rq rs ws)"

section \<open>Lemmas\<close>

lemmas handler_defs = DefaultActionHandler_handle_def LogInActionHandler_handle_def
  SessionListActionHandler_handle_def CreateSessionActionHandler_handle_def
  DestroySessionActionHandler_handle_def answer_def send_page_def send_body_def setStatus_def

lemma web_handlers_find:
  "um_find (actionHandlers web_handlers) s =
     (if s = '''' then Some Default_action
      else if s = ''authenticate'' then Some LogIn_action
      else if s = ''RefreshSessionList'' then Some SessionList_action
      else if s = ''CreateSession'' then Some CreateSession_action
      else if s = ''DestroySession'' then Some DestroySession_action
      else None)"
  by (simp add: web_handlers_def registerActionHandler_def RequestManager_new_def um_find_set)

text \<open>Every handler is found under its own name, and a request ends in exactly one of them or in 404.\<close>

lemma web_handlers_getAction: "um_find (actionHandlers web_handlers) s = Some a \<longleftrightarrow> s = getAction a"
  by (cases a) (auto simp: web_handlers_find)

lemma handleRequest_cases:
  obtains (unknown) "\<And>a. request_action (rq_uri rq) \<noteq> getAction a"
      "handleRequest acc junk files web_handlers rq rs ws = answer (setStatus HTTP_NOT_FOUND rs) ws"
    | (known) a where "request_action (rq_uri rq) = getAction a"
      "handleRequest acc junk files web_handlers rq rs ws = handleAction acc junk files a rq rs ws"
proof (cases "um_find (actionHandlers web_handlers) (request_action (rq_uri rq))")
  case None
  show thesis
  proof (rule unknown)
    show "request_action (rq_uri rq) \<noteq> getAction a" for a
      using None web_handlers_getAction [of "request_action (rq_uri rq)" a] by simp
  qed (simp add: handleRequest_def None)
next
  case (Some a)
  then have "request_action (rq_uri rq) = getAction a" using web_handlers_getAction by blast
  then show thesis using Some by (intro known [of a]) (simp_all add: handleRequest_def)
qed

lemma logged_in_getUser: "isUserLoggedIn ip m \<longleftrightarrow> getUser ip m \<noteq> None"
  by (simp add: isUserLoggedIn_def getUser_def)

text \<open>What an operation of the tracker leaves alone: the sessions of every other owner.\<close>

lemma open_info_create_other:
  assumes "tryCreateSession junk u name fe = Some (r, u', fe')" and "getUserName u \<noteq> owner"
  shows "open_info (fe_tracker fe') owner n = open_info (fe_tracker fe) owner n"
  using assms
  by (auto simp: tryCreateSession_def Let_def send_to_node_def open_info_put split: if_splits option.splits prod.splits)

lemma open_info_tryFinish_other:
  assumes "tryFinishSession u name fe = (u', fe')" and "getUserName u \<noteq> owner"
  shows "open_info (fe_tracker fe') owner n = open_info (fe_tracker fe) owner n"
  using assms
  by (auto simp: tryFinishSession_def Let_def send_to_node_def st_finishSession_def open_info_put open_info_set_status
      split: if_splits option.splits prod.splits)

lemma open_info_getUserSessions:
  "open_info (snd (getUserSessions u t)) owner n = open_info t owner n"
  by (auto simp: getUserSessions_def Let_def open_info_put split: option.splits) (auto simp: open_info_def)

lemma tryAuthUser_other:
  assumes "tryAuthUser pam_start pam_authenticate getpwnam junk ip user pwd m = (ok, m')" and "ip' \<noteq> ip"
  shows "getUser ip' m' = getUser ip' m"
  using assms by (auto simp: tryAuthUser_def Let_def split: if_splits option.splits)

text \<open>
  What handling a request may do to the sessions of an owner who is not logged in at its address,
  and to the users of other addresses: nothing.
\<close>

definition spares :: "string \<Rightarrow> string \<Rightarrow> string \<Rightarrow> string \<Rightarrow> 'c webState \<Rightarrow> 'c webState \<Rightarrow> bool" where
  "spares ip owner name ip' ws ws' \<longleftrightarrow>
     ((\<forall>u. getUser ip (ws_users ws) = Some u \<longrightarrow> getUserName u \<noteq> owner) \<longrightarrow>
        open_info (fe_tracker (ws_front ws')) owner name = open_info (fe_tracker (ws_front ws)) owner name) \<and>
     (ip' \<noteq> ip \<longrightarrow> getUser ip' (ws_users ws') = getUser ip' (ws_users ws))"

lemma spares_refl: "spares ip owner name ip' ws ws"
  by (simp add: spares_def)

lemma Default_spares:
  "DefaultActionHandler_handle files rq rs ws = Some (Inr (rs', ws')) \<Longrightarrow> spares (rq_clientAddress rq) owner name ip' ws ws'"
  by (auto simp: handler_defs Let_def spares_refl split: if_splits)

lemma LogIn_spares:
  "LogInActionHandler_handle acc junk files rq rs ws = Some (Inr (rs', ws')) \<Longrightarrow>
     spares (rq_clientAddress rq) owner name ip' ws ws'"
  using tryAuthUser_other [where ip = "rq_clientAddress rq" and ip' = ip' and m = "ws_users ws"]
  by (auto simp: handler_defs Let_def spares_def split: if_splits prod.splits)

lemma SessionList_spares:
  "SessionListActionHandler_handle files rq rs ws = Some (Inr (rs', ws')) \<Longrightarrow>
     spares (rq_clientAddress rq) owner name ip' ws ws'"
  by (auto simp: handler_defs Let_def spares_def XMLBuildSessionList_def split: if_splits prod.splits option.splits)
    (metis open_info_getUserSessions snd_conv)

lemma CreateSession_spares:
  "CreateSessionActionHandler_handle junk files rq rs ws = Some (Inr (rs', ws')) \<Longrightarrow>
     spares (rq_clientAddress rq) owner name ip' ws ws'"
  by (auto simp: handler_defs Let_def spares_def dest: open_info_create_other
      split: if_splits prod.splits option.splits SessionCreationResult.splits)

lemma DestroySession_spares:
  "DestroySessionActionHandler_handle files rq rs ws = Some (Inr (rs', ws')) \<Longrightarrow>
     spares (rq_clientAddress rq) owner name ip' ws ws'"
  by (auto simp: handler_defs Let_def spares_def dest: open_info_tryFinish_other
      split: if_splits prod.splits option.splits)

lemma handleAction_spares:
  "handleAction acc junk files a rq rs ws = Some (Inr (rs', ws')) \<Longrightarrow>
     spares (rq_clientAddress rq) owner name ip' ws ws'"
  by (cases a) (auto simp: handleAction_def
      intro: Default_spares LogIn_spares SessionList_spares CreateSession_spares DestroySession_spares)

lemma handleRequest_spares:
  assumes "handleRequest acc junk files web_handlers rq rs ws = Some (Inr (rs', ws'))"
  shows "spares (rq_clientAddress rq) owner name ip' ws ws'"
proof (cases rule: handleRequest_cases [where acc = acc and junk = junk and files = files and rq = rq and rs = rs and ws = ws])
  case unknown
  then show ?thesis using assms by (simp add: answer_def spares_refl)
next
  case (known a)
  then show ?thesis using handleAction_spares assms by metis
qed

section \<open>Properties\<close>

text \<open>
  Property C30. A request from an address that is not logged in changes nothing but by logging in:
  any action except \<open>authenticate\<close> leaves users, sessions and nodes as they are, answers a known
  action with the login page and any other with the status 404.
\<close>

theorem anonymous_requests_change_nothing:
  assumes "\<not> isUserLoggedIn (rq_clientAddress rq) (ws_users ws)"
    and "request_action (rq_uri rq) \<noteq> getAction LogIn_action"
  shows "\<exists>rs'. handleRequest acc junk files web_handlers rq rs ws = Some (Inr (rs', ws)) \<and>
    ((\<exists>a. request_action (rq_uri rq) = getAction a) \<longrightarrow>
       rs_status rs' = 200 \<and> rs_body rs' = Some (files ''FEClient/auth.html'')) \<and>
    ((\<forall>a. request_action (rq_uri rq) \<noteq> getAction a) \<longrightarrow> rs_status rs' = 404 \<and> rs_body rs' = rs_body rs)"
proof (cases rule: handleRequest_cases [where acc = acc and junk = junk and files = files and rq = rq and rs = rs and ws = ws])
  case unknown
  then show ?thesis by (simp add: answer_def setStatus_def HTTP_NOT_FOUND_def)
next
  case (known a)
  have "handleAction acc junk files a rq rs ws =
      answer (send_page files ''FEClient/auth.html'' (setStatus HTTP_OK rs)) ws"
    using assms known(1) by (cases a)
      (simp_all add: handleAction_def Let_def DefaultActionHandler_handle_def SessionListActionHandler_handle_def
        CreateSessionActionHandler_handle_def DestroySessionActionHandler_handle_def)
  then show ?thesis
    using known by (auto simp: answer_def send_page_def send_body_def setStatus_def HTTP_OK_def)
qed

definition example_request :: "string \<Rightarrow> (string, string) umap \<Rightarrow> httpRequest" where
  "example_request uri form = \<lparr>rq_uri = uri, rq_clientAddress = ''10.0.0.1'', rq_form = form\<rparr>"

definition empty_response :: httpResponse where
  "empty_response = \<lparr>rs_status = 200, rs_contentType = None, rs_body = None\<rparr>"

definition example_accounts :: accounts where
  "example_accounts = \<lparr>acc_pam_start = (\<lambda>s u. True), acc_pam_authenticate = (\<lambda>s u p. p = ''pw''),
     acc_getpwnam = (\<lambda>u. Some (1000, 100))\<rparr>"

definition example_web :: "user list \<Rightarrow> nat webState" where
  "example_web us = \<lparr>ws_users = \<lparr>loggedInUsers = map (\<lambda>u. (us_ipAddress u, u)) us\<rparr>, ws_front = example_created\<rparr>"

theorem anonymous_requests_change_nothing_witness:
  "\<exists>rs'. handleRequest example_accounts 0 (\<lambda>_. ''page'') web_handlers
     (example_request ''/CreateSession'' [(''session_name'', ''x'')]) empty_response (example_web []) =
       Some (Inr (rs', example_web [])) \<and> rs_body rs' = Some ''page''"
proof -
  let ?rq = "example_request ''/CreateSession'' [(''session_name'', ''x'')]"
  have a: "\<not> isUserLoggedIn (rq_clientAddress ?rq) (ws_users (example_web []))"
    by (simp add: example_web_def isUserLoggedIn_def)
  have r: "request_action (rq_uri ?rq) = getAction CreateSession_action"
    by (simp add: example_request_def request_action_def)
  then have n: "request_action (rq_uri ?rq) \<noteq> getAction LogIn_action" by simp
  show ?thesis
    using anonymous_requests_change_nothing [OF a n, of example_accounts 0 "\<lambda>_. ''page''" empty_response] r by blast
qed

text \<open>
  Property C31. Handling a request, whatever it asks, leaves the sessions of every owner who is not
  the user logged in at the address it comes from, and the users of every other address, as
  they were.
\<close>

theorem requests_touch_own_sessions_only:
  assumes "handleRequest acc junk files web_handlers rq rs ws = Some (Inr (rs', ws'))"
    and "\<And>u. getUser (rq_clientAddress rq) (ws_users ws) = Some u \<Longrightarrow> getUserName u \<noteq> owner"
  shows "open_info (fe_tracker (ws_front ws')) owner name = open_info (fe_tracker (ws_front ws)) owner name \<and>
    (\<forall>ip. ip \<noteq> rq_clientAddress rq \<longrightarrow> getUser ip (ws_users ws') = getUser ip (ws_users ws))"
  using handleRequest_spares [OF assms(1)] assms(2) unfolding spares_def by blast

theorem requests_touch_own_sessions_only_witness:
  "\<exists>rs' ws'. handleRequest example_accounts 0 (\<lambda>_. ''page'') web_handlers
     (example_request ''/DestroySession'' [(''id'', ''a'')]) empty_response (example_web [ann, bob]) = Some (Inr (rs', ws')) \<and>
     open_info (fe_tracker (ws_front ws')) ''bob'' ''b'' = open_info (fe_tracker example_created) ''bob'' ''b'' \<and>
     getUser ''10.0.0.2'' (ws_users ws') = Some bob"
proof -
  let ?rq = "example_request ''/DestroySession'' [(''id'', ''a'')]" and ?ws = "example_web [ann, bob]"
  have ips: "us_ipAddress ann = ''10.0.0.1''" "us_ipAddress bob = ''10.0.0.2''" "getUserName ann = ''ann''"
    by (simp_all add: ann_def bob_def user_defs)
  have u: "getUser ''10.0.0.1'' (ws_users ?ws) = Some ann" "getUser ''10.0.0.2'' (ws_users ?ws) = Some bob"
    using ips by (simp_all add: example_web_def getUser_def)
  have r: "request_action (rq_uri ?rq) = getAction DestroySession_action"
    by (simp add: example_request_def request_action_def)
  have "\<exists>rs' ws'. handleAction example_accounts 0 (\<lambda>_. ''page'') DestroySession_action ?rq empty_response ?ws =
      Some (Inr (rs', ws'))"
    using u(1) by (simp add: handleAction_def DestroySessionActionHandler_handle_def logged_in_getUser Let_def
        example_request_def answer_def split: prod.splits)
  then obtain rs' ws' where h: "handleRequest example_accounts 0 (\<lambda>_. ''page'') web_handlers ?rq empty_response ?ws =
      Some (Inr (rs', ws'))"
    using web_handlers_getAction [of "request_action (rq_uri ?rq)" DestroySession_action] r
    by (auto simp: handleRequest_def)
  have n: "getUserName w \<noteq> ''bob''" if "getUser (rq_clientAddress ?rq) (ws_users ?ws) = Some w" for w
    using that u(1) ips(3) by (simp add: example_request_def)
  from requests_touch_own_sessions_only [OF h n] h u(2) show ?thesis
    by (auto simp: example_request_def) (simp add: example_web_def)
qed

text \<open>
  A request to destroy a session is not answered: for a logged-in user the session
  asked for is handed to the tracker, and no body is sent, whether the session exists or not.
\<close>

theorem destroy_is_never_answered:
  assumes "request_action (rq_uri rq) = getAction DestroySession_action"
    and "getUser (rq_clientAddress rq) (ws_users ws) = Some u"
    and "tryFinishSession u (form_get ''id'' [] rq) (ws_front ws) = (u', front)"
  shows "\<exists>rs' ws'. handleRequest acc junk files web_handlers rq rs ws = Some (Inr (rs', ws')) \<and>
    rs_body rs' = rs_body rs \<and> rs_status rs' = 200 \<and> ws_front ws' = front \<and>
    getUser (rq_clientAddress rq) (ws_users ws') = Some u'"
  using web_handlers_getAction [of "request_action (rq_uri rq)" DestroySession_action] assms
  by (simp add: handleRequest_def handleAction_def DestroySessionActionHandler_handle_def logged_in_getUser Let_def
      answer_def setStatus_def HTTP_OK_def)

theorem destroy_is_never_answered_witness:
  "\<exists>rs' ws'. handleRequest example_accounts 0 (\<lambda>_. ''page'') web_handlers
     (example_request ''/DestroySession'' [(''id'', ''a'')]) empty_response (example_web [ann]) = Some (Inr (rs', ws')) \<and>
     rs_body rs' = None"
proof -
  let ?rq = "example_request ''/DestroySession'' [(''id'', ''a'')]" and ?ws = "example_web [ann]"
  have r: "request_action (rq_uri ?rq) = getAction DestroySession_action"
    by (simp add: example_request_def request_action_def)
  have u: "getUser (rq_clientAddress ?rq) (ws_users ?ws) = Some ann"
    by (simp add: example_web_def getUser_def example_request_def ann_def user_defs)
  from destroy_is_never_answered [OF r u surjective_pairing, of example_accounts 0 "\<lambda>_. ''page''" empty_response]
  show ?thesis by (auto simp: empty_response_def)
qed

text \<open>
  Session names go into the session list unescaped, so a name can forge an entry: the
  list of a user with one session of a crafted name is, to the letter, the list of a user with
  two sessions.
\<close>

definition forged_name :: "string \<times> streamingSessionInfo \<Rightarrow> string \<Rightarrow> string" where
  "forged_name s name =
     (case s of (n, i) \<Rightarrow> n @ ''</name><url>http://'' @ si_nodePublicAddress i @ '':'' @
        to_string_nat (unat (si_nodePort i)) @ ''/index.html</url><status>'' @
        to_string_nat (status_code (si_status i)) @ ''</status></session><session><name>'' @ name)"

lemma session_names_can_forge_entries:
  assumes "tracked (getUserName u) t = Some [(forged_name (n, i) name, j)]"
    and "tracked (getUserName u') t' = Some [(n, i), (name, j)]"
  shows "fst (XMLBuildSessionList u t) = fst (XMLBuildSessionList u' t')"
  using assms by (simp add: XMLBuildSessionList_def getUserSessions_def session_xml_def forged_name_def Let_def)

end
