(* ===== verification/Xinitrc.thy ===== *)
theory Xinitrc
  imports StreamingSession Config
begin

text \<open>
  The program a session's thread executes through \<open>sudo\<close>, \<open>ReMoLON_xinitrc_writter/src/main.cpp\<close>:
  it writes the user's \<open>.xinitrc\<close> and starts the X server. \<open>getpwnam\<close> is the password database
  as in \<open>StreamingSession\<close>; the file system and \<open>system\<close> are outside: the result is the path,
  the content and the command.
\<close>

record xinitrc_run =
  xr_path :: string
  xr_content :: string
  xr_command :: string

definition newline :: string where
  "newline = [CHR 0x0A]"

definition xinitrc_script ::
  "string \<Rightarrow> string \<Rightarrow> string \<Rightarrow> string \<Rightarrow> string \<Rightarrow> string \<Rightarrow> string \<Rightarrow> string" where
  "xinitrc_script remotooDir session user userIP webPort sockPort rtcPort =
     ''#!/usr/bin/env bash '' @ newline @
     ''export XSESSION_PID='' @ [CHR 0x22] @ ''$$'' @ [CHR 0x22] @ newline @
     ''gnome-terminal &'' @ newline @
     ''cd '' @ remotooDir @ newline @
     ''./remotoo '' @ session @ '' '' @ user @ '' '' @ userIP @ '' '' @ webPort @ '' '' @ sockPort @ '' '' @ rtcPort @
     '' $XSESSION_PID &'' @ newline @
     ''exec gnome-session'' @ newline"

text \<open>With too few arguments it prints its usage and ends with -1: \<open>None\<close>.\<close>

definition xinitrc_main :: "(string \<Rightarrow> string option) \<Rightarrow> string list \<Rightarrow> cpp_error + xinitrc_run option" where
  "xinitrc_main getpwnam argv =
     (if length argv < 8 then Inr None
      else (case getpwnam (argv ! 3) of
              None \<Rightarrow> Inl (UB Null_deref)
            | Some pw_dir \<Rightarrow>
                (if length (pw_dir @ ''/.xinitrc'') \<ge> 65535 then Inl (UB Out_of_bounds)
                 else Inr (Some
                   \<lparr>xr_path = pw_dir @ ''/.xinitrc'',
                    xr_content = xinitrc_script (argv ! 1) (argv ! 2) (argv ! 3) (argv ! 4) (argv ! 5) (argv ! 6) (argv ! 7),
                    xr_command = ''xinit -- :4''\<rparr>))))"

section \<open>Lemmas\<close>

lemma lines_of_last: "CHR 0x0A \<notin> set l \<Longrightarrow> lines_of (l @ CHR 0x0A # s) = l # lines_of s"
  by (induction l) auto

lemma line_after_newline:
  "CHR 0x0A \<notin> set l \<Longrightarrow> l \<in> set (tl (lines_of (pre @ CHR 0x0A # l @ CHR 0x0A # post)))"
  by (induction pre) (auto simp: lines_of_last split: list.split dest: list.set_sel(2) [rotated])

section \<open>Properties\<close>

text \<open>
  The command a session's thread executes is one the writer accepts: run as the
  session's owner, it writes the owner's \<open>.xinitrc\<close>, whose command line names the session, the
  owner, the owner's address and the three ports of the session, in the order \<open>remotoo\<close> is
  given them.
\<close>

theorem writer_accepts_session_command:
  assumes "streaming_command getpwnam xinitrcDir remotooBinDir s = Inr ec"
    and "getpwnam (c_str (ss_sessionOwner s)) = Some home" and "length home < 65526"
  shows "exec_path ec = ''/usr/bin/sudo'' \<and> take 3 (exec_argv ec) = [''sudo'', ''-u'', c_str (ss_sessionOwner s)] \<and>
    exec_env ec = [''HOME='' @ home] \<and>
    xinitrc_main getpwnam (drop 3 (exec_argv ec)) = Inr (Some
      \<lparr>xr_path = home @ ''/.xinitrc'',
       xr_content = xinitrc_script (c_str remotooBinDir) (c_str (ss_sessionName s)) (c_str (ss_sessionOwner s))
         (c_str (ss_sessionOwnerAddress s)) (to_string_nat (unat (ss_sessionPort s)))
         (to_string_nat (unat (ss_sessionSockPort s))) (to_string_nat (unat (ss_sessionRTCPort s))),
       xr_command = ''xinit -- :4''\<rparr>)"
  using assms by (auto simp: streaming_command_def xinitrc_main_def session_getters split: if_splits sum.splits)

definition example_session :: "nat streamingSession" where
  "example_session = setSessionPorts 8001 9001 10001 (setSessionOwnerAddress ''10.0.0.1''
     (setSessionOwner ''ann'' (setSessionName ''a'' (StreamingSession_new 0))))"

lemma example_session_command:
  "\<exists>ec. streaming_command (\<lambda>_. Some ''/home/ann'') ''/opt'' ''/opt/remotoo'' example_session = Inr ec"
  by (simp add: streaming_command_def xinitrc_binary_def session_getters)

theorem writer_accepts_session_command_witness:
  "\<exists>ec r. streaming_command (\<lambda>_. Some ''/home/ann'') ''/opt'' ''/opt/remotoo'' example_session = Inr ec \<and>
     xinitrc_main (\<lambda>_. Some ''/home/ann'') (drop 3 (exec_argv ec)) = Inr (Some r) \<and> xr_path r = ''/home/ann/.xinitrc''"
proof -
  obtain ec where ec: "streaming_command (\<lambda>_. Some ''/home/ann'') ''/opt'' ''/opt/remotoo'' example_session = Inr ec"
    using example_session_command by blast
  from writer_accepts_session_command [OF ec, of "''/home/ann''"] ec show ?thesis by auto
qed

text \<open>
  The session name is written into the script as it is: a name that contains a line
  between two newlines adds that line to the script the owner's X session runs.
\<close>

theorem session_name_adds_script_line:
  assumes "CHR 0x0A \<notin> set command"
  shows "command \<in> set (lines_of
    (xinitrc_script remotooDir (a @ newline @ command @ newline @ b) user userIP webPort sockPort rtcPort))"
proof -
  have "command \<in> set (tl (lines_of ((''#!/usr/bin/env bash '' @ newline @
     ''export XSESSION_PID='' @ [CHR 0x22] @ ''$$'' @ [CHR 0x22] @ newline @
     ''gnome-terminal &'' @ newline @ ''cd '' @ remotooDir @ newline @ ''./remotoo '' @ a) @ CHR 0x0A # command @ CHR 0x0A #
     (b @ '' '' @ user @ '' '' @ userIP @ '' '' @ webPort @ '' '' @ sockPort @ '' '' @ rtcPort @
     '' $XSESSION_PID &'' @ newline @ ''exec gnome-session'' @ newline))))"
    by (rule line_after_newline [OF assms])
  then have "command \<in> set (tl (lines_of
      (xinitrc_script remotooDir (a @ newline @ command @ newline @ b) user userIP webPort sockPort rtcPort)))"
    by (simp only: xinitrc_script_def newline_def append_assoc append_Cons append_Nil)
  then show ?thesis by (cases "lines_of (xinitrc_script remotooDir (a @ newline @ command @ newline @ b)
      user userIP webPort sockPort rtcPort)") auto
qed

theorem session_name_adds_script_line_witness:
  "''touch pwned'' \<in> set (lines_of
    (xinitrc_script ''/opt'' (''a'' @ newline @ ''touch pwned'' @ newline @ ''b'') ''ann'' ''10.0.0.1'' ''1'' ''2'' ''3''))"
  by (rule session_name_adds_script_line) simp

end
