(* ===== verification/BufferOps.thy ===== *)
theory BufferOps
  imports ByteBuffer
begin









section \<open>Lemmas\<close>


lemma bb_size_cursors [simp]: "bb_size (reset b) = bb_size b" "bb_size (rewind b) = bb_size b"
  "bb_size (setReadPos n b) = bb_size b" "bb_size (setWritePos n b) = bb_size b"
  by (simp_all add: reset_def rewind_def setReadPos_def setWritePos_def)

lemma not_ub_limits [simp]: "\<not> is_ub beyond_limit" "\<not> is_ub beyond_limit_sp"
  by (simp_all add: beyond_limit_def beyond_limit_sp_def)









section \<open>Properties\<close>





end
