(* ===== verification/Pam.thy ===== *)
theory Pam
  imports Users
begin

text \<open>
  The conversation with PAM: \<open>null_conv\<close> and the global \<open>reply\<close> of \<open>src/UserManager.cpp\<close>, and
  \<open>authenticate\<close> as the modules of PAM run it.

  \<open>Users\<close> takes what \<open>pam_authenticate\<close> answers for a password as given. What a module does is PAM's:
  \<open>prompts\<close> are the conversations it holds, each with the number of its messages, and \<open>judge\<close> is its
  verdict on the answers. By PAM's manual a module reads one response for every message and then
  frees the array and the responses, which the application allocated for this conversation.
\<close>

text \<open>The global pointer: null at first, a reply of one response, or memory a module has freed.\<close>

datatype reply = No_reply | Reply string | Freed_reply

text \<open>\<open>null_conv\<close> hands out the pointer, whatever the number and the kind of the messages.\<close>

definition null_conv :: "nat \<Rightarrow> reply \<Rightarrow> reply" where
  "null_conv num_msg reply = reply"

definition read_reply :: "nat \<Rightarrow> reply \<Rightarrow> cpp_error + string list" where
  "read_reply num_msg resp =
     (case resp of
        No_reply \<Rightarrow> Inl (UB Null_deref)
      | Freed_reply \<Rightarrow> Inl (UB Dangling_pointer)
      | Reply p \<Rightarrow> (if 1 < num_msg then Inl (UB Out_of_bounds) else Inr (replicate num_msg p)))"

fun converse :: "nat list \<Rightarrow> reply \<Rightarrow> cpp_error + string list \<times> reply" where
  "converse [] reply = Inr ([], reply)"
| "converse (num_msg # prompts) reply =
     (case read_reply num_msg (null_conv num_msg reply) of
        Inl e \<Rightarrow> Inl e
      | Inr answers \<Rightarrow> map_sum id (map_prod ((@) answers) id) (converse prompts Freed_reply))"

definition authenticate_conv ::
  "(string \<Rightarrow> string \<Rightarrow> bool) \<Rightarrow> (string \<Rightarrow> string \<Rightarrow> nat list) \<Rightarrow> (string \<Rightarrow> string \<Rightarrow> string list \<Rightarrow> bool) \<Rightarrow>
   string \<Rightarrow> string \<Rightarrow> string \<Rightarrow> reply \<Rightarrow> cpp_error + bool \<times> reply" where
  "authenticate_conv pam_start prompts judge service user pass reply =
     (if pam_start service user
      then (case converse (prompts service user) (Reply pass) of
              Inl e \<Rightarrow> Inl e
            | Inr (answers, reply') \<Rightarrow> Inr (judge service user answers, reply'))
      else Inr (False, reply))"

section \<open>Lemmas\<close>

lemma converse_freed: "converse ns Freed_reply = (if ns = [] then Inr ([], Freed_reply) else Inl (UB Dangling_pointer))"
  by (cases ns) (auto simp: null_conv_def read_reply_def)

lemma converse_reply:
  "converse ns (Reply p) =
     (if ns = [] then Inr ([], Reply p)
      else if 1 < hd ns then Inl (UB Out_of_bounds)
      else if tl ns = [] then Inr (replicate (hd ns) p, Freed_reply)
      else Inl (UB Dangling_pointer))"
  by (cases ns) (auto simp: null_conv_def read_reply_def converse_freed)

section \<open>Properties\<close>

text \<open>
  Authentication is defined for modules that hold at most one conversation of one message, and then
  gives the password as its answer and agrees with \<open>authenticate\<close>. A conversation of more messages
  reads beyond the reply, and a second conversation reads the reply the first has freed.
\<close>

theorem authenticate_answers_one_prompt:
  assumes "pam_start service user"
  shows "authenticate_conv pam_start prompts judge service user pass reply =
    (case prompts service user of
       [] \<Rightarrow> Inr (judge service user [], Reply pass)
     | n # ns \<Rightarrow>
         if 1 < n then Inl (UB Out_of_bounds)
         else if ns \<noteq> [] then Inl (UB Dangling_pointer)
         else Inr (authenticate pam_start (\<lambda>s u p. judge s u (replicate n p)) service user pass, Freed_reply))"
  using assms by (simp add: authenticate_conv_def authenticate_def converse_reply split: list.splits)

text \<open>A module that asks for the password once, and one that asks for it and then for a code.\<close>

theorem authenticate_answers_one_prompt_witness:
  "authenticate_conv (\<lambda>s u. True) (\<lambda>s u. [1]) (\<lambda>s u as. as = [''pw'']) ''system-auth'' ''ann'' ''pw'' No_reply = Inr (True, Freed_reply) \<and>
   authenticate_conv (\<lambda>s u. True) (\<lambda>s u. [1, 1]) (\<lambda>s u as. True) ''system-auth'' ''ann'' ''pw'' No_reply = Inl (UB Dangling_pointer)"
  by (simp add: authenticate_answers_one_prompt [where pam_start = "\<lambda>s u. True"] authenticate_def)

end
