(* ===== verification/Opening.thy ===== *)
theory Opening
  imports Client Daemons
begin

text \<open>
  How connections come to be and how objects end: the constructors of \<open>RawConnection\<close> and
  \<open>SecureConnection\<close> (\<open>src/Connection.cpp\<close>), the connecting and closing of \<open>RawClient\<close> and
  \<open>SecureClient\<close> (\<open>src/Client.cpp\<close>), and the start, the accepting and the end of \<open>RawServer\<close> and
  \<open>SecureServer\<close> (\<open>src/Server.cpp\<close>), with every call that may throw.

  The socket and TLS classes are Poco's: the record \<open>net_ops\<close> holds what the code calls of them,
  each a program on the state \<open>'n\<close> of the network that may throw. Nothing is assumed of them but
  what a theorem states. A descriptor stands for the socket object; an exception in a constructor
  releases the socket that was already made, which is Poco's too.

  \<open>Client\<close> and \<open>Server\<close> take the opened connection and the accepted sockets as given; the lemmas
  here say that what they take as given is what these functions produce.
\<close>

section \<open>What is used of Poco\<close>

datatype tls_usage = CLIENT_USE | SERVER_USE

datatype tls_verification = VERIFY_NONE | VERIFY_STRICT

text \<open>The arguments of \<open>Poco::Net::Context\<close>.\<close>

record context_args =
  ca_usage :: tls_usage
  ca_privateKeyFile :: string
  ca_certificateFile :: string
  ca_caLocation :: string
  ca_verificationMode :: tls_verification
  ca_verificationDepth :: int
  ca_loadDefaultCAs :: bool
  ca_cipherList :: string

record ('n, 'sa, 'ctx) net_ops =
  no_SocketAddress :: "string \<Rightarrow> 16 word \<Rightarrow> ('n, 'sa) sx"
  no_StreamSocket :: "'sa \<Rightarrow> ('n, int) sx"
  no_SecureStreamSocket :: "'sa \<Rightarrow> 'ctx \<Rightarrow> ('n, int) sx"
  no_ServerSocket :: "'sa \<Rightarrow> ('n, int) sx"
  no_SecureServerSocket :: "'sa \<Rightarrow> int \<Rightarrow> 'ctx \<Rightarrow> ('n, int) sx"
  no_asStreamSocket :: "int \<Rightarrow> ('n, int) sx"
  no_asSecureStreamSocket :: "int \<Rightarrow> ('n, int) sx"
  no_setReceiveTimeout :: "int \<Rightarrow> int \<Rightarrow> ('n, unit) sx"
  no_setPeerHostName :: "int \<Rightarrow> string \<Rightarrow> ('n, unit) sx"
  no_completeHandshake :: "int \<Rightarrow> ('n, unit) sx"
  no_Context :: "context_args \<Rightarrow> ('n, 'ctx) sx"
  no_enableSessionCache :: "'ctx \<Rightarrow> ('n, unit) sx"
  no_initializeClient :: "'ctx \<Rightarrow> ('n, unit) sx"
  no_initializeSSL :: "('n, unit) sx"
  no_uninitializeSSL :: "('n, unit) sx"
  no_shutdown :: "int \<Rightarrow> ('n, unit) sx"

definition cipher_list :: string where
  "cipher_list = ''ALL:!ADH:!LOW:!EXP:!MD5:@STRENGTH''"

text \<open>The receive timeout of an accepted connection, in microseconds.\<close>

definition receive_timeout :: int where
  "receive_timeout = 10000"

section \<open>Connections\<close>

definition RawConnection_connect ::
  "('n, 'sa, 'ctx) net_ops \<Rightarrow> string \<Rightarrow> 16 word \<Rightarrow> ('n, 'p connection) sx" where
  "RawConnection_connect no address port =
     sx_bind (no_SocketAddress no address port) (\<lambda>sa.
     sx_bind (no_StreamSocket no sa) (\<lambda>fd.
     sx_return (Connection_new fd)))"

definition RawConnection_accepted :: "('n, 'sa, 'ctx) net_ops \<Rightarrow> int \<Rightarrow> ('n, 'p connection) sx" where
  "RawConnection_accepted no socket =
     sx_bind (no_asStreamSocket no socket) (\<lambda>fd.
     sx_seq (no_setReceiveTimeout no fd receive_timeout)
     (sx_return (Connection_new fd)))"

definition client_context :: "string \<Rightarrow> string \<Rightarrow> string \<Rightarrow> context_args" where
  "client_context keyFile certFile caFile =
     \<lparr>ca_usage = CLIENT_USE, ca_privateKeyFile = keyFile, ca_certificateFile = certFile, ca_caLocation = caFile,
      ca_verificationMode = VERIFY_NONE, ca_verificationDepth = 9, ca_loadDefaultCAs = False,
      ca_cipherList = cipher_list\<rparr>"

definition SecureConnection_connect ::
  "('n, 'sa, 'ctx) net_ops \<Rightarrow> string \<Rightarrow> 16 word \<Rightarrow> string \<Rightarrow> string \<Rightarrow> string \<Rightarrow> ('n, 'p connection) sx" where
  "SecureConnection_connect no address port keyFile certFile caFile =
     sx_bind (no_Context no (client_context keyFile certFile caFile)) (\<lambda>context.
     sx_seq (no_enableSessionCache no context)
     (sx_seq (no_initializeClient no context)
     (sx_bind (no_SocketAddress no address port) (\<lambda>sa.
     sx_bind (no_SecureStreamSocket no sa context) (\<lambda>fd.
     sx_seq (no_setPeerHostName no fd address)
     (sx_seq (no_completeHandshake no fd)
     (sx_return (Connection_new fd))))))))"

definition SecureConnection_accepted :: "('n, 'sa, 'ctx) net_ops \<Rightarrow> int \<Rightarrow> ('n, 'p connection) sx" where
  "SecureConnection_accepted no socket =
     sx_bind (no_asSecureStreamSocket no socket) (\<lambda>fd.
     sx_seq (no_setReceiveTimeout no fd receive_timeout)
     (sx_seq (no_completeHandshake no fd)
     (sx_return (Connection_new fd))))"

section \<open>The client\<close>

text \<open>The class of an object, with its own members, decides what the virtual functions do.\<close>

datatype endpoint = Raw | Secure string string string

definition RawClient_new ::
  "(nat \<Rightarrow> byte) \<Rightarrow> string \<Rightarrow> 16 word \<Rightarrow> 'w \<Rightarrow> ('w, 'q, 'p) client \<times> endpoint" where
  "RawClient_new fresh address port w = (Client_new fresh address port w, Raw)"

definition SecureClient_new ::
  "(nat \<Rightarrow> byte) \<Rightarrow> string \<Rightarrow> 16 word \<Rightarrow> string \<Rightarrow> string \<Rightarrow> string \<Rightarrow> 'w \<Rightarrow> ('w, 'q, 'p) client \<times> endpoint" where
  "SecureClient_new fresh address port keyFile certFile caFile w =
     (Client_new fresh address port w, Secure keyFile certFile caFile)"

definition on_network :: "('n, 'a) sx \<Rightarrow> ('s \<times> 'n, 'a) sx" where
  "on_network f st = (case st of (s, n) \<Rightarrow> (case f n of (r, n') \<Rightarrow> (r, (s, n'))))"

definition on_object :: "('s, 'a) sx \<Rightarrow> ('s \<times> 'n, 'a) sx" where
  "on_object f st = (case st of (s, n) \<Rightarrow> (case f s of (r, s') \<Rightarrow> (r, (s', n))))"

definition set_connection :: "'p connection \<Rightarrow> (('w, 'q, 'p) client \<times> 'n, unit) sx" where
  "set_connection con = on_object (sx_modify (\<lambda>cl. cl\<lparr>cl_connection := Some con\<rparr>))"

definition RawClient_initializeConnection ::
  "('n, 'sa, 'ctx) net_ops \<Rightarrow> (('w, 'q, 'p) client \<times> 'n, unit) sx" where
  "RawClient_initializeConnection no st =
     (case st of (cl, n) \<Rightarrow>
        sx_bind (on_network (RawConnection_connect no (cl_connectAddress cl) (cl_connectPort cl))) set_connection st)"

definition SecureClient_initializeConnection ::
  "('n, 'sa, 'ctx) net_ops \<Rightarrow> string \<Rightarrow> string \<Rightarrow> string \<Rightarrow> (('w, 'q, 'p) client \<times> 'n, unit) sx" where
  "SecureClient_initializeConnection no keyFile certFile caFile st =
     (case st of (cl, n) \<Rightarrow>
        sx_bind (on_network (SecureConnection_connect no (cl_connectAddress cl) (cl_connectPort cl) keyFile certFile caFile))
          set_connection st)"

definition initializeConnection ::
  "('n, 'sa, 'ctx) net_ops \<Rightarrow> endpoint \<Rightarrow> (('w, 'q, 'p) client \<times> 'n, unit) sx" where
  "initializeConnection no kind =
     (case kind of
        Raw \<Rightarrow> RawClient_initializeConnection no
      | Secure keyFile certFile caFile \<Rightarrow> SecureClient_initializeConnection no keyFile certFile caFile)"

text \<open>\<open>connect\<close>: the flag is set first. The three threads start where it returns.\<close>

definition client_connect ::
  "('n, 'sa, 'ctx) net_ops \<Rightarrow> endpoint \<Rightarrow> (('w, 'q, 'p) client \<times> 'n, unit) sx" where
  "client_connect no kind =
     sx_seq (sx_modify (\<lambda>(cl, n). (cl\<lparr>cl_active := True\<rparr>, n))) (initializeConnection no kind)"

text \<open>Only \<open>SecureClient\<close> overrides \<open>onConnectionClose\<close>.\<close>

definition onConnectionClose :: "('n, 'sa, 'ctx) net_ops \<Rightarrow> endpoint \<Rightarrow> ('s \<times> 'n, unit) sx" where
  "onConnectionClose no kind =
     (case kind of Raw \<Rightarrow> sx_return () | Secure _ _ _ \<Rightarrow> on_network (no_uninitializeSSL no))"

definition close_client ::
  "('n, 'sa, 'ctx) net_ops \<Rightarrow> endpoint \<Rightarrow> (('w, 'q, 'p) client \<times> 'n, unit) sx" where
  "close_client no kind = sx_seq (on_object client_close) (onConnectionClose no kind)"

text \<open>
  \<open>~Client\<close> calls \<open>close\<close>, when the object is a \<open>Client\<close> only: what is called is
  \<open>Client::onConnectionClose\<close>, which does nothing.
\<close>

definition destroy_client ::
  "('n, 'sa, 'ctx) net_ops \<Rightarrow> (('w, 'q, 'p) client \<times> 'n, unit) sx" where
  "destroy_client no = close_client no Raw"

section \<open>The server\<close>

text \<open>A server with its socket, which is null until \<open>initializeSocket\<close> has made it.\<close>

record ('w, 'q, 'p, 'ps) listening =
  li_server :: "('w, 'q, 'p, 'ps) server"
  li_serverSocket :: "int option"

definition new_listening :: "bool \<Rightarrow> string \<Rightarrow> 16 word \<Rightarrow> ('w, 'q, 'p, 'ps) listening" where
  "new_listening junk address port = \<lparr>li_server = Server_new junk address port, li_serverSocket = None\<rparr>"

definition RawServer_new :: "bool \<Rightarrow> string \<Rightarrow> 16 word \<Rightarrow> ('w, 'q, 'p, 'ps) listening \<times> endpoint" where
  "RawServer_new junk address port = (new_listening junk address port, Raw)"

definition SecureServer_new ::
  "bool \<Rightarrow> string \<Rightarrow> 16 word \<Rightarrow> string \<Rightarrow> string \<Rightarrow> string \<Rightarrow> ('w, 'q, 'p, 'ps) listening \<times> endpoint" where
  "SecureServer_new junk address port keyFile certFile caFile =
     (new_listening junk address port, Secure keyFile certFile caFile)"

definition RawServer_createNewConnection :: "('n, 'sa, 'ctx) net_ops \<Rightarrow> int \<Rightarrow> ('n, 'p connection) sx" where
  "RawServer_createNewConnection no socket = RawConnection_accepted no socket"

definition SecureServer_createNewConnection :: "('n, 'sa, 'ctx) net_ops \<Rightarrow> int \<Rightarrow> ('n, 'p connection) sx" where
  "SecureServer_createNewConnection no socket = SecureConnection_accepted no socket"

definition createNewConnection :: "('n, 'sa, 'ctx) net_ops \<Rightarrow> endpoint \<Rightarrow> int \<Rightarrow> ('n, 'p connection) sx" where
  "createNewConnection no kind socket =
     (case kind of Raw \<Rightarrow> RawServer_createNewConnection no socket
      | Secure _ _ _ \<Rightarrow> SecureServer_createNewConnection no socket)"

definition server_context :: "string \<Rightarrow> string \<Rightarrow> string \<Rightarrow> context_args" where
  "server_context keyFilePath certFilePath caFilePath =
     \<lparr>ca_usage = SERVER_USE, ca_privateKeyFile = keyFilePath, ca_certificateFile = certFilePath, ca_caLocation = caFilePath,
      ca_verificationMode = VERIFY_STRICT, ca_verificationDepth = 9, ca_loadDefaultCAs = False,
      ca_cipherList = cipher_list\<rparr>"

definition RawServer_socket :: "('n, 'sa, 'ctx) net_ops \<Rightarrow> string \<Rightarrow> 16 word \<Rightarrow> ('n, int) sx" where
  "RawServer_socket no address port = sx_bind (no_SocketAddress no address port) (no_ServerSocket no)"

definition SecureServer_socket ::
  "('n, 'sa, 'ctx) net_ops \<Rightarrow> string \<Rightarrow> string \<Rightarrow> string \<Rightarrow> string \<Rightarrow> 16 word \<Rightarrow> ('n, int) sx" where
  "SecureServer_socket no keyFilePath certFilePath caFilePath address port =
     sx_seq (no_initializeSSL no)
     (sx_bind (no_Context no (server_context keyFilePath certFilePath caFilePath)) (\<lambda>context.
     sx_seq (no_enableSessionCache no context)
     (sx_bind (no_SocketAddress no address port) (\<lambda>sa.
     no_SecureServerSocket no sa 64 context))))"

definition initializeSocket ::
  "('n, 'sa, 'ctx) net_ops \<Rightarrow> endpoint \<Rightarrow> (('w, 'q, 'p, 'ps) listening \<times> 'n, unit) sx" where
  "initializeSocket no kind st =
     (case st of (li, n) \<Rightarrow>
        (let address = sv_bindIPAddress (li_server li); port = sv_bindPort (li_server li) in
         case (case kind of
                 Raw \<Rightarrow> RawServer_socket no address port
               | Secure keyFilePath certFilePath caFilePath \<Rightarrow>
                   SecureServer_socket no keyFilePath certFilePath caFilePath address port) n of
           (Inl e, n') \<Rightarrow> (Inl e, (li, n'))
         | (Inr fd, n') \<Rightarrow> (Inr (), (li\<lparr>li_serverSocket := Some fd\<rparr>, n'))))"

text \<open>\<open>start\<close>, up to the accepting: the flag, the socket, a selector thread.\<close>

definition start_server ::
  "('n, 'sa, 'ctx) net_ops \<Rightarrow> endpoint \<Rightarrow> (nat \<Rightarrow> byte) \<Rightarrow> 'ps \<Rightarrow> 'q threadPool \<Rightarrow> 'w \<Rightarrow>
   (('w, 'q, 'p, 'ps) listening \<times> 'n, unit) sx" where
  "start_server no kind fresh ps tp w =
     sx_seq (sx_modify (\<lambda>(li, n). (li\<lparr>li_server := (li_server li)\<lparr>sv_active := True\<rparr>\<rparr>, n)))
     (sx_seq (initializeSocket no kind)
     (sx_modify (\<lambda>(li, n). (li\<lparr>li_server := server_start fresh ps tp w (li_server li)\<rparr>, n))))"

text \<open>
  \<open>acceptLoop\<close> on what \<open>acceptConnection\<close> gives: every exception, of accepting, of making the
  connection or of assigning it, is reported and the loop goes on.
\<close>

fun accept_connections ::
  "('n, 'sa, 'ctx) net_ops \<Rightarrow> endpoint \<Rightarrow> 'ps poll_ops \<Rightarrow> accept list \<Rightarrow> (('w, 'q, 'p, 'ps) server \<times> 'n, unit) sx" where
  "accept_connections no kind po [] st = (Inr (), st)"
| "accept_connections no kind po (a # as) (sv, n) =
     (if \<not> sv_active sv then (Inr (), (sv, n))
      else (case a of
              Accept_failed \<Rightarrow> accept_connections no kind po as (sv, n)
            | Accepted_socket socket \<Rightarrow>
                (case createNewConnection no kind socket n of
                   (Inl e, n') \<Rightarrow> (if is_ub e then (Inl e, (sv, n')) else accept_connections no kind po as (sv, n'))
                 | (Inr con, n') \<Rightarrow>
                     (case assignConnectionToWorker po con sv of
                        (Inl e, sv1) \<Rightarrow> (if is_ub e then (Inl e, (sv1, n')) else accept_connections no kind po as (sv1, n'))
                      | (Inr _, sv1) \<Rightarrow> accept_connections no kind po as (sv1, n')))))"

text \<open>
  \<open>shutDown\<close>, which the destructor calls as well: what the exceptions of \<open>std\<close> cut short is left
  out silently; a null server socket is no exception.
\<close>

definition stop_server :: "('n, 'sa, 'ctx) net_ops \<Rightarrow> (('w, 'q, 'p, 'ps) listening \<times> 'n, unit) sx" where
  "stop_server no st =
     (case st of (li, n) \<Rightarrow>
        if \<not> sv_active (li_server li) then (Inr (), (li, n))
        else
          (let li1 = li\<lparr>li_server := server_shutDown (li_server li)\<rparr> in
           case no_uninitializeSSL no n of
             (Inl e, n1) \<Rightarrow> (if is_ub e then (Inl e, (li1, n1)) else (Inr (), (li1, n1)))
           | (Inr _, n1) \<Rightarrow>
               (case li_serverSocket li1 of
                  None \<Rightarrow> (Inl (UB Null_deref), (li1, n1))
                | Some fd \<Rightarrow>
                    (case no_shutdown no fd n1 of
                       (Inl e, n2) \<Rightarrow> (if is_ub e then (Inl e, (li1, n2)) else (Inr (), (li1, n2)))
                     | (Inr _, n2) \<Rightarrow> (Inr (), (li1, n2))))))"

section \<open>Lemmas\<close>

lemmas connecting_defs = RawClient_initializeConnection_def SecureClient_initializeConnection_def on_network_def set_connection_def
  on_object_def sx_modify_def sx_bind_def

lemmas opening_defs = RawConnection_connect_def RawConnection_accepted_def SecureConnection_connect_def
  SecureConnection_accepted_def RawServer_createNewConnection_def SecureServer_createNewConnection_def sx_bind_def sx_seq_def sx_return_def sx_modify_def

text \<open>What the constructors make, if they return, is a connection that is open, empty and unpolled.\<close>

lemma opened_connection:
  "RawConnection_connect no address port n = (Inr con, n') \<Longrightarrow> \<exists>fd. con = Connection_new fd"
  "SecureConnection_connect no address port keyFile certFile caFile n = (Inr con, n') \<Longrightarrow> \<exists>fd. con = Connection_new fd"
  "createNewConnection no kind socket n = (Inr con, n') \<Longrightarrow> \<exists>fd. con = Connection_new fd"
  by (auto simp: opening_defs createNewConnection_def split: prod.splits sum.splits endpoint.splits)

text \<open>What each accept call amounts to once the connection has been made or has failed.\<close>

fun accept_outcomes :: "(int \<Rightarrow> ('n, 'p connection) sx) \<Rightarrow> accept list \<Rightarrow> 'n \<Rightarrow> accept list" where
  "accept_outcomes opener [] n = []"
| "accept_outcomes opener (Accept_failed # as) n = Accept_failed # accept_outcomes opener as n"
| "accept_outcomes opener (Accepted_socket socket # as) n =
     (case opener socket n of
        (Inl e, n') \<Rightarrow> Accept_failed # accept_outcomes opener as n'
      | (Inr con, n') \<Rightarrow> Accepted_socket (getSockFD con) # accept_outcomes opener as n')"

lemma getSockFD_new [simp]: "getSockFD (Connection_new fd) = fd"
  by (simp add: getSockFD_def Connection_new_def)

section \<open>Properties\<close>

text \<open>
  Connecting either opens the connection or fails with the exception of a call it made: on
  success the client is the one \<open>connect\<close> describes, with a fresh connection; on failure nothing of
  the client has changed but the flag, which says that it is active.
\<close>

theorem client_connect_outcome:
  fixes cl :: "('w, 'q, 'p) client"
  shows "case client_connect no kind (cl, n) of
     (Inr _, (cl', _)) \<Rightarrow> \<exists>fd. cl' = connect (Connection_new fd) cl
   | (Inl e, (cl', _)) \<Rightarrow> cl' = cl\<lparr>cl_active := True\<rparr>"
proof -
  let ?cl = "cl\<lparr>cl_active := True\<rparr>"
  obtain r :: "cpp_error + 'p connection" and n' where o: "(case kind of
      Raw \<Rightarrow> RawConnection_connect no (cl_connectAddress cl) (cl_connectPort cl)
    | Secure k c a \<Rightarrow> SecureConnection_connect no (cl_connectAddress cl) (cl_connectPort cl) k c a) n = (r, n')"
    by fastforce
  then have i: "initializeConnection no kind (?cl, n) =
      (case r of Inl e \<Rightarrow> (Inl e, (?cl, n')) | Inr con \<Rightarrow> (Inr (), (?cl\<lparr>cl_connection := Some con\<rparr>, n')))"
    by (cases kind; cases r) (simp_all add: initializeConnection_def connecting_defs)
  show ?thesis
  proof (cases r)
    case (Inl e)
    then show ?thesis by (simp add: client_connect_def i sx_seq_def sx_bind_def sx_modify_def)
  next
    case (Inr con)
    then have "\<exists>fd. con = Connection_new fd"
      using o by (cases kind) (auto dest: opened_connection)
    then show ?thesis using Inr by (auto simp: client_connect_def i sx_seq_def sx_bind_def sx_modify_def connect_def)
  qed
qed

text \<open>
  A client that failed to connect cannot be used or destroyed: the connection is a null pointer, which
  \<open>sendPacket\<close>, \<open>close\<close> and the destructor dereference. The same holds of one that never tried.
\<close>

theorem unconnected_client_is_unusable:
  fixes cl :: "('w, 'q, 'p) client"
  assumes "(new, kind) \<in> {RawClient_new fresh address port w, SecureClient_new fresh address port keyFile certFile caFile w}"
    and "cl = new \<or> client_connect no kind (new, n) = (Inl e, (cl, n'))"
  shows "fst (client_sendPacket p cl) = Inl (UB Null_deref) \<and>
    fst (close_client no kind (cl, n'')) = Inl (UB Null_deref) \<and>
    fst (destroy_client no (cl, n'')) = Inl (UB Null_deref)"
proof -
  have new: "cl_connection new = None"
    using assms(1) by (auto simp: RawClient_new_def SecureClient_new_def Client_new_def)
  have "cl_connection cl = None"
    using assms(2)
  proof
    assume h: "client_connect no kind (new, n) = (Inl e, (cl, n'))"
    have "cl = new\<lparr>cl_active := True\<rparr>"
      using client_connect_outcome [where no = no and kind = kind and cl = new and n = n] unfolding h by simp
    then show ?thesis using new by simp
  qed (simp add: new)
  then show ?thesis
    by (simp add: client_sendPacket_def on_client_connection_def close_client_def destroy_client_def client_close_def on_object_def
        sx_seq_def sx_bind_def)
qed

text \<open>
  Property C29. Accepting connections, with the making of each and its handshake, is the loop \<open>acceptLoop\<close> on what
  these made of the sockets: a connection that could not be made counts as an accept call that
  failed, and concerns no other. No call of Poco is assumed to be undefined.
\<close>

theorem accept_connections_refines_acceptLoop:
  fixes no :: "('n, 'sa, 'ctx) net_ops" and sv :: "('w, 'q, 'p, 'ps) server"
  assumes "\<forall>socket n k. fst ((createNewConnection no kind :: int \<Rightarrow> ('n, 'p connection) sx) socket n) \<noteq> Inl (UB k)"
  shows "(case accept_connections no kind po as (sv, n) of (r, (sv', _)) \<Rightarrow> (r, sv')) = 
    acceptLoop po (accept_outcomes (createNewConnection no kind :: int \<Rightarrow> ('n, 'p connection) sx) as n) sv"
  using assms
proof (induction as arbitrary: sv n)
  case Nil
  then show ?case by simp
next
  case (Cons a as)
  show ?case
  proof (cases a)
    case Accept_failed
    then show ?thesis using Cons by simp
  next
    case (Accepted_socket socket)
    obtain r n' where m: "(createNewConnection no kind :: int \<Rightarrow> ('n, 'p connection) sx) socket n = (r, n')"
      by (cases "(createNewConnection no kind :: int \<Rightarrow> ('n, 'p connection) sx) socket n")
    show ?thesis
    proof (cases r)
      case (Inl e)
      then have "\<not> is_ub e" using spec [OF spec [OF Cons.prems, of socket], of n] m by (cases e) auto
      then show ?thesis using Cons Accepted_socket m Inl by simp
    next
      case (Inr con)
      from opened_connection(3) [OF m [unfolded Inr]] obtain fd where "con = Connection_new fd" by blast
      then show ?thesis using Cons.prems Accepted_socket m Inr
        by (auto simp: Cons.IH [OF Cons.prems, symmetric] split: prod.splits sum.splits)
    qed
  qed
qed

lemmas new_server_defs = new_listening_def RawServer_new_def SecureServer_new_def

text \<open>
  Starting a server either makes its socket and one selector thread, as \<open>server_start\<close> describes, or
  fails with the exception of a call it made; then only the flag has changed.
\<close>

lemma start_server_outcome:
  "start_server no kind fresh ps tp w (li, n) = (Inr u, (li', n')) \<Longrightarrow>
     li_server li' = server_start fresh ps tp w ((li_server li)\<lparr>sv_active := True\<rparr>) \<and> li_serverSocket li' \<noteq> None"
  "start_server no kind fresh ps tp w (li, n) = (Inl e, (li', n')) \<Longrightarrow>
     li' = li\<lparr>li_server := (li_server li)\<lparr>sv_active := True\<rparr>\<rparr>"
  by (auto simp: start_server_def initializeSocket_def sx_seq_def sx_bind_def sx_modify_def Let_def split: prod.splits sum.splits)

text \<open>
  A start that fails leaves the flag saying that the server runs, so ending the server, as its
  destructor does, dereferences the null server socket, once the TLS library is unloaded.
\<close>

theorem failed_start_breaks_end:
  assumes "(new, kind) \<in> {RawServer_new junk address port, SecureServer_new junk address port keyFile certFile caFile}"
    and "start_server no kind fresh ps tp w (new, n) = (Inl e, (li, n1))"
    and "fst (no_uninitializeSSL no n1) = Inr ()"
  shows "sv_active (li_server li) \<and> fst (stop_server no (li, n1)) = Inl (UB Null_deref)"
proof -
  have "li = (new_listening junk address port)\<lparr>li_server := (Server_new junk address port)\<lparr>sv_active := True\<rparr>\<rparr>"
    using start_server_outcome(2) [OF assms(2)] assms(1) by (auto simp: new_server_defs)
  then show ?thesis using assms(3)
    by (auto simp: stop_server_def new_listening_def Let_def split: prod.splits)
qed

text \<open>
  A server that has started ends without error if the calls of Poco do not fail: the flag is
  cleared, its selector threads are told to end and the pool is empty.
\<close>

theorem started_server_ends:
  assumes "(new, kind) \<in> {RawServer_new junk address port, SecureServer_new junk address port keyFile certFile caFile}"
    and "start_server no kind fresh ps tp w (new, n) = (Inr (), (li, n1))"
    and "\<forall>n. fst (no_uninitializeSSL no n) = Inr ()" and "\<forall>fd n. fst (no_shutdown no fd n) = Inr ()"
  shows "\<exists>li' n'. stop_server no (li, n1) = (Inr (), (li', n')) \<and> \<not> sv_active (li_server li') \<and>
    (\<forall>se\<in>set (sv_selectorWorkers (li_server li')). \<not> se_active se \<and> tp_tasks (se_threadPool se) = [])"
proof -
  have s: "li_server li = server_start fresh ps tp w ((Server_new junk address port)\<lparr>sv_active := True\<rparr>)" "li_serverSocket li \<noteq> None"
    using start_server_outcome(1) [OF assms(2)] assms(1)
    by (auto simp: new_server_defs)
  obtain n2 where n2: "no_uninitializeSSL no n1 = (Inr (), n2)"
    using assms(3) by (metis eq_fst_iff)
  obtain fd n3 where n3: "li_serverSocket li = Some fd" "no_shutdown no fd n2 = (Inr (), n3)"
    using s(2) assms(4) by (metis eq_fst_iff option.exhaust)
  show ?thesis
    using s(1) n2 n3 by (auto simp: stop_server_def Let_def server_start_def server_shutDown_def selector_shutDown_def tp_shutDown_def)
qed

section \<open>An example\<close>

text \<open>A network that numbers its sockets; the first argument says which addresses it finds.\<close>

definition example_net :: "(string \<Rightarrow> bool) \<Rightarrow> (int, string \<times> 16 word, unit) net_ops" where
  "example_net known =
     \<lparr>no_SocketAddress = (\<lambda>address port n. (if known address then Inr (address, port) else Inl Net_exception, n)),
      no_StreamSocket = (\<lambda>sa n. (Inr n, n + 1)), no_SecureStreamSocket = (\<lambda>sa ctx n. (Inr n, n + 1)),
      no_ServerSocket = (\<lambda>sa n. (Inr n, n + 1)), no_SecureServerSocket = (\<lambda>sa backlog ctx n. (Inr n, n + 1)),
      no_asStreamSocket = (\<lambda>fd n. (Inr fd, n)), no_asSecureStreamSocket = (\<lambda>fd n. (Inr fd, n)),
      no_setReceiveTimeout = (\<lambda>fd us n. (Inr (), n)), no_setPeerHostName = (\<lambda>fd h n. (Inr (), n)),
      no_completeHandshake = (\<lambda>fd n. (if fd mod 2 = 0 then Inr () else Inl Net_exception, n)),
      no_Context = (\<lambda>args n. (Inr (), n)), no_enableSessionCache = (\<lambda>ctx n. (Inr (), n)),
      no_initializeClient = (\<lambda>ctx n. (Inr (), n)), no_initializeSSL = (\<lambda>n. (Inr (), n)),
      no_uninitializeSSL = (\<lambda>n. (Inr (), n)), no_shutdown = (\<lambda>fd n. (Inr (), n))\<rparr>"

lemmas net_eval = example_net_def opening_defs connecting_defs client_connect_def initializeConnection_def start_server_def initializeSocket_def
  RawServer_socket_def SecureServer_socket_def createNewConnection_def

theorem unconnected_client_is_unusable_witness:
  "fst (destroy_client (example_net (\<lambda>_. False)) (snd (client_connect (example_net (\<lambda>_. False)) Raw
     (fst (RawClient_new (\<lambda>_. 0) ''front'' 9000 () :: (unit, unit, unit) client \<times> endpoint), 3)))) = Inl (UB Null_deref)"
proof -
  let ?no = "example_net (\<lambda>_. False)" and ?cl = "Client_new (\<lambda>_. 0) ''front'' 9000 () :: (unit, unit, unit) client"
  have new: "(?cl, Raw) \<in> {RawClient_new (\<lambda>_. 0) ''front'' 9000 (), SecureClient_new (\<lambda>_. 0) ''front'' 9000 [] [] [] ()}"
    by (simp add: RawClient_new_def)
  have c: "client_connect ?no Raw (?cl, 3) = (Inl Net_exception, (?cl\<lparr>cl_active := True\<rparr>, 3))"
    by (simp add: net_eval)
  from unconnected_client_is_unusable [OF new disjI2 [OF c], of undefined 3] c show ?thesis by (simp add: RawClient_new_def)
qed

lemma new_raw: "(new_listening junk address port, Raw) \<in> {RawServer_new junk address port, SecureServer_new junk address port [] [] []}"
  by (simp add: RawServer_new_def)

theorem accept_connections_refines_acceptLoop_witness:
  "snd (case accept_connections (example_net (\<lambda>_. True)) (Secure [] [] []) short_polls
      [Accepted_socket 4, Accepted_socket 5, Accept_failed, Accepted_socket 6] (example_server 1, 9) of (r, (sv, _)) \<Rightarrow> (r, sv)) =
   snd (acceptLoop short_polls [Accepted_socket 4, Accept_failed, Accept_failed, Accepted_socket 6] (example_server 1))"
proof -
  have "\<forall>socket n k. fst ((createNewConnection (example_net (\<lambda>_. True)) (Secure [] [] []) :: int \<Rightarrow> (int, 16 word connection) sx) socket n)
      \<noteq> Inl (UB k)"
    by (simp add: net_eval)
  from accept_connections_refines_acceptLoop [OF this, of short_polls
      "[Accepted_socket 4, Accepted_socket 5, Accept_failed, Accepted_socket 6]" "example_server 1" 9]
  show ?thesis by (simp add: net_eval)
qed

theorem failed_start_breaks_end_witness:
  "\<exists>li n1. start_server (example_net (\<lambda>_. False)) Raw (\<lambda>_. 0) () (ThreadPool_new 0 :: unit threadPool) ()
      (new_listening False ''nowhere'' 9000 :: (unit, unit, unit, unit) listening, 3) = (Inl Net_exception, (li, n1)) \<and>
    fst (stop_server (example_net (\<lambda>_. False)) (li, n1)) = Inl (UB Null_deref)"
proof -
  let ?st = "start_server (example_net (\<lambda>_. False)) Raw (\<lambda>_. 0) () (ThreadPool_new 0 :: unit threadPool) ()
      (new_listening False ''nowhere'' 9000 :: (unit, unit, unit, unit) listening, 3)"
  have s: "?st = (Inl Net_exception, (fst (snd ?st), snd (snd ?st)))"
    by (simp add: net_eval)
  have "fst (no_uninitializeSSL (example_net (\<lambda>_. False)) n) = Inr ()" for n by (simp add: example_net_def)
  from failed_start_breaks_end [OF new_raw s this] s show ?thesis by blast
qed

theorem started_server_ends_witness:
  "\<exists>li n1 li' n2. start_server (example_net (\<lambda>_. True)) Raw (\<lambda>_. 0) () (ThreadPool_new 0 :: unit threadPool) ()
      (new_listening False ''0.0.0.0'' 9000 :: (unit, unit, unit, unit) listening, 3) = (Inr (), (li, n1)) \<and>
    stop_server (example_net (\<lambda>_. True)) (li, n1) = (Inr (), (li', n2)) \<and> \<not> sv_active (li_server li')"
proof -
  let ?st = "start_server (example_net (\<lambda>_. True)) Raw (\<lambda>_. 0) () (ThreadPool_new 0 :: unit threadPool) ()
      (new_listening False ''0.0.0.0'' 9000 :: (unit, unit, unit, unit) listening, 3)"
  have s: "?st = (Inr (), (fst (snd ?st), snd (snd ?st)))"
    by (simp add: net_eval)
  have "\<forall>n. fst (no_uninitializeSSL (example_net (\<lambda>_. True)) n) = Inr ()" "\<forall>fd n. fst (no_shutdown (example_net (\<lambda>_. True)) fd n) = Inr ()"
    by (simp_all add: example_net_def)
  from started_server_ends [OF new_raw s this] s show ?thesis by blast
qed

end
