(* ===== verification/Threads.thy ===== *)
theory Threads
  imports Prelude
begin

text \<open>
  What the program uses of \<open>std::thread\<close>, \<open>std::mutex\<close> and \<open>std::condition_variable\<close>, and the
  argument its four waiting loops share.

  A thread runs a list of instructions over the state the threads share: it takes and gives back a
  mutex, waits on the condition variable that goes with it, notifies all that wait there, changes the
  state (and may end in an exception, which ends the program), or branches. \<open>waits k\<close> is
  \<open>std::condition_variable::wait\<close>: it gives the mutex back and sleeps in one step, is woken by a
  notification, and goes on once it has the mutex again. The standard allows it to be woken for no
  reason; that is the step \<open>spurious\<close>.

  The locale \<open>monitor_discipline\<close> is the contract of a monitor: a thread that makes work
  available does so holding the mutex and notifies afterwards, and a thread goes to sleep only after
  it saw no work, still holding the mutex. A program whose instructions keep the contract never has
  a sleeping consumer, work to do and nobody about to notify.
\<close>

section \<open>Instructions and machine\<close>

datatype ('m, 's) instr =
    Lock 'm
  | Unlock 'm
  | Wait 'm
  | Notify_all 'm
  | Act "('s, unit) sx"
  | Branch "'s \<Rightarrow> bool \<times> 's" nat
  | Goto nat
  | Await "'s \<Rightarrow> bool"

text \<open>\<open>Branch c l\<close> evaluates a condition, which may have an effect, and goes to \<open>l\<close> if it is false.\<close>

datatype 'm activity = Running | Asleep 'm | Notified 'm

record ('t, 'm, 's) machine =
  mc_shared :: 's
  mc_owner :: "'m \<Rightarrow> 't option"
  mc_pc :: "'t \<Rightarrow> nat"
  mc_activity :: "'t \<Rightarrow> 'm activity"
  mc_error :: "cpp_error option"

definition machine_start :: "'s \<Rightarrow> ('t, 'm, 's) machine" where
  "machine_start s = \<lparr>mc_shared = s, mc_owner = (\<lambda>_. None), mc_pc = (\<lambda>_. 0), mc_activity = (\<lambda>_. Running), mc_error = None\<rparr>"

definition advance :: "'t \<Rightarrow> ('t, 'm, 's) machine \<Rightarrow> ('t, 'm, 's) machine" where
  "advance t m = m\<lparr>mc_pc := (mc_pc m)(t := Suc (mc_pc m t))\<rparr>"

definition notified :: "'m \<Rightarrow> 'm activity \<Rightarrow> 'm activity" where
  "notified k a = (if a = Asleep k then Notified k else a)"

definition wait_step :: "'t \<Rightarrow> 'm \<Rightarrow> ('t, 'm, 's) machine \<Rightarrow> ('t, 'm, 's) machine option" where
  "wait_step t k m =
     (case mc_activity m t of
        Running \<Rightarrow> Some (m\<lparr>mc_owner := (mc_owner m)(k := None), mc_activity := (mc_activity m)(t := Asleep k)\<rparr>)
      | Asleep _ \<Rightarrow> None
      | Notified _ \<Rightarrow>
          (if mc_owner m k = None
           then Some (advance t (m\<lparr>mc_owner := (mc_owner m)(k := Some t), mc_activity := (mc_activity m)(t := Running)\<rparr>))
           else None))"

fun instr_step :: "'t \<Rightarrow> ('m, 's) instr \<Rightarrow> ('t, 'm, 's) machine \<Rightarrow> ('t, 'm, 's) machine option" where
  "instr_step t (Lock k) m =
     (if mc_owner m k = None then Some (advance t (m\<lparr>mc_owner := (mc_owner m)(k := Some t)\<rparr>)) else None)"
| "instr_step t (Unlock k) m = Some (advance t (m\<lparr>mc_owner := (mc_owner m)(k := None)\<rparr>))"
| "instr_step t (Wait k) m = wait_step t k m"
| "instr_step t (Notify_all k) m = Some (advance t (m\<lparr>mc_activity := (\<lambda>u. notified k (mc_activity m u))\<rparr>))"
| "instr_step t (Act f) m =
     (case f (mc_shared m) of
        (Inl e, s) \<Rightarrow> Some (m\<lparr>mc_shared := s, mc_error := Some e\<rparr>)
      | (Inr _, s) \<Rightarrow> Some (advance t (m\<lparr>mc_shared := s\<rparr>)))"
| "instr_step t (Branch c l) m =
     (case c (mc_shared m) of
        (b, s) \<Rightarrow> Some (m\<lparr>mc_shared := s, mc_pc := (mc_pc m)(t := if b then Suc (mc_pc m t) else l)\<rparr>))"
| "instr_step t (Goto l) m = Some (m\<lparr>mc_pc := (mc_pc m)(t := l)\<rparr>)"
| "instr_step t (Await c) m = (if c (mc_shared m) then Some (advance t m) else None)"

definition thread_step :: "('t \<Rightarrow> ('m, 's) instr list) \<Rightarrow> 't \<Rightarrow> ('t, 'm, 's) machine \<Rightarrow> ('t, 'm, 's) machine option" where
  "thread_step code t m =
     (if mc_error m = None \<and> mc_pc m t < length (code t) then instr_step t (code t ! mc_pc m t) m else None)"

definition thread_ended :: "('t \<Rightarrow> ('m, 's) instr list) \<Rightarrow> 't \<Rightarrow> ('t, 'm, 's) machine \<Rightarrow> bool" where
  "thread_ended code t m \<longleftrightarrow> length (code t) \<le> mc_pc m t"

definition wake :: "'t \<Rightarrow> ('t, 'm, 's) machine \<Rightarrow> ('t, 'm, 's) machine" where
  "wake t m = m\<lparr>mc_activity := (mc_activity m)(t := (case mc_activity m t of Asleep k \<Rightarrow> Notified k | a \<Rightarrow> a))\<rparr>"

inductive machine_reach :: "('t \<Rightarrow> ('m, 's) instr list) \<Rightarrow> 's \<Rightarrow> ('t, 'm, 's) machine \<Rightarrow> bool" for code s where
  start: "machine_reach code s (machine_start s)"
| step: "machine_reach code s m \<Longrightarrow> thread_step code t m = Some m' \<Longrightarrow> machine_reach code s m'"
| spurious: "machine_reach code s m \<Longrightarrow> mc_error m = None \<Longrightarrow> machine_reach code s (wake t m)"

text \<open>A schedule names the thread that makes each step.\<close>

fun machine_run :: "('t \<Rightarrow> ('m, 's) instr list) \<Rightarrow> 't list \<Rightarrow> ('t, 'm, 's) machine \<Rightarrow> ('t, 'm, 's) machine option" where
  "machine_run code [] m = Some m"
| "machine_run code (t # ts) m =
     (case thread_step code t m of None \<Rightarrow> None | Some m' \<Rightarrow> machine_run code ts m')"

lemma machine_run_reach: "machine_reach code s m \<Longrightarrow> machine_run code ts m = Some m' \<Longrightarrow> machine_reach code s m'"
  by (induction ts arbitrary: m) (auto split: option.splits intro: machine_reach.step)

lemma machine_run_append:
  "machine_run code (ts @ us) m = (case machine_run code ts m of None \<Rightarrow> None | Some m' \<Rightarrow> machine_run code us m')"
  by (induction ts arbitrary: m) (auto split: option.splits)

text \<open>A step of a thread leaves the points of the others alone.\<close>

lemma thread_step_others: "thread_step code t m = Some m' \<Longrightarrow> u \<noteq> t \<Longrightarrow> mc_pc m' u = mc_pc m u"
  by (cases "code t ! mc_pc m t")
    (auto simp: thread_step_def advance_def wait_step_def split: if_splits prod.splits sum.splits activity.splits)

lemma machine_run_others: "machine_run code ts m = Some m' \<Longrightarrow> u \<notin> set ts \<Longrightarrow> mc_pc m' u = mc_pc m u"
  by (induction ts arbitrary: m) (auto split: option.splits dest: thread_step_others)

text \<open>What every action and every condition keeps of the shared state holds in every reachable state.\<close>

fun instr_keeps :: "('s \<Rightarrow> bool) \<Rightarrow> ('m, 's) instr \<Rightarrow> bool" where
  "instr_keeps P (Act f) \<longleftrightarrow> (\<forall>s. P s \<longrightarrow> P (snd (f s)))"
| "instr_keeps P (Branch c l) \<longleftrightarrow> (\<forall>s. P s \<longrightarrow> P (snd (c s)))"
| "instr_keeps P _ \<longleftrightarrow> True"

lemma instr_step_shared:
  "instr_step t i m = Some m' \<Longrightarrow> instr_keeps P i \<Longrightarrow> P (mc_shared m) \<Longrightarrow> P (mc_shared m')"
  by (cases i) (auto simp: advance_def wait_step_def split: prod.splits sum.splits if_splits activity.splits;
      metis snd_conv)+

lemma shared_invariant:
  assumes "machine_reach code s m" and "P s" and "\<And>t. list_all (instr_keeps P) (code t)"
  shows "P (mc_shared m)"
  using assms(1)
proof (induction rule: machine_reach.induct)
  case start
  show ?case using assms(2) by (simp add: machine_start_def)
next
  case (step m t m')
  then have "mc_pc m t < length (code t)" and s: "instr_step t (code t ! mc_pc m t) m = Some m'"
    by (auto simp: thread_step_def split: if_splits)
  then have "instr_keeps P (code t ! mc_pc m t)" using assms(3) [of t] by (simp add: list_all_length)
  from instr_step_shared [OF s this step.IH] show ?case .
next
  case (spurious m t)
  then show ?case by (simp add: wake_def)
qed

text \<open>
  Where a thread can be while \<open>Q\<close> holds of the shared state, which no instruction makes true: the
  set \<open>S\<close> is closed under its instructions.
\<close>

fun instr_stays :: "('s \<Rightarrow> bool) \<Rightarrow> nat set \<Rightarrow> nat \<Rightarrow> ('m, 's) instr \<Rightarrow> bool" where
  "instr_stays Q S p (Act f) \<longleftrightarrow> (\<forall>s. Q (snd (f s)) \<longrightarrow> Suc p \<in> S)"
| "instr_stays Q S p (Branch c l) \<longleftrightarrow> (\<forall>s. Q (snd (c s)) \<longrightarrow> (if fst (c s) then Suc p else l) \<in> S)"
| "instr_stays Q S p (Goto l) \<longleftrightarrow> l \<in> S"
| "instr_stays Q S p i \<longleftrightarrow> Suc p \<in> S"

lemma instr_step_stays:
  assumes "instr_step t i m = Some m'" and "instr_stays Q S (mc_pc m t) i" and "mc_pc m t \<in> S" and "Q (mc_shared m')"
  shows "mc_pc m' t \<in> S"
proof (cases i)
  case (Act f)
  then have "Q (snd (f (mc_shared m))) \<longrightarrow> Suc (mc_pc m t) \<in> S" using assms(2) by auto
  then show ?thesis using assms Act by (auto simp: advance_def split: prod.splits sum.splits)
next
  case (Branch c l)
  then have "Q (snd (c (mc_shared m))) \<longrightarrow> (if fst (c (mc_shared m)) then Suc (mc_pc m t) else l) \<in> S" using assms(2) by auto
  then show ?thesis using assms(1,4) Branch by (auto split: prod.splits)
qed (use assms in \<open>auto simp: advance_def wait_step_def split: if_splits activity.splits\<close>)

lemma points_stay:
  assumes "machine_reach code s m" and closed: "\<And>u. list_all (instr_keeps (\<lambda>s. \<not> Q s)) (code u)" and "0 \<in> S"
    and stays: "\<And>p. p \<in> S \<Longrightarrow> p < length (code t) \<Longrightarrow> instr_stays Q S p (code t ! p)"
  shows "Q (mc_shared m) \<longrightarrow> mc_pc m t \<in> S"
  using assms(1)
proof (induction rule: machine_reach.induct)
  case start
  show ?case using assms(3) by (simp add: machine_start_def)
next
  case (step m u m')
  then have p: "mc_pc m u < length (code u)" and s: "instr_step u (code u ! mc_pc m u) m = Some m'"
    by (auto simp: thread_step_def split: if_splits)
  have "instr_keeps (\<lambda>s. \<not> Q s) (code u ! mc_pc m u)" using closed [of u] p by (simp add: list_all_length)
  then have q: "Q (mc_shared m') \<longrightarrow> Q (mc_shared m)" using instr_step_shared [OF s] by blast
  show ?case
  proof (cases "u = t")
    case True
    then show ?thesis using q step.IH instr_step_stays [OF s] stays p by blast
  next
    case False
    then show ?thesis using q step.IH thread_step_others [OF step.hyps(2), of t] by simp
  qed
next
  case (spurious m u)
  then show ?case by (simp add: wake_def)
qed

corollary points_below:
  assumes "machine_reach code s m" and "\<And>u. list_all (instr_keeps (\<lambda>s. \<not> Q s)) (code u)" and "0 < n"
    and "\<forall>p<n. p < length (code t) \<longrightarrow> instr_stays Q {..<n} p (code t ! p)" and "Q (mc_shared m)"
  shows "mc_pc m t < n"
  using points_stay [OF assms(1,2), of "{..<n}" t] assms(3-5) by simp

text \<open>Why a thread that has not ended cannot make a step.\<close>

lemma thread_blocked:
  assumes "thread_step code t m = None" and "mc_error m = None" and "mc_pc m t < length (code t)"
  shows "(\<exists>k. code t ! mc_pc m t = Lock k \<and> mc_owner m k \<noteq> None) \<or> (\<exists>c. code t ! mc_pc m t = Await c \<and> \<not> c (mc_shared m)) \<or>
    (\<exists>k. code t ! mc_pc m t = Wait k \<and> mc_activity m t \<noteq> Running \<and>
       (\<forall>l. mc_activity m t = Notified l \<longrightarrow> mc_owner m k \<noteq> None))"
  using assms
  by (cases "code t ! mc_pc m t")
    (auto simp: thread_step_def wait_step_def split: if_splits prod.splits sum.splits activity.splits)

section \<open>The contract of a monitor\<close>

text \<open>
  The annotations of a thread's instructions with respect to one monitor: at \<open>inside\<close> points the
  thread is between taking the mutex and giving it back, at \<open>saw_none\<close> points it has seen that there
  is no work since it took the mutex, at \<open>owes\<close> points it has made work available and has yet to
  notify. \<open>moves\<close> is what a change of the point may do to them.
\<close>

definition moves :: "(nat \<Rightarrow> bool) \<Rightarrow> (nat \<Rightarrow> bool) \<Rightarrow> (nat \<Rightarrow> bool) \<Rightarrow> nat \<Rightarrow> nat \<Rightarrow> bool" where
  "moves inside saw_none owes p q \<longleftrightarrow> (inside q \<longleftrightarrow> inside p) \<and> (saw_none q \<longrightarrow> saw_none p) \<and> (owes p \<longrightarrow> owes q)"

fun instr_ok ::
  "'m \<Rightarrow> ('t \<Rightarrow> 's \<Rightarrow> bool) \<Rightarrow> 't \<Rightarrow> (nat \<Rightarrow> bool) \<Rightarrow> (nat \<Rightarrow> bool) \<Rightarrow> (nat \<Rightarrow> bool) \<Rightarrow> nat \<Rightarrow> ('m, 's) instr \<Rightarrow> bool" where
  "instr_ok mon work t inside saw_none owes p (Lock k) \<longleftrightarrow>
     (if k = mon then \<not> inside p \<and> inside (Suc p) \<and> \<not> saw_none (Suc p) \<and> (owes p \<longrightarrow> owes (Suc p))
      else moves inside saw_none owes p (Suc p))"
| "instr_ok mon work t inside saw_none owes p (Unlock k) \<longleftrightarrow>
     (if k = mon then inside p \<and> \<not> inside (Suc p) \<and> (owes p \<longrightarrow> owes (Suc p))
      else moves inside saw_none owes p (Suc p))"
| "instr_ok mon work t inside saw_none owes p (Wait k) \<longleftrightarrow>
     (if k = mon then inside p \<and> saw_none p \<and> inside (Suc p) \<and> \<not> saw_none (Suc p) \<and> \<not> owes p
      else moves inside saw_none owes p (Suc p))"
| "instr_ok mon work t inside saw_none owes p (Notify_all k) \<longleftrightarrow>
     (inside (Suc p) \<longleftrightarrow> inside p) \<and> (saw_none (Suc p) \<longrightarrow> saw_none p) \<and> (k \<noteq> mon \<longrightarrow> owes p \<longrightarrow> owes (Suc p))"
| "instr_ok mon work t inside saw_none owes p (Act f) \<longleftrightarrow>
     moves inside (\<lambda>_. False) owes p (Suc p) \<and> \<not> saw_none (Suc p) \<and>
     ((\<forall>u s. work u (snd (f s)) \<longrightarrow> work u s) \<or> inside p \<and> owes (Suc p))"
| "instr_ok mon work t inside saw_none owes p (Branch c l) \<longleftrightarrow>
     moves inside (\<lambda>_. False) owes p (Suc p) \<and> moves inside (\<lambda>_. False) owes p l \<and>
     (saw_none (Suc p) \<longrightarrow> inside p \<and> (\<forall>s. fst (c s) \<longrightarrow> \<not> work t (snd (c s)))) \<and> \<not> saw_none l \<and>
     (\<forall>u s. work u (snd (c s)) \<longrightarrow> work u s)"
| "instr_ok mon work t inside saw_none owes p (Goto l) \<longleftrightarrow> moves inside saw_none owes p l"
| "instr_ok mon work t inside saw_none owes p (Await c) \<longleftrightarrow> moves inside saw_none owes p (Suc p)"

text \<open>All instructions of a program, and no thread starts inside or in debt.\<close>

definition code_ok ::
  "'m \<Rightarrow> ('t \<Rightarrow> 's \<Rightarrow> bool) \<Rightarrow> 't \<Rightarrow> (nat \<Rightarrow> bool) \<Rightarrow> (nat \<Rightarrow> bool) \<Rightarrow> (nat \<Rightarrow> bool) \<Rightarrow> ('m, 's) instr list \<Rightarrow> bool" where
  "code_ok mon work t inside saw_none owes is \<longleftrightarrow>
     \<not> inside 0 \<and> (\<forall>p<length is. instr_ok mon work t inside saw_none owes p (is ! p)) \<and> (\<forall>p. saw_none p \<longrightarrow> inside p)"

lemma all_less_Suc_nat: "(\<forall>p<Suc n. P p) \<longleftrightarrow> P n \<and> (\<forall>p<n. P p)" for P :: "nat \<Rightarrow> bool"
  by (auto simp: less_Suc_eq)

text \<open>The thread that has the mutex: it is inside and does not wait on the monitor.\<close>

definition holds :: "'m \<Rightarrow> (nat \<Rightarrow> bool) \<Rightarrow> 't \<Rightarrow> ('t, 'm, 's) machine \<Rightarrow> bool" where
  "holds mon ins t m \<longleftrightarrow> ins (mc_pc m t) \<and> mc_activity m t \<noteq> Asleep mon \<and> mc_activity m t \<noteq> Notified mon"

locale monitor_discipline =
  fixes code :: "'t \<Rightarrow> ('m, 's) instr list" and mon :: 'm and work :: "'t \<Rightarrow> 's \<Rightarrow> bool"
    and inside saw_none owes :: "'t \<Rightarrow> nat \<Rightarrow> bool"
  assumes keeps: "code_ok mon work t (inside t) (saw_none t) (owes t) (code t)"
begin

text \<open>
  The invariant: the mutex belongs to the thread that is inside, a thread waits where its program
  says so, a thread that holds the mutex and has seen no work is right, and where a thread sleeps
  with work to do another owes a notification.
\<close>

definition waits_right :: "('t, 'm, 's) machine \<Rightarrow> bool" where
  "waits_right m \<longleftrightarrow> (\<forall>t k. mc_activity m t \<in> {Asleep k, Notified k} \<longrightarrow>
     mc_pc m t < length (code t) \<and> code t ! mc_pc m t = Wait k)"

definition mutex_right :: "('t, 'm, 's) machine \<Rightarrow> bool" where
  "mutex_right m \<longleftrightarrow> (\<forall>t. mc_owner m mon = Some t \<longleftrightarrow> holds mon (inside t) t m)"

definition wakeups_right :: "('t, 'm, 's) machine \<Rightarrow> bool" where
  "wakeups_right m \<longleftrightarrow>
     (\<forall>t. saw_none t (mc_pc m t) \<and> holds mon (inside t) t m \<longrightarrow> \<not> work t (mc_shared m)) \<and>
     (\<forall>t. mc_activity m t = Asleep mon \<and> work t (mc_shared m) \<longrightarrow> (\<exists>u. owes u (mc_pc m u)))"

definition discipline :: "('t, 'm, 's) machine \<Rightarrow> bool" where
  "discipline m \<longleftrightarrow> waits_right m \<and> mutex_right m \<and> wakeups_right m"

lemma keeps_at: "p < length (code t) \<Longrightarrow> instr_ok mon work t (inside t) (saw_none t) (owes t) p (code t ! p)"
  using keeps [of t] by (simp add: code_ok_def)

lemma saw_inside: "saw_none t p \<Longrightarrow> inside t p"
  using keeps [of t] by (simp add: code_ok_def)

lemma discipline_start: "discipline (machine_start s)"
  using keeps by (auto simp: discipline_def waits_right_def mutex_right_def wakeups_right_def holds_def machine_start_def
      code_ok_def)

lemma running_at:
  "waits_right m \<Longrightarrow> code t ! mc_pc m t = i \<Longrightarrow> (\<And>k. i \<noteq> Wait k) \<Longrightarrow> mc_activity m t = Running"
  by (cases "mc_activity m t") (auto simp: waits_right_def)

lemma waits_at: "waits_right m \<Longrightarrow> code t ! mc_pc m t = Wait k \<Longrightarrow> mc_activity m t \<in> {Running, Asleep k, Notified k}"
  by (cases "mc_activity m t") (fastforce simp: waits_right_def)+

lemma owner_unique: "mutex_right m \<Longrightarrow> holds mon (inside t) t m \<Longrightarrow> holds mon (inside u) u m \<Longrightarrow> t = u"
  unfolding mutex_right_def by (metis option.inject)

lemma waits_right_other:
  assumes "waits_right m" and "mc_activity m' t = Running"
    and "\<forall>u. u \<noteq> t \<longrightarrow> mc_pc m' u = mc_pc m u \<and> mc_activity m' u \<in> {mc_activity m u, notified k (mc_activity m u)}"
  shows "waits_right m'"
  unfolding waits_right_def
proof (intro allI impI)
  fix u k'
  assume a: "mc_activity m' u \<in> {Asleep k', Notified k'}"
  then have u: "u \<noteq> t" using assms(2) by auto
  then have "mc_activity m' u \<in> {mc_activity m u, notified k (mc_activity m u)}" "mc_pc m' u = mc_pc m u"
    using assms(3) by auto
  moreover have "mc_activity m u \<in> {Asleep k', Notified k'}"
    using a calculation(1) by (auto simp: notified_def split: if_splits)
  ultimately show "mc_pc m' u < length (code u) \<and> code u ! mc_pc m' u = Wait k'"
    using assms(1) by (auto simp: waits_right_def)
qed

text \<open>The steps that leave the mutex with its owner and the thread awake.\<close>

lemma discipline_move:
  assumes D: "discipline m" and run: "mc_activity m t = Running" "mc_activity m' t = Running"
    and others: "\<forall>u. u \<noteq> t \<longrightarrow> mc_pc m' u = mc_pc m u \<and> mc_activity m' u \<in> {mc_activity m u, notified k (mc_activity m u)}"
    and owner: "mc_owner m' mon = mc_owner m mon"
    and ins: "inside t (mc_pc m' t) = inside t (mc_pc m t)"
    and saw: "saw_none t (mc_pc m' t) \<Longrightarrow> inside t (mc_pc m t) \<Longrightarrow>
      \<not> work t (mc_shared m') \<or> saw_none t (mc_pc m t) \<and> mc_shared m' = mc_shared m"
    and wk: "\<And>u. work u (mc_shared m') \<longrightarrow> work u (mc_shared m) \<or> inside t (mc_pc m t) \<and> owes t (mc_pc m' t)"
    and ow: "owes t (mc_pc m t) \<longrightarrow> owes t (mc_pc m' t) \<or> (\<forall>u. mc_activity m' u \<noteq> Asleep mon)"
  shows "discipline m'"
proof -
  have act: "mc_activity m' u \<noteq> Asleep mon \<and> mc_activity m' u \<noteq> Notified mon \<longleftrightarrow>
      mc_activity m u \<noteq> Asleep mon \<and> mc_activity m u \<noteq> Notified mon" for u
    using run others by (cases "u = t") (auto simp: notified_def split: if_splits)
  have pc: "u \<noteq> t \<Longrightarrow> mc_pc m' u = mc_pc m u" for u using others by auto
  have h: "holds mon (inside u) u m' \<longleftrightarrow> holds mon (inside u) u m" for u
    unfolding holds_def act using ins pc by (cases "u = t") auto
  have mr: "mutex_right m" "waits_right m" "wakeups_right m" using D by (auto simp: discipline_def)
  have "mutex_right m'" using mr(1) by (simp add: mutex_right_def h owner)
  moreover have "waits_right m'" using waits_right_other [OF mr(2) run(2) others] .
  moreover have "\<not> work u (mc_shared m')" if a: "saw_none u (mc_pc m' u)" and b: "holds mon (inside u) u m'" for u
  proof (cases "u = t")
    case True
    then have "inside t (mc_pc m t)" using b h by (auto simp: holds_def)
    then show ?thesis using saw a b h mr(3) True by (auto simp: wakeups_right_def)
  next
    case False
    then have nw: "\<not> work u (mc_shared m)" using a b h pc mr(3) by (auto simp: wakeups_right_def)
    have "\<not> inside t (mc_pc m t)"
      using owner_unique [OF mr(1), of t u] b h False run(1) by (auto simp: holds_def)
    then show ?thesis using nw wk by blast
  qed
  moreover have "\<exists>v. owes v (mc_pc m' v)" if a: "mc_activity m' u = Asleep mon" and w: "work u (mc_shared m')" for u
  proof (cases "owes t (mc_pc m' t)")
    case False
    then have "work u (mc_shared m)" using wk w by blast
    moreover have "mc_activity m u = Asleep mon"
      using a others run by (cases "u = t") (auto simp: notified_def split: if_splits)
    ultimately obtain v where v: "owes v (mc_pc m v)" using mr(3) by (auto simp: wakeups_right_def)
    then have "v \<noteq> t" using False ow a by blast
    then show ?thesis using v pc by metis
  qed blast
  ultimately show ?thesis by (auto simp: discipline_def wakeups_right_def)
qed

lemma discipline_wake: "discipline m \<Longrightarrow> discipline (wake t m)"
proof -
  assume D: "discipline m"
  have act: "(mc_activity (wake t m) u = Running \<longleftrightarrow> mc_activity m u = Running) \<and>
      (mc_activity (wake t m) u \<in> {Asleep k, Notified k} \<longleftrightarrow> mc_activity m u \<in> {Asleep k, Notified k}) \<and>
      (mc_activity (wake t m) u = Asleep k \<longrightarrow> mc_activity m u = Asleep k)" for u k
    by (auto simp: wake_def split: activity.splits)
  have same: "mc_pc (wake t m) = mc_pc m" "mc_shared (wake t m) = mc_shared m" "mc_owner (wake t m) = mc_owner m"
    by (simp_all add: wake_def)
  have h: "holds mon (inside u) u (wake t m) \<longleftrightarrow> holds mon (inside u) u m" for u
    unfolding holds_def same using act by blast
  show ?thesis using D unfolding discipline_def waits_right_def mutex_right_def wakeups_right_def h same
    using act by blast
qed

lemma saw_imp: "discipline m \<Longrightarrow> saw_none t (mc_pc m t) \<Longrightarrow> holds mon (inside t) t m \<Longrightarrow> \<not> work t (mc_shared m)"
  by (auto simp: discipline_def wakeups_right_def)

text \<open>Taking and giving back the mutex.\<close>

lemma discipline_lock:
  assumes D: "discipline m" and run: "mc_activity m t = Running" and free: "mc_owner m mon = None"
    and ins: "\<not> inside t (mc_pc m t)" "inside t (Suc (mc_pc m t))" "\<not> saw_none t (Suc (mc_pc m t))"
    and ow: "owes t (mc_pc m t) \<longrightarrow> owes t (Suc (mc_pc m t))"
  shows "discipline (advance t (m\<lparr>mc_owner := (mc_owner m)(mon := Some t)\<rparr>))" (is "discipline ?m")
proof -
  have none: "\<not> holds mon (inside u) u m" for u
    using D free unfolding discipline_def mutex_right_def by (metis option.distinct(1))
  have h: "holds mon (inside u) u ?m \<longleftrightarrow> u = t" for u
    using none [of u] run ins by (cases "u = t") (auto simp: holds_def advance_def)
  have wr: "waits_right ?m"
    by (rule waits_right_other [where t = t and k = mon and m = m]) (use D run in \<open>auto simp: discipline_def advance_def\<close>)
  have wk: "(\<exists>v. owes v (mc_pc m v)) \<longrightarrow> (\<exists>v. owes v (mc_pc ?m v))"
    using ow by (auto simp: advance_def)
  show ?thesis using D ins wk wr unfolding discipline_def mutex_right_def wakeups_right_def h
    by (auto simp: advance_def)
qed

lemma discipline_unlock:
  assumes D: "discipline m" and run: "mc_activity m t = Running"
    and ins: "inside t (mc_pc m t)" "\<not> inside t (Suc (mc_pc m t))"
    and ow: "owes t (mc_pc m t) \<longrightarrow> owes t (Suc (mc_pc m t))"
  shows "discipline (advance t (m\<lparr>mc_owner := (mc_owner m)(mon := None)\<rparr>))" (is "discipline ?m")
proof -
  have "holds mon (inside t) t m" using run ins by (simp add: holds_def)
  then have other: "u \<noteq> t \<Longrightarrow> \<not> holds mon (inside u) u m" for u
    using D owner_unique by (auto simp: discipline_def)
  have h: "\<not> holds mon (inside u) u ?m" for u
    using other [of u] run ins by (cases "u = t") (auto simp: holds_def advance_def)
  have wr: "waits_right ?m"
    by (rule waits_right_other [where t = t and k = mon and m = m]) (use D run in \<open>auto simp: discipline_def advance_def\<close>)
  have wk: "(\<exists>v. owes v (mc_pc m v)) \<longrightarrow> (\<exists>v. owes v (mc_pc ?m v))"
    using ow by (auto simp: advance_def)
  show ?thesis using D wk wr h unfolding discipline_def mutex_right_def wakeups_right_def
    by (auto simp: advance_def)
qed

text \<open>Waiting: the thread goes to sleep, or has been notified and finds the mutex free.\<close>

lemma discipline_sleep:
  assumes D: "discipline m" and run: "mc_activity m t = Running"
    and p: "mc_pc m t < length (code t)" "code t ! mc_pc m t = Wait mon"
    and saw: "saw_none t (mc_pc m t)"
  shows "discipline (m\<lparr>mc_owner := (mc_owner m)(mon := None), mc_activity := (mc_activity m)(t := Asleep mon)\<rparr>)"
    (is "discipline ?m")
proof -
  have ht: "holds mon (inside t) t m" using run saw_inside [OF saw] by (simp add: holds_def)
  then have other: "u \<noteq> t \<Longrightarrow> \<not> holds mon (inside u) u m" for u
    using D owner_unique by (auto simp: discipline_def)
  have nw: "\<not> work t (mc_shared m)" using saw_imp [OF D saw ht] .
  have h: "\<not> holds mon (inside u) u ?m" for u
    using other [of u] by (cases "u = t") (auto simp: holds_def)
  have "waits_right ?m" using D p by (auto simp: discipline_def waits_right_def)
  then show ?thesis using nw h D unfolding discipline_def mutex_right_def wakeups_right_def by auto
qed

lemma discipline_resume:
  assumes D: "discipline m" and act: "mc_activity m t = Notified mon" and free: "mc_owner m mon = None"
    and ins: "inside t (Suc (mc_pc m t))" "\<not> saw_none t (Suc (mc_pc m t))" and ow: "\<not> owes t (mc_pc m t)"
  shows "discipline (advance t (m\<lparr>mc_owner := (mc_owner m)(mon := Some t), mc_activity := (mc_activity m)(t := Running)\<rparr>))"
    (is "discipline ?m")
proof -
  have none: "\<not> holds mon (inside u) u m" for u
    using D free unfolding discipline_def mutex_right_def by (metis option.distinct(1))
  have h: "holds mon (inside u) u ?m \<longleftrightarrow> u = t" for u
    using none [of u] ins by (cases "u = t") (auto simp: holds_def advance_def)
  have wr: "waits_right ?m"
    by (rule waits_right_other [where t = t and k = mon and m = m]) (use D in \<open>auto simp: discipline_def advance_def\<close>)
  have wk: "owes v (mc_pc m v) \<Longrightarrow> owes v (mc_pc ?m v)" for v
    using ow by (cases "v = t") (auto simp: advance_def)
  have same: "mc_shared ?m = mc_shared m" "mc_owner ?m mon = Some t" by (simp_all add: advance_def)
  have "\<not> saw_none t (mc_pc ?m t)" using ins by (simp add: advance_def)
  moreover have "mc_activity ?m u = Asleep mon \<Longrightarrow> mc_activity m u = Asleep mon" for u
    by (auto simp: advance_def split: if_splits)
  ultimately show ?thesis using D wk wr same unfolding discipline_def mutex_right_def wakeups_right_def h by (metis option.inject)
qed

text \<open>Waiting on another monitor leaves this one as it is.\<close>

lemma discipline_elsewhere:
  assumes D: "discipline m" and p: "mc_pc m t < length (code t)" "code t ! mc_pc m t = Wait k" and k: "k \<noteq> mon"
    and i: "moves (inside t) (saw_none t) (owes t) (mc_pc m t) (Suc (mc_pc m t))" and s: "wait_step t k m = Some m'"
  shows "discipline m'"
proof -
  have r: "mc_activity m t \<in> {Running, Asleep k, Notified k}" using D p(2) waits_at by (auto simp: discipline_def)
  show ?thesis
  proof (cases "mc_activity m t")
    case Running
    then have m': "m' = m\<lparr>mc_owner := (mc_owner m)(k := None), mc_activity := (mc_activity m)(t := Asleep k)\<rparr>"
      using s by (simp add: wait_step_def)
    have h: "holds mon (inside u) u m' \<longleftrightarrow> holds mon (inside u) u m" for u
      using k Running unfolding m' by (cases "u = t") (auto simp: holds_def)
    have "waits_right m'" using D p by (auto simp: m' discipline_def waits_right_def)
    then show ?thesis using D k unfolding discipline_def mutex_right_def wakeups_right_def h by (auto simp: m')
  next
    case (Asleep k')
    then show ?thesis using s by (simp add: wait_step_def)
  next
    case (Notified k')
    then have kk: "k' = k" using r by simp
    then have m': "m' = advance t (m\<lparr>mc_owner := (mc_owner m)(k := Some t), mc_activity := (mc_activity m)(t := Running)\<rparr>)"
      using s Notified by (simp add: wait_step_def split: if_splits)
    have h: "holds mon (inside u) u m' \<longleftrightarrow> holds mon (inside u) u m" for u
      using k kk i Notified unfolding m' by (cases "u = t") (auto simp: holds_def advance_def moves_def)
    have wr: "waits_right m'"
      by (rule waits_right_other [where t = t and k = mon and m = m]) (use D in \<open>auto simp: m' discipline_def advance_def\<close>)
    have saw: "saw_none u (mc_pc m' u) \<longrightarrow> saw_none u (mc_pc m u)" for u
      using i by (cases "u = t") (auto simp: m' advance_def moves_def)
    have wk: "(\<exists>v. owes v (mc_pc m v)) \<longrightarrow> (\<exists>v. owes v (mc_pc m' v))"
      using i by (auto simp: m' advance_def moves_def)
    have "mc_owner m' mon = mc_owner m mon" "mc_shared m' = mc_shared m" using k by (simp_all add: m' advance_def)
    moreover have "mc_activity m' u = Asleep mon \<longrightarrow> mc_activity m u = Asleep mon" for u by (auto simp: m' advance_def)
    ultimately show ?thesis using D wk wr saw unfolding discipline_def mutex_right_def wakeups_right_def h by metis
  qed
qed

lemma discipline_step:
  assumes D: "discipline m" and step: "thread_step code t m = Some m'" and ok: "mc_error m' = None"
  shows "discipline m'"
proof -
  let ?p = "mc_pc m t"
  have p: "?p < length (code t)" and s: "instr_step t (code t ! ?p) m = Some m'"
    using step by (auto simp: thread_step_def split: if_splits)
  have k: "instr_ok mon work t (inside t) (saw_none t) (owes t) ?p (code t ! ?p)" by (rule keeps_at [OF p])
  have W: "waits_right m" using D by (simp add: discipline_def)
  have run: "(\<And>k. code t ! ?p \<noteq> Wait k) \<Longrightarrow> mc_activity m t = Running" using running_at [OF W refl] by blast
  show ?thesis
  proof (cases "code t ! ?p")
    case (Lock l)
    then show ?thesis
    proof (cases "l = mon")
      case True
      then show ?thesis using Lock s k run D by (auto split: if_splits intro!: discipline_lock)
    next
      case False
      then show ?thesis using Lock s k run
        by (intro discipline_move [OF D, of t m' mon]) (auto simp: advance_def moves_def split: if_splits)
    qed
  next
    case (Unlock l)
    then show ?thesis
    proof (cases "l = mon")
      case True
      then show ?thesis using Unlock s k run D by (auto intro!: discipline_unlock)
    next
      case False
      then show ?thesis using Unlock s k run
        by (intro discipline_move [OF D, of t m' mon]) (auto simp: advance_def moves_def)
    qed
  next
    case (Wait l)
    then have ws: "wait_step t l m = Some m'" using s by simp
    show ?thesis
    proof (cases "l = mon")
      case False
      then show ?thesis using discipline_elsewhere [OF D p Wait False _ ws] k Wait by simp
    next
      case True
      have "mc_activity m t \<in> {Running, Asleep mon, Notified mon}" using waits_at [OF W Wait] True by simp
      then show ?thesis using ws k Wait True D p
        by (auto simp: wait_step_def split: if_splits intro!: discipline_sleep discipline_resume)
    qed
  next
    case (Notify_all l)
    then show ?thesis using s k run
      by (intro discipline_move [OF D, of t m' l]) (auto simp: advance_def notified_def split: if_splits)
  next
    case (Act f)
    then obtain s' where f: "f (mc_shared m) = (Inr (), s')" and m': "m' = advance t (m\<lparr>mc_shared := s'\<rparr>)"
      using s ok by (auto split: prod.splits sum.splits)
    have "\<And>u. work u s' \<longrightarrow> work u (mc_shared m) \<or> inside t ?p \<and> owes t (Suc ?p)"
      using k Act f by (auto dest: spec [of _ "mc_shared m"])
    then show ?thesis using Act k run unfolding m'
      by (intro discipline_move [OF D, of t _ mon]) (auto simp: advance_def moves_def)
  next
    case (Branch c l)
    then obtain b s' where c: "c (mc_shared m) = (b, s')"
      and m': "m' = m\<lparr>mc_shared := s', mc_pc := (mc_pc m)(t := if b then Suc ?p else l)\<rparr>"
      using s by (auto split: prod.splits)
    have "\<And>u. work u s' \<longrightarrow> work u (mc_shared m)" "saw_none t (if b then Suc ?p else l) \<longrightarrow> \<not> work t s'"
      using k Branch c by (auto dest: spec [of _ "mc_shared m"])
    then show ?thesis using Branch k run unfolding m'
      by (intro discipline_move [OF D, of t _ mon]) (auto simp: moves_def)
  next
    case (Goto l)
    then show ?thesis using s k run
      by (intro discipline_move [OF D, of t m' mon]) (auto simp: moves_def)
  next
    case (Await c)
    then show ?thesis using s k run
      by (intro discipline_move [OF D, of t m' mon]) (auto simp: advance_def moves_def split: if_splits)
  qed
qed

lemma discipline_reach: "machine_reach code s m \<Longrightarrow> mc_error m = None \<Longrightarrow> discipline m"
proof (induction rule: machine_reach.induct)
  case start
  show ?case by (rule discipline_start)
next
  case (step m t m')
  then have "mc_error m = None" by (auto simp: thread_step_def split: if_splits)
  then show ?case using step discipline_step by blast
next
  case (spurious m t)
  then show ?case using discipline_wake by blast
qed

text \<open>No lost wakeup: where a consumer sleeps and there is work, a producer has yet to notify.\<close>

lemma no_lost_wakeup:
  "machine_reach code s m \<Longrightarrow> mc_error m = None \<Longrightarrow> mc_activity m t = Asleep mon \<Longrightarrow> work t (mc_shared m) \<Longrightarrow>
     \<exists>u. owes u (mc_pc m u)"
  using discipline_reach by (auto simp: discipline_def wakeups_right_def)

text \<open>Two threads are never inside at once, and the mutex is free when none is.\<close>

lemma mutual_exclusion:
  "machine_reach code s m \<Longrightarrow> mc_error m = None \<Longrightarrow> holds mon (inside t) t m \<Longrightarrow> holds mon (inside u) u m \<Longrightarrow> t = u"
  using owner_unique discipline_reach unfolding discipline_def by blast

lemma owner_holds:
  "machine_reach code s m \<Longrightarrow> mc_error m = None \<Longrightarrow> mc_owner m mon = Some t \<longleftrightarrow> holds mon (inside t) t m"
  using discipline_reach by (auto simp: discipline_def mutex_right_def)

lemma sees_no_work:
  "machine_reach code s m \<Longrightarrow> mc_error m = None \<Longrightarrow> saw_none t (mc_pc m t) \<Longrightarrow> holds mon (inside t) t m \<Longrightarrow> \<not> work t (mc_shared m)"
  using discipline_reach saw_imp by blast

text \<open>A thread waits only where its program says so.\<close>

lemma waiting_point:
  "machine_reach code s m \<Longrightarrow> mc_error m = None \<Longrightarrow> code t ! mc_pc m t = Wait k \<Longrightarrow>
     mc_activity m t \<in> {Running, Asleep k, Notified k}"
  using discipline_reach waits_at unfolding discipline_def by blast

lemma running_point:
  "machine_reach code s m \<Longrightarrow> mc_error m = None \<Longrightarrow> (\<And>k. code t ! mc_pc m t \<noteq> Wait k) \<Longrightarrow> mc_activity m t = Running"
  using discipline_reach running_at unfolding discipline_def by blast

end

end
