(* ===== verification/ClientThreads.thy ===== *)
theory ClientThreads
  imports Threads Client
begin

text \<open>
  The threads of a client, instruction by instruction: \<open>src/Client.cpp\<close>.

  \<open>connect\<close> starts a thread for each of \<open>recvLoop\<close>, \<open>sendLoop\<close> and \<open>execLoop\<close>; other threads of the
  program call \<open>sendPacket\<close> and \<open>close\<close>. The theory \<open>Client\<close> says what a loop does when it runs by
  itself; here the steps of all of them interleave, with the two mutexes and the two condition
  variables of the object. The number in front of an instruction is its point in the program.

  The executing loop runs a packet's action with \<open>_execMtx\<close> held, and an action that sends a packet on the
  same client takes \<open>_sendMtx\<close> inside it; no thread takes them the other way round. (On a node the mutex of the
  session manager lies between the two during a start; it is not in this machine, \<open>NodeAtomic\<close> has it.)

  The operations on the connection run under its own mutex and are single steps. The condition
  of a waiting loop is one step: its queue changes under the mutex only, so it has the same
  value as when it is read with the flag.
\<close>

section \<open>What the threads share\<close>

datatype client_monitor = Send_monitor | Exec_monitor

datatype client_thread = Receiver | Sender | Executor | Caller nat | Closer

text \<open>
  The object, what the socket will still deliver, and the local variables of the loops: the result
  of the last receive call is \<open>ct_received\<close>, \<open>packetPtr\<close> is \<open>ct_packet\<close>, \<open>nextPacket\<close> is \<open>ct_next\<close>,
  and \<open>ct_outbox\<close> are the packets the running packet action still has to send on this client.
\<close>

record ('w, 'q, 'p) client_threads =
  ct_client :: "('w, 'q, 'p) client"
  ct_arrivals :: "arrival list"
  ct_received :: nat
  ct_packet :: "'q option"
  ct_next :: "'p option"
  ct_outbox :: "'p list"

definition threads_start :: "arrival list \<Rightarrow> ('w, 'q, 'p) client \<Rightarrow> ('w, 'q, 'p) client_threads" where
  "threads_start arrivals cl =
     \<lparr>ct_client = cl, ct_arrivals = arrivals, ct_received = 0, ct_packet = None, ct_next = None, ct_outbox = []\<rparr>"

definition on_client :: "(('w, 'q, 'p) client, unit) sx \<Rightarrow> (('w, 'q, 'p) client_threads, unit) sx" where
  "on_client f s = (case f (ct_client s) of (r, cl) \<Rightarrow> (r, s\<lparr>ct_client := cl\<rparr>))"

definition ct_active :: "('w, 'q, 'p) client_threads \<Rightarrow> bool \<times> ('w, 'q, 'p) client_threads" where
  "ct_active s = (cl_active (ct_client s), s)"

definition stop_client :: "(('w, 'q, 'p) client_threads, unit) sx" where
  "stop_client = on_client (\<lambda>cl. (Inr (), cl\<lparr>cl_active := False\<rparr>))"

definition end_client_connection :: "(('w, 'q, 'p) client_threads, unit) sx" where
  "end_client_connection = on_client (on_client_connection (\<lambda>(con, u). (Inr (), (endConnection con, u))))"

section \<open>Receiving\<close>

text \<open>\<open>receiveBytes\<close>, and for a call that delivers bytes also \<open>setWritePos\<close> and \<open>handlePacket\<close>.\<close>

definition receive_packet ::
  "('k \<Rightarrow> ('w \<times> bytebuffer option, 'q) sx) \<Rightarrow> 'k packetHandler \<Rightarrow> string \<Rightarrow> (('w, 'q, 'p) client_threads, unit) sx" where
  "receive_packet rd h address s =
     (let cl = (ct_client s)\<lparr>cl_recvBuffer := reset (cl_recvBuffer (ct_client s))\<rparr> in
      case ct_arrivals s of
        [] \<Rightarrow> (Inr (), s)
      | Net_error # rs \<Rightarrow> (Inl Net_exception, s\<lparr>ct_client := cl, ct_arrivals := rs\<rparr>)
      | Received now bs # rs \<Rightarrow>
          (let s1 = s\<lparr>ct_client := cl, ct_arrivals := rs, ct_received := length bs\<rparr> in
           if bs = [] then (Inr (), s1)
           else (case store_received bs (cl_recvBuffer cl) of
                   (Inl e, b) \<Rightarrow> (Inl e, s1\<lparr>ct_client := cl\<lparr>cl_recvBuffer := b\<rparr>\<rparr>)
                 | (Inr _, b) \<Rightarrow>
                     (case handlePacket rd h address (cl_world cl, b) of
                        (r, (w, b')) \<Rightarrow>
                          (let s2 = s1\<lparr>ct_client := cl\<lparr>cl_world := w, cl_recvBuffer := b'\<rparr>\<rparr> in
                           case r of Inl e \<Rightarrow> (Inl e, s2) | Inr q \<Rightarrow> (Inr (), s2\<lparr>ct_packet := q\<rparr>))))))"

definition queue_packet :: "(('w, 'q, 'p) client_threads, unit) sx" where
  "queue_packet s = (Inr (), s\<lparr>ct_client := push_exec (ct_packet s) (ct_client s), ct_packet := None\<rparr>)"

definition recvLoop_code ::
  "('k \<Rightarrow> ('w \<times> bytebuffer option, 'q) sx) \<Rightarrow> 'k packetHandler \<Rightarrow> string \<Rightarrow>
   (client_monitor, ('w, 'q, 'p) client_threads) instr list" where
  "recvLoop_code rd h address =
     [\<comment> \<open>0\<close> Branch ct_active 9,
      \<comment> \<open>1\<close> Await (\<lambda>s. ct_arrivals s \<noteq> []),
      \<comment> \<open>2\<close> Act (receive_packet rd h address),
      \<comment> \<open>3\<close> Branch (\<lambda>s. (0 < ct_received s, s)) 9,
      \<comment> \<open>4\<close> Lock Exec_monitor,
      \<comment> \<open>5\<close> Act queue_packet,
      \<comment> \<open>6\<close> Unlock Exec_monitor,
      \<comment> \<open>7\<close> Notify_all Exec_monitor,
      \<comment> \<open>8\<close> Goto 0,
      \<comment> \<open>9\<close> Branch ct_active 14,
      \<comment> \<open>10, handleCrash\<close> Act stop_client,
      \<comment> \<open>11\<close> Act end_client_connection,
      \<comment> \<open>12\<close> Notify_all Send_monitor,
      \<comment> \<open>13\<close> Notify_all Exec_monitor]"

section \<open>Executing\<close>

text \<open>
  \<open>run\<close> of a packet is called with \<open>_execMtx\<close> held, and an action may send packets on the same client:
  the three of a node (\<open>RequestNodeInfo\<close>, \<open>RequestStartStreamingSession\<close> through the session manager,
  \<open>RequestCloseUserSession\<close>) do so last. The argument \<open>run\<close> gives what the action makes of the world
  and the packets it then sends; each of these calls of \<open>sendPacket\<close> takes \<open>_sendMtx\<close> inside \<open>_execMtx\<close>.
\<close>

definition execute_packet :: "('q \<Rightarrow> ('w, 'p list) sx) \<Rightarrow> (('w, 'q, 'p) client_threads, unit) sx" where
  "execute_packet run s =
     (let cl = ct_client s in
      if \<not> cl_active cl then (Inr (), s)
      else (case pop_exec cl of
              (None, cl1) \<Rightarrow> (Inr (), s\<lparr>ct_client := cl1\<rparr>)
            | (Some None, cl1) \<Rightarrow> (Inr (), s\<lparr>ct_client := cl1\<rparr>)
            | (Some (Some q), cl1) \<Rightarrow>
                (case run q (cl_world cl1) of
                   (Inl e, w) \<Rightarrow> (Inl e, s\<lparr>ct_client := cl1\<lparr>cl_world := w\<rparr>\<rparr>)
                 | (Inr ps, w) \<Rightarrow> (Inr (), s\<lparr>ct_client := cl1\<lparr>cl_world := w\<rparr>, ct_outbox := ps\<rparr>))))"

definition has_outgoing :: "('w, 'q, 'p) client_threads \<Rightarrow> bool \<times> ('w, 'q, 'p) client_threads" where
  "has_outgoing s = (ct_outbox s \<noteq> [], s)"

definition send_outgoing :: "(('w, 'q, 'p) client_threads, unit) sx" where
  "send_outgoing s =
     (case ct_outbox s of
        [] \<Rightarrow> (Inr (), s)
      | p # ps \<Rightarrow> on_client (client_sendPacket p) (s\<lparr>ct_outbox := ps\<rparr>))"

definition nothing_to_execute :: "('w, 'q, 'p) client_threads \<Rightarrow> bool \<times> ('w, 'q, 'p) client_threads" where
  "nothing_to_execute s = (cl_execQueue (ct_client s) = [] \<and> cl_active (ct_client s), s)"

definition execLoop_code ::
  "('q \<Rightarrow> ('w, 'p list) sx) \<Rightarrow> (client_monitor, ('w, 'q, 'p) client_threads) instr list" where
  "execLoop_code run =
     [\<comment> \<open>0\<close> Branch ct_active 14,
      \<comment> \<open>1\<close> Lock Exec_monitor,
      \<comment> \<open>2\<close> Branch nothing_to_execute 5,
      \<comment> \<open>3\<close> Wait Exec_monitor,
      \<comment> \<open>4\<close> Goto 2,
      \<comment> \<open>5\<close> Act (execute_packet run),
      \<comment> \<open>6\<close> Branch has_outgoing 12,
      \<comment> \<open>7, sendPacket\<close> Lock Send_monitor,
      \<comment> \<open>8\<close> Act send_outgoing,
      \<comment> \<open>9\<close> Notify_all Send_monitor,
      \<comment> \<open>10\<close> Unlock Send_monitor,
      \<comment> \<open>11\<close> Goto 6,
      \<comment> \<open>12\<close> Unlock Exec_monitor,
      \<comment> \<open>13\<close> Goto 0]"

section \<open>Sending\<close>

text \<open>
  \<open>pollSendablePacket\<close> of the connection, whose result the condition of the loop keeps. A client's
  connection has a socket and no poll set, so it does not fail.
\<close>

definition poll_next :: "('w, 'q, 'p) client_threads \<Rightarrow> bool \<times> ('w, 'q, 'p) client_threads" where
  "poll_next s =
     (case on_client_connection (pollSendablePacket no_poll) (ct_client s) of
        (r, cl) \<Rightarrow>
          (let p = (case r of Inl e \<Rightarrow> None | Inr p \<Rightarrow> p) in
           (p = None \<and> cl_active cl, s\<lparr>ct_client := cl, ct_next := p\<rparr>)))"

text \<open>
  The packet is written into the buffer and given to the socket. What \<open>sendBytes\<close> does is Poco's: the
  argument \<open>sendBytes\<close> says whether it throws, given whether the socket is open.
\<close>

definition send_next ::
  "(bool \<Rightarrow> byte list \<Rightarrow> cpp_error + unit) \<Rightarrow> ('p \<Rightarrow> (bytebuffer option, unit) sx) \<Rightarrow>
   (('w, 'q, 'p) client_threads, unit) sx" where
  "send_next sendBytes writer s =
     (case ct_next s of
        None \<Rightarrow> (Inr (), s)
      | Some p \<Rightarrow>
          (let cl = (ct_client s)\<lparr>cl_sendBuffer := reset (cl_sendBuffer (ct_client s))\<rparr> in
           case writer p (Some (cl_sendBuffer cl)) of
             (Inl e, _) \<Rightarrow> (Inl e, s\<lparr>ct_client := cl\<rparr>)
           | (Inr _, None) \<Rightarrow> (Inl (UB Null_deref), s\<lparr>ct_client := cl\<rparr>)
           | (Inr _, Some b) \<Rightarrow>
               (let cl1 = cl\<lparr>cl_sendBuffer := b\<rparr> in
                case fst (mem_load 0 (getUsedSize b) b) of
                  Inl e \<Rightarrow> (Inl e, s\<lparr>ct_client := cl1\<rparr>)
                | Inr bs \<Rightarrow>
                    (case sendBytes (case cl_connection cl1 of None \<Rightarrow> False | Some con \<Rightarrow> con_open con) bs of
                       Inl e \<Rightarrow> (Inl e, s\<lparr>ct_client := cl1\<rparr>)
                     | Inr _ \<Rightarrow> (Inr (), s\<lparr>ct_client := cl1\<lparr>cl_sent := cl_sent cl1 @ [bs]\<rparr>, ct_next := None\<rparr>)))))"

definition sendLoop_code ::
  "(bool \<Rightarrow> byte list \<Rightarrow> cpp_error + unit) \<Rightarrow> ('p \<Rightarrow> (bytebuffer option, unit) sx) \<Rightarrow>
   (client_monitor, ('w, 'q, 'p) client_threads) instr list" where
  "sendLoop_code sendBytes writer =
     [\<comment> \<open>0\<close> Branch ct_active 8,
      \<comment> \<open>1\<close> Lock Send_monitor,
      \<comment> \<open>2\<close> Branch poll_next 5,
      \<comment> \<open>3\<close> Wait Send_monitor,
      \<comment> \<open>4\<close> Goto 2,
      \<comment> \<open>5\<close> Act (send_next sendBytes writer),
      \<comment> \<open>6\<close> Unlock Send_monitor,
      \<comment> \<open>7\<close> Goto 0]"

section \<open>Calls from other threads\<close>

definition sendPacket_code :: "'p \<Rightarrow> (client_monitor, ('w, 'q, 'p) client_threads) instr list" where
  "sendPacket_code p =
     [Lock Send_monitor,
      Act (on_client (client_sendPacket p)),
      Notify_all Send_monitor,
      Unlock Send_monitor]"

definition close_code :: "(client_monitor, ('w, 'q, 'p) client_threads) instr list" where
  "close_code =
     [Act stop_client,
      Act end_client_connection,
      Notify_all Send_monitor,
      Notify_all Exec_monitor]"

text \<open>The programs of all threads: \<open>Caller i\<close> sends the packets \<open>calls i\<close>, one after the other.\<close>

fun client_code ::
  "('k \<Rightarrow> ('w \<times> bytebuffer option, 'q) sx) \<Rightarrow> 'k packetHandler \<Rightarrow> string \<Rightarrow> ('q \<Rightarrow> ('w, 'p list) sx) \<Rightarrow>
   (bool \<Rightarrow> byte list \<Rightarrow> cpp_error + unit) \<Rightarrow> ('p \<Rightarrow> (bytebuffer option, unit) sx) \<Rightarrow> (nat \<Rightarrow> 'p list) \<Rightarrow> client_thread \<Rightarrow>
   (client_monitor, ('w, 'q, 'p) client_threads) instr list" where
  "client_code rd h address run sendBytes writer calls Receiver = recvLoop_code rd h address"
| "client_code rd h address run sendBytes writer calls Sender = sendLoop_code sendBytes writer"
| "client_code rd h address run sendBytes writer calls Executor = execLoop_code run"
| "client_code rd h address run sendBytes writer calls (Caller i) = concat (map sendPacket_code (calls i))"
| "client_code rd h address run sendBytes writer calls Closer = close_code"

section \<open>The two monitors keep their contract\<close>

definition exec_work :: "('w, 'q, 'p) client_threads \<Rightarrow> bool" where
  "exec_work s \<longleftrightarrow> cl_execQueue (ct_client s) \<noteq> []"

fun exec_inside :: "client_thread \<Rightarrow> nat \<Rightarrow> bool" where
  "exec_inside Receiver p \<longleftrightarrow> p \<in> {5, 6}"
| "exec_inside Executor p \<longleftrightarrow> p \<in> {2..12}"
| "exec_inside t p \<longleftrightarrow> False"

definition exec_saw_none :: "client_thread \<Rightarrow> nat \<Rightarrow> bool" where
  "exec_saw_none t p \<longleftrightarrow> t = Executor \<and> p = 3"

definition exec_owes :: "client_thread \<Rightarrow> nat \<Rightarrow> bool" where
  "exec_owes t p \<longleftrightarrow> t = Receiver \<and> p \<in> {6, 7}"

lemma exec_queue_acts:
  "cl_execQueue (ct_client (snd (stop_client s))) = cl_execQueue (ct_client s)"
  "cl_execQueue (ct_client (snd (end_client_connection s))) = cl_execQueue (ct_client s)"
  "cl_execQueue (ct_client (snd (receive_packet rd h address s))) = cl_execQueue (ct_client s)"
  "cl_execQueue (ct_client (snd (on_client (client_sendPacket p) s))) = cl_execQueue (ct_client s)"
  "cl_execQueue (ct_client (snd (send_outgoing s))) = cl_execQueue (ct_client s)"
  "cl_execQueue (ct_client (snd (send_next sb writer s))) = cl_execQueue (ct_client s)"
  "cl_execQueue (ct_client (snd (poll_next s))) = cl_execQueue (ct_client s)"
  by (simp_all add: stop_client_def end_client_connection_def on_client_def on_client_connection_def receive_packet_def
      client_sendPacket_def send_outgoing_def send_next_def poll_next_def Let_def
      split: option.splits prod.splits list.splits sum.splits arrival.splits)

lemma exec_work_acts [simp]:
  "exec_work (snd (stop_client s)) = exec_work s" "exec_work (snd (end_client_connection s)) = exec_work s"
  "exec_work (snd (receive_packet rd h address s)) = exec_work s"
  "exec_work (snd (on_client (client_sendPacket p) s)) = exec_work s"
  "exec_work (snd (send_outgoing s)) = exec_work s"
  "exec_work (snd (send_next sb writer s)) = exec_work s" "exec_work (snd (poll_next s)) = exec_work s"
  by (simp_all add: exec_work_def exec_queue_acts)

lemma execute_packet_work: "exec_work (snd (execute_packet run s)) \<Longrightarrow> exec_work s"
  by (auto simp: exec_work_def execute_packet_def pop_exec_def Let_def
      split: if_splits list.splits option.splits prod.splits sum.splits)

lemma nth_concat_blocks:
  "p < 4 * length xs \<Longrightarrow> (\<And>x. length (f x) = 4) \<Longrightarrow> concat (map f xs) ! p = f (xs ! (p div 4)) ! (p mod 4)"
proof (induction xs arbitrary: p)
  case (Cons x xs)
  show ?case
  proof (cases "p < 4")
    case True
    then show ?thesis using Cons.prems(2) by (simp add: nth_append)
  next
    case False
    then obtain q where q: "p = 4 + q" using le_Suc_ex by (metis not_less)
    moreover have "(4 + q) div 4 = Suc (q div 4)" by simp
    ultimately show ?thesis using Cons.IH [of q] Cons.prems by (simp add: nth_append del: div_add_self1)
  qed
qed simp

lemma length_sendPacket_blocks: "length (concat (map sendPacket_code ps)) = 4 * length ps"
  by (induction ps) (simp_all add: sendPacket_code_def)

lemma caller_instr:
  "p < length (concat (map sendPacket_code ps)) \<Longrightarrow>
     concat (map sendPacket_code ps) ! p = sendPacket_code (ps ! (p div 4)) ! (p mod 4)"
  by (rule nth_concat_blocks) (simp_all add: length_sendPacket_blocks, simp add: sendPacket_code_def)

lemma mod4_cases:
  fixes p :: nat
  obtains "p mod 4 = 0" "Suc p mod 4 = 1" | "p mod 4 = 1" "Suc p mod 4 = 2" | "p mod 4 = 2" "Suc p mod 4 = 3"
    | "p mod 4 = 3" "Suc p mod 4 = 0"
proof -
  have "p mod 4 = 0 \<or> p mod 4 = 1 \<or> p mod 4 = 2 \<or> p mod 4 = 3" by presburger
  moreover have "Suc p mod 4 = (if p mod 4 = 3 then 0 else Suc (p mod 4))" by (simp add: mod_Suc)
  ultimately show thesis using that by fastforce
qed

interpretation exec_monitor:
  monitor_discipline "client_code rd h address run sendBytes writer calls" Exec_monitor "\<lambda>_. exec_work" exec_inside exec_saw_none exec_owes
  for rd :: "'k \<Rightarrow> ('w \<times> bytebuffer option, 'q) sx" and h address and run :: "'q \<Rightarrow> ('w, 'p list) sx" and sendBytes
    and writer :: "'p \<Rightarrow> (bytebuffer option, unit) sx" and calls
proof (unfold_locales)
  fix t
  show "code_ok Exec_monitor (\<lambda>_. exec_work) t (exec_inside t) (exec_saw_none t) (exec_owes t)
    (client_code rd h address run sendBytes writer calls t)"
  proof (cases t)
    case Receiver
    then show ?thesis
      by (auto simp: code_ok_def recvLoop_code_def all_less_Suc_nat eval_nat_numeral moves_def exec_saw_none_def exec_owes_def)
        (auto simp: exec_work_def ct_active_def)
  next
    case Sender
    then show ?thesis
      by (auto simp: code_ok_def sendLoop_code_def all_less_Suc_nat eval_nat_numeral moves_def exec_saw_none_def exec_owes_def)
        (auto simp: exec_work_def ct_active_def)
  next
    case Executor
    then show ?thesis
      by (auto simp: code_ok_def execLoop_code_def all_less_Suc_nat eval_nat_numeral moves_def exec_saw_none_def exec_owes_def
          dest!: execute_packet_work) (auto simp: exec_work_def ct_active_def nothing_to_execute_def has_outgoing_def)
  next
    case (Caller i)
    have "instr_ok Exec_monitor (\<lambda>_. exec_work) t (exec_inside t) (exec_saw_none t) (exec_owes t) p (sendPacket_code q ! (p mod 4))" for p q
      using mod4_cases [of p] by cases (auto simp: Caller sendPacket_code_def moves_def exec_saw_none_def exec_owes_def)
    then show ?thesis using Caller by (auto simp: code_ok_def caller_instr exec_saw_none_def)
  next
    case Closer
    then show ?thesis
      by (auto simp: code_ok_def close_code_def all_less_Suc_nat eval_nat_numeral moves_def exec_saw_none_def exec_owes_def)
  qed
qed

definition send_work :: "('w, 'q, 'p) client_threads \<Rightarrow> bool" where
  "send_work s \<longleftrightarrow> (case cl_connection (ct_client s) of None \<Rightarrow> False | Some con \<Rightarrow> con_sendPackets con \<noteq> [])"

fun send_inside :: "client_thread \<Rightarrow> nat \<Rightarrow> bool" where
  "send_inside Sender p \<longleftrightarrow> p \<in> {2, 3, 4, 5, 6}"
| "send_inside (Caller i) p \<longleftrightarrow> p mod 4 \<noteq> 0"
| "send_inside Executor p \<longleftrightarrow> p \<in> {8, 9, 10}"
| "send_inside t p \<longleftrightarrow> False"

definition send_saw_none :: "client_thread \<Rightarrow> nat \<Rightarrow> bool" where
  "send_saw_none t p \<longleftrightarrow> t = Sender \<and> p = 3"

fun send_owes :: "client_thread \<Rightarrow> nat \<Rightarrow> bool" where
  "send_owes (Caller i) p \<longleftrightarrow> p mod 4 = 2"
| "send_owes Executor p \<longleftrightarrow> p = 9"
| "send_owes t p \<longleftrightarrow> False"

lemma send_owesD: "send_owes t p \<Longrightarrow> t = Executor \<and> p = 9 \<or> (\<exists>i. t = Caller i \<and> p mod 4 = 2)"
  by (cases t) auto

lemma connection_acts:
  "cl_connection (ct_client (snd (stop_client s))) = cl_connection (ct_client s)"
  "cl_connection (ct_client (snd (receive_packet rd h address s))) = cl_connection (ct_client s)"
  "cl_connection (ct_client (snd (queue_packet s))) = cl_connection (ct_client s)"
  "cl_connection (ct_client (snd (execute_packet run s))) = cl_connection (ct_client s)"
  "cl_connection (ct_client (snd (send_next sb writer s))) = cl_connection (ct_client s)"
  by (auto simp: stop_client_def on_client_def receive_packet_def queue_packet_def push_exec_def
      execute_packet_def pop_exec_def send_next_def Let_def split: option.splits prod.splits list.splits sum.splits arrival.splits)

lemma send_work_acts [simp]:
  "send_work (snd (stop_client s)) = send_work s" "send_work (snd (receive_packet rd h address s)) = send_work s"
  "send_work (snd (queue_packet s)) = send_work s"
  "send_work (snd (execute_packet run s)) = send_work s"
  "send_work (snd (send_next sb writer s)) = send_work s"
  "send_work (snd (ct_active s)) = send_work s" "send_work (snd (nothing_to_execute s)) = send_work s"
  "send_work (snd (has_outgoing s)) = send_work s"
  by (simp_all add: send_work_def connection_acts) (simp_all add: ct_active_def nothing_to_execute_def has_outgoing_def)

lemma poll_next_work: "send_work (snd (poll_next s)) \<Longrightarrow> send_work s"
  by (auto simp: send_work_def poll_next_def on_client_connection_def connection_defs Let_def
      split: option.splits prod.splits list.splits sum.splits if_splits)

lemma poll_next_none: "fst (poll_next s) \<Longrightarrow> \<not> send_work (snd (poll_next s))"
  by (auto simp: send_work_def poll_next_def on_client_connection_def connection_defs Let_def
      split: option.splits prod.splits list.splits sum.splits if_splits)

lemma end_connection_work: "\<not> send_work (snd (end_client_connection s))"
  by (auto simp: send_work_def end_client_connection_def on_client_def on_client_connection_def endConnection_def
      split: option.splits prod.splits)

lemma send_ok_receiver:
  "code_ok Send_monitor (\<lambda>_. send_work) Receiver (send_inside Receiver) (send_saw_none Receiver) (send_owes Receiver) (recvLoop_code rd h address)"
  by (auto simp: code_ok_def recvLoop_code_def all_less_Suc_nat eval_nat_numeral moves_def send_saw_none_def  end_connection_work)

lemma send_ok_sender:
  "code_ok Send_monitor (\<lambda>_. send_work) Sender (send_inside Sender) (send_saw_none Sender) (send_owes Sender) (sendLoop_code sb writer)"
  by (auto simp: code_ok_def sendLoop_code_def all_less_Suc_nat eval_nat_numeral moves_def send_saw_none_def  poll_next_none dest: poll_next_work)

lemma send_ok_executor:
  "code_ok Send_monitor (\<lambda>_. send_work) Executor (send_inside Executor) (send_saw_none Executor) (send_owes Executor) (execLoop_code run)"
  by (auto simp: code_ok_def execLoop_code_def all_less_Suc_nat eval_nat_numeral moves_def send_saw_none_def )

lemma send_ok_closer:
  "code_ok Send_monitor (\<lambda>_. send_work) Closer (send_inside Closer) (send_saw_none Closer) (send_owes Closer) close_code"
  by (auto simp: code_ok_def close_code_def all_less_Suc_nat eval_nat_numeral moves_def send_saw_none_def  end_connection_work)

lemma send_ok_caller:
  "code_ok Send_monitor (\<lambda>_. send_work) (Caller i) (send_inside (Caller i)) (send_saw_none (Caller i)) (send_owes (Caller i))
     (concat (map sendPacket_code ps))"
proof -
  have "instr_ok Send_monitor (\<lambda>_. send_work) (Caller i) (send_inside (Caller i)) (send_saw_none (Caller i)) (send_owes (Caller i)) p
      (sendPacket_code q ! (p mod 4))" for p q
    by (rule mod4_cases [of p]) (simp_all add: sendPacket_code_def moves_def send_saw_none_def )
  then show ?thesis by (auto simp: code_ok_def caller_instr send_saw_none_def)
qed

interpretation send_monitor:
  monitor_discipline "client_code rd h address run sendBytes writer calls" Send_monitor "\<lambda>_. send_work" send_inside send_saw_none send_owes
  for rd :: "'k \<Rightarrow> ('w \<times> bytebuffer option, 'q) sx" and h address and run :: "'q \<Rightarrow> ('w, 'p list) sx" and sendBytes
    and writer :: "'p \<Rightarrow> (bytebuffer option, unit) sx" and calls
proof (unfold_locales)
  fix t
  show "code_ok Send_monitor (\<lambda>_. send_work) t (send_inside t) (send_saw_none t) (send_owes t)
    (client_code rd h address run sendBytes writer calls t)"
    by (cases t) (simp_all only: client_code.simps send_ok_receiver send_ok_sender send_ok_executor send_ok_closer send_ok_caller)
qed

section \<open>Properties\<close>

text \<open>
  Property C5. No packet waits for a sleeping loop: whatever the threads of a client have done, and however
  they interleaved, if the executing loop sleeps while a packet is in its queue, the receiving
  thread is on its way to the notification; and if the sending loop sleeps while a packet waits
  on the connection, a caller of \<open>sendPacket\<close> is about to notify, another thread or the executing loop
  that is running a packet's action. No assumption is made on the packets,
  the program or the number of callers.
\<close>

theorem client_loops_are_woken:
  assumes "machine_reach (client_code rd h address run sendBytes writer calls) (threads_start arrivals cl) m"
    and "mc_error m = None"
  shows "(mc_activity m Executor = Asleep Exec_monitor \<and> cl_execQueue (ct_client (mc_shared m)) \<noteq> [] \<longrightarrow>
      mc_pc m Receiver \<in> {6, 7}) \<and>
    (mc_activity m Sender = Asleep Send_monitor \<and> send_work (mc_shared m) \<longrightarrow> 
      (\<exists>i. mc_pc m (Caller i) mod 4 = 2) \<or> mc_pc m Executor = 9)"
  using exec_monitor.no_lost_wakeup [OF assms, of Executor] send_monitor.no_lost_wakeup [OF assms, of Sender]
  by (fastforce simp: exec_work_def exec_owes_def dest: send_owesD)

text \<open>A client's connection has a socket and no poll set, from \<open>connect\<close> on.\<close>

definition plain_connection :: "('w, 'q, 'p) client_threads \<Rightarrow> bool" where
  "plain_connection s \<longleftrightarrow> (\<exists>con. cl_connection (ct_client s) = Some con \<and> \<not> con_hasPollset con)"

lemma plain_connection_acts [simp]:
  "plain_connection (snd (stop_client s)) = plain_connection s"
  "plain_connection (snd (receive_packet rd h address s)) = plain_connection s"
  "plain_connection (snd (queue_packet s)) = plain_connection s"
  "plain_connection (snd (execute_packet run s)) = plain_connection s"
  "plain_connection (snd (send_next sb writer s)) = plain_connection s"
  "plain_connection (snd (ct_active s)) = plain_connection s" "plain_connection (snd (nothing_to_execute s)) = plain_connection s"
  "plain_connection (snd (has_outgoing s)) = plain_connection s"
  by (simp_all add: plain_connection_def connection_acts) (simp_all add: ct_active_def nothing_to_execute_def has_outgoing_def)

lemma plain_connection_sends:
  "plain_connection s \<Longrightarrow> plain_connection (snd (on_client (client_sendPacket p) s))"
  "plain_connection s \<Longrightarrow> plain_connection (snd (poll_next s))"
  "plain_connection s \<Longrightarrow> plain_connection (snd (end_client_connection s))"
  by (auto simp: plain_connection_def on_client_def client_sendPacket_def poll_next_def end_client_connection_def on_client_connection_def
      connection_defs endConnection_def Let_def split: list.splits prod.splits sum.splits option.splits)

lemma plain_connection_outgoing: "plain_connection s \<Longrightarrow> plain_connection (snd (send_outgoing s))"
  using plain_connection_sends(1) [of "s\<lparr>ct_outbox := ps\<rparr>" p for ps p]
  by (auto simp: send_outgoing_def plain_connection_def split: list.split)

lemma plain_connection_kept:
  assumes "machine_reach (client_code rd h address run sendBytes writer calls) s m" and "plain_connection s"
  shows "plain_connection (mc_shared m)"
proof (rule shared_invariant [where P = plain_connection, OF assms])
  show "list_all (instr_keeps plain_connection) (client_code rd h address run sendBytes writer calls t)" for t
    by (cases t) (auto simp: recvLoop_code_def sendLoop_code_def execLoop_code_def close_code_def sendPacket_code_def list_all_iff
        plain_connection_sends plain_connection_outgoing)
qed

text \<open>
  The executing loop on its own. \<open>exec_ready m q qs w\<close>: the client is active, \<open>q\<close> is the first packet of its
  queue and \<open>w\<close> its world. From every point where the loop is not blocked it comes to the packet.
\<close>

definition exec_ready :: "(client_thread, client_monitor, ('w, 'q, 'p) client_threads) machine \<Rightarrow> 'q option \<Rightarrow> 'q option list \<Rightarrow> 'w \<Rightarrow> bool" where
  "exec_ready m q qs w \<longleftrightarrow> mc_error m = None \<and> cl_active (ct_client (mc_shared m)) \<and>
     cl_execQueue (ct_client (mc_shared m)) = q # qs \<and> cl_world (ct_client (mc_shared m)) = w \<and> plain_connection (mc_shared m)"

lemmas exec_eval = thread_step_def execLoop_code_def advance_def numeral_eq_Suc ct_active_def nothing_to_execute_def wait_step_def
  has_outgoing_def on_client_def client_sendPacket_def on_client_connection_def sendPacket_def update_poll_def
  sx_seq_def sx_bind_def sx_modify_def

lemma send_outgoing_plain:
  assumes "plain_connection s"
  shows "\<exists>s'. send_outgoing s = (Inr (), s') \<and> ct_outbox s' = tl (ct_outbox s) \<and> plain_connection s' \<and>
    cl_active (ct_client s') = cl_active (ct_client s) \<and> cl_execQueue (ct_client s') = cl_execQueue (ct_client s) \<and>
    cl_world (ct_client s') = cl_world (ct_client s)"
proof (cases "ct_outbox s")
  case (Cons p ps)
  then show ?thesis using assms
    by (auto simp: send_outgoing_def plain_connection_def on_client_def client_sendPacket_def on_client_connection_def sendPacket_def
        update_poll_def sx_seq_def sx_bind_def sx_modify_def)
qed (use assms in \<open>simp add: send_outgoing_def\<close>)

lemma exec_send_one:
  assumes "exec_ready m q qs w" and p: "mc_pc m Executor \<in> {7, 8, 9, 10, 11}"
    and "mc_pc m Executor = 7 \<Longrightarrow> mc_owner m Send_monitor = None"
    and "mc_pc m Executor = 11 \<Longrightarrow> mc_owner m Send_monitor = None"
  shows "\<exists>n m'. n \<le> 5 \<and> machine_run (client_code rd h address run sendBytes writer calls) (replicate n Executor) m = Some m' \<and>
    exec_ready m' q qs w \<and> mc_pc m' Executor = 6 \<and> mc_owner m' Send_monitor = None \<and>
    length (ct_outbox (mc_shared m')) \<le> length (ct_outbox (mc_shared m)) \<and>
    (mc_pc m Executor = 7 \<longrightarrow> ct_outbox (mc_shared m') = tl (ct_outbox (mc_shared m)))"
proof -
  have pl: "plain_connection (mc_shared m)" using assms(1) by (simp add: exec_ready_def)
  obtain s' where s': "send_outgoing (mc_shared m) = (Inr (), s')" "ct_outbox s' = tl (ct_outbox (mc_shared m))" "plain_connection s'"
    "cl_active (ct_client s') = cl_active (ct_client (mc_shared m))" "cl_execQueue (ct_client s') = cl_execQueue (ct_client (mc_shared m))"
    "cl_world (ct_client s') = cl_world (ct_client (mc_shared m))"
    using send_outgoing_plain [OF pl] by blast
  let ?n = "12 - mc_pc m Executor"
  have "\<exists>m'. machine_run (client_code rd h address run sendBytes writer calls) (replicate ?n Executor) m = Some m' \<and>
    exec_ready m' q qs w \<and> mc_pc m' Executor = 6 \<and> mc_owner m' Send_monitor = None \<and>
    length (ct_outbox (mc_shared m')) \<le> length (ct_outbox (mc_shared m)) \<and>
    (mc_pc m Executor = 7 \<longrightarrow> ct_outbox (mc_shared m') = tl (ct_outbox (mc_shared m)))"
    using assms s' by (elim insertE emptyE) (auto simp: exec_ready_def thread_step_def execLoop_code_def advance_def numeral_eq_Suc)
  moreover have "?n \<le> 5" using p by auto
  ultimately show ?thesis by blast
qed

lemma exec_flush:
  assumes "exec_ready m q qs w" and "mc_pc m Executor = 6" and "mc_owner m Send_monitor = None"
  shows "\<exists>n m'. n \<le> 6 * length (ct_outbox (mc_shared m)) \<and>
    machine_run (client_code rd h address run sendBytes writer calls) (replicate n Executor) m = Some m' \<and>
    exec_ready m' q qs w \<and> mc_pc m' Executor = 6 \<and> ct_outbox (mc_shared m') = []"
  using assms
proof (induction "ct_outbox (mc_shared m)" arbitrary: m)
  case Nil
  then show ?case by (intro exI [of _ 0] exI [of _ m]) simp
next
  case (Cons p ps)
  let ?code = "client_code rd h address run sendBytes writer calls"
  obtain m1 where m1: "thread_step ?code Executor m = Some m1" "exec_ready m1 q qs w" "mc_pc m1 Executor = 7"
    "mc_owner m1 Send_monitor = None" "ct_outbox (mc_shared m1) = p # ps"
    using Cons.prems Cons.hyps(2) [symmetric] by (auto simp: exec_ready_def thread_step_def execLoop_code_def has_outgoing_def)
  obtain n2 m2 where m2: "n2 \<le> 5" "machine_run ?code (replicate n2 Executor) m1 = Some m2" "exec_ready m2 q qs w" "mc_pc m2 Executor = 6"
    "mc_owner m2 Send_monitor = None" "ct_outbox (mc_shared m2) = ps"
    using exec_send_one [OF m1(2), of rd h address run sendBytes writer calls] m1(3-5) by auto
  from Cons.hyps(1) [of m2] m2(3-6) obtain n3 m3 where m3: "n3 \<le> 6 * length ps" "machine_run ?code (replicate n3 Executor) m2 = Some m3"
    "exec_ready m3 q qs w" "mc_pc m3 Executor = 6" "ct_outbox (mc_shared m3) = []"
    by auto
  have "machine_run ?code (replicate (Suc n2 + n3) Executor) m = Some m3"
    using m1(1) m2(2) m3(2) by (simp add: replicate_add machine_run_append)
  then show ?case using m2(1) m3 Cons.hyps(2) [symmetric] by (intro exI [of _ "Suc n2 + n3"] exI [of _ m3]) simp
qed

lemma exec_approach:
  assumes "exec_ready m q qs w"
    and "mc_pc m Executor \<in> {0, 1, 2, 4, 5, 12, 13} \<or> mc_pc m Executor = 6 \<and> ct_outbox (mc_shared m) = [] \<or>
      mc_pc m Executor = 3 \<and> mc_activity m Executor = Notified Exec_monitor"
    and "mc_pc m Executor \<in> {0, 1, 3, 13} \<Longrightarrow> mc_owner m Exec_monitor = None"
  shows "\<exists>n m'. n \<le> 6 \<and> machine_run (client_code rd h address run sendBytes writer calls) (replicate n Executor) m = Some m' \<and>
    exec_ready m' q qs w \<and> mc_pc m' Executor = 5"
proof -
  let ?n = "([3, 2, 1, 3, 2, 0, 6, 0, 0, 0, 0, 0, 5, 4] :: nat list) ! mc_pc m Executor"
  have "\<exists>m'. machine_run (client_code rd h address run sendBytes writer calls) (replicate ?n Executor) m = Some m' \<and>
    exec_ready m' q qs w \<and> mc_pc m' Executor = 5"
    using assms
    by (auto simp: exec_ready_def thread_step_def execLoop_code_def ct_active_def nothing_to_execute_def has_outgoing_def
        advance_def wait_step_def numeral_eq_Suc)
  moreover have "?n \<le> 6" using assms(2) by auto
  ultimately show ?thesis by blast
qed

text \<open>What the action of the packet makes of the world, and the packets it sends.\<close>

definition packet_effect :: "('q \<Rightarrow> ('w, 'p list) sx) \<Rightarrow> 'q option \<Rightarrow> 'w \<Rightarrow> 'w \<Rightarrow> 'p list option \<Rightarrow> bool" where
  "packet_effect run q w w' sent \<longleftrightarrow>
     (case q of None \<Rightarrow> w' = w \<and> sent = None | Some p \<Rightarrow> (\<exists>ps. run p w = (Inr ps, w') \<and> sent = Some ps))"

lemma exec_execute:
  assumes "exec_ready m q qs w" and "packet_effect run q w w' sent" and "mc_pc m Executor = 5"
  shows "\<exists>m'. machine_run (client_code rd h address run sendBytes writer calls) [Executor] m = Some m' \<and>
    cl_execQueue (ct_client (mc_shared m')) = qs \<and> cl_world (ct_client (mc_shared m')) = w' \<and>
    (\<forall>ps. sent = Some ps \<longrightarrow> ct_outbox (mc_shared m') = ps)"
  using assms
  by (cases q) (auto simp: exec_ready_def packet_effect_def thread_step_def execLoop_code_def execute_packet_def pop_exec_def
      advance_def Let_def)

text \<open>The first packets of two runs of the same thread, one after the other.\<close>

lemma run_again:
  assumes "machine_run code (replicate n t) m = Some m1" and "machine_run code (replicate k t) m1 = Some m2"
  shows "machine_run code (replicate (n + k) t) m = Some m2"
  using assms by (simp add: replicate_add machine_run_append)

lemma exec_from_6:
  assumes "exec_ready m q qs w" and "mc_pc m Executor = 6" and "mc_owner m Send_monitor = None"
  shows "\<exists>n m'. n \<le> 6 * length (ct_outbox (mc_shared m)) + 6 \<and>
    machine_run (client_code rd h address run sendBytes writer calls) (replicate n Executor) m = Some m' \<and>
    exec_ready m' q qs w \<and> mc_pc m' Executor = 5"
proof -
  let ?code = "client_code rd h address run sendBytes writer calls"
  obtain n1 m1 where m1: "n1 \<le> 6 * length (ct_outbox (mc_shared m))" "machine_run ?code (replicate n1 Executor) m = Some m1"
    "exec_ready m1 q qs w" "mc_pc m1 Executor = 6" "ct_outbox (mc_shared m1) = []"
    using exec_flush [OF assms] by blast
  obtain n2 m2 where m2: "n2 \<le> 6" "machine_run ?code (replicate n2 Executor) m1 = Some m2" "exec_ready m2 q qs w" "mc_pc m2 Executor = 5"
    using exec_approach [OF m1(3), of rd h address run sendBytes writer calls] m1(4,5) by auto
  show ?thesis using run_again [OF m1(2) m2(2)] m1(1) m2 by (intro exI [of _ "n1 + n2"] exI [of _ m2]) simp
qed

text \<open>
  Property C20. The executing loop of an active client gets to the next packet by its own steps alone. If the
  client has not been closed, the loop neither sleeps nor has ended, and no other thread has one of the two mutexes, then
  at most 13 steps of the loop, and six more for each packet the action before has still to send,
  take the first packet off the queue and run its action. That it does not sleep on with a packet in
  the queue is the property above; once the client is closed the loop ends without running what is queued.
\<close>

theorem executor_gets_packet:
  assumes reach: "machine_reach (client_code rd h address run sendBytes writer calls) (threads_start arrivals cl) m"
    and con: "cl_connection cl = Some con" "\<not> con_hasPollset con"
    and err: "mc_error m = None" and awake: "mc_activity m Executor \<noteq> Asleep Exec_monitor"
    and going: "mc_pc m Executor < 14"
    and free: "mc_owner m Exec_monitor \<in> {None, Some Executor}" "mc_owner m Send_monitor \<in> {None, Some Executor}"
    and active: "cl_active (ct_client (mc_shared m))" and queue: "cl_execQueue (ct_client (mc_shared m)) = q # qs"
    and returns: "packet_effect run q (cl_world (ct_client (mc_shared m))) w sent"
  shows "\<exists>n m'. n \<le> 13 + 6 * length (ct_outbox (mc_shared m)) \<and>
    machine_run (client_code rd h address run sendBytes writer calls) (replicate n Executor) m = Some m' \<and>
    cl_execQueue (ct_client (mc_shared m')) = qs \<and> cl_world (ct_client (mc_shared m')) = w \<and>
    (\<forall>ps. sent = Some ps \<longrightarrow> ct_outbox (mc_shared m') = ps)"
proof -
  let ?code = "client_code rd h address run sendBytes writer calls" and ?p = "mc_pc m Executor"
  let ?k = "6 * length (ct_outbox (mc_shared m))"
  have "plain_connection (threads_start arrivals cl)" using con by (simp add: plain_connection_def threads_start_def)
  then have "plain_connection (mc_shared m)" by (rule plain_connection_kept [OF reach])
  then have ready: "exec_ready m q qs (cl_world (ct_client (mc_shared m)))" using err active queue by (simp add: exec_ready_def)
  have owner: "mc_owner m Exec_monitor = Some Executor \<longleftrightarrow> holds Exec_monitor (exec_inside Executor) Executor m"
    "mc_owner m Send_monitor = Some Executor \<longleftrightarrow> holds Send_monitor (send_inside Executor) Executor m"
    by (rule exec_monitor.owner_holds [OF reach err], rule send_monitor.owner_holds [OF reach err])
  have wait: "mc_activity m Executor = Notified Exec_monitor" if "?p = 3"
  proof -
    have a: "mc_activity m Executor \<in> {Running, Asleep Exec_monitor, Notified Exec_monitor}"
      by (rule exec_monitor.waiting_point [OF reach err]) (simp add: that execLoop_code_def)
    have "mc_activity m Executor \<noteq> Running"
    proof
      assume "mc_activity m Executor = Running"
      then have "\<not> exec_work (mc_shared m)"
        using exec_monitor.sees_no_work [OF reach err, of Executor] \<open>?p = 3\<close> by (simp add: exec_saw_none_def holds_def)
      then show False using queue by (simp add: exec_work_def)
    qed
    then show ?thesis using a awake by blast
  qed
  have ef: "mc_owner m Exec_monitor = None" if "?p \<in> {0, 1, 3, 13}" using free(1) owner(1) that wait by (auto simp: holds_def)
  have sf: "mc_owner m Send_monitor = None" if "?p \<in> {6, 7, 11}" using free(2) owner(2) that by (auto simp: holds_def)
  have "\<exists>n m1. n \<le> 12 + ?k \<and> machine_run ?code (replicate n Executor) m = Some m1 \<and>
      exec_ready m1 q qs (cl_world (ct_client (mc_shared m))) \<and> mc_pc m1 Executor = 5"
  proof -
    have "?p \<in> {0, 1, 2, 4, 5, 12, 13} \<or> ?p = 3 \<or> ?p = 6 \<or> ?p \<in> {7, 8, 9, 10, 11}" using going by (auto simp: eval_nat_numeral less_Suc_eq)
    then consider (outside) "?p \<in> {0, 1, 2, 4, 5, 12, 13} \<or> ?p = 3" | (flush) "?p = 6" | (sending) "?p \<in> {7, 8, 9, 10, 11}"
      by blast
    then show ?thesis
    proof cases
      case outside
      then have "?p \<in> {0, 1, 2, 4, 5, 12, 13} \<or> ?p = 6 \<and> ct_outbox (mc_shared m) = [] \<or>
          ?p = 3 \<and> mc_activity m Executor = Notified Exec_monitor" using wait by blast
      from exec_approach [OF ready this ef, of rd h address run sendBytes writer calls] obtain n m1 where
        "n \<le> 6" "machine_run ?code (replicate n Executor) m = Some m1"
        "exec_ready m1 q qs (cl_world (ct_client (mc_shared m)))" "mc_pc m1 Executor = 5" by blast
      then show ?thesis by (intro exI [of _ n] exI [of _ m1]) simp
    next
      case flush
      from exec_from_6 [OF ready flush sf, of rd h address run sendBytes writer calls] flush obtain n m1 where
        "n \<le> ?k + 6" "machine_run ?code (replicate n Executor) m = Some m1"
        "exec_ready m1 q qs (cl_world (ct_client (mc_shared m)))" "mc_pc m1 Executor = 5" by auto
      then show ?thesis by (intro exI [of _ n] exI [of _ m1]) simp
    next
      case sending
      from exec_send_one [OF ready sending, of rd h address run sendBytes writer calls] sf obtain n1 m1 where
        m1: "n1 \<le> 5" "machine_run ?code (replicate n1 Executor) m = Some m1"
        "exec_ready m1 q qs (cl_world (ct_client (mc_shared m)))" "mc_pc m1 Executor = 6" "mc_owner m1 Send_monitor = None"
        "length (ct_outbox (mc_shared m1)) \<le> length (ct_outbox (mc_shared m))" by auto
      from exec_from_6 [OF m1(3-5), of rd h address run sendBytes writer calls] obtain n2 m2 where
        m2: "n2 \<le> 6 * length (ct_outbox (mc_shared m1)) + 6" "machine_run ?code (replicate n2 Executor) m1 = Some m2"
        "exec_ready m2 q qs (cl_world (ct_client (mc_shared m)))" "mc_pc m2 Executor = 5" by blast
      show ?thesis using run_again [OF m1(2) m2(2)] m1(1,6) m2 by (intro exI [of _ "n1 + n2"] exI [of _ m2]) simp
    qed
  qed
  then obtain n m1 where m1: "n \<le> 12 + ?k" "machine_run ?code (replicate n Executor) m = Some m1"
    "exec_ready m1 q qs (cl_world (ct_client (mc_shared m)))" "mc_pc m1 Executor = 5" by blast
  obtain m2 where m2: "machine_run ?code [Executor] m1 = Some m2" "cl_execQueue (ct_client (mc_shared m2)) = qs"
    "cl_world (ct_client (mc_shared m2)) = w" "\<forall>ps. sent = Some ps \<longrightarrow> ct_outbox (mc_shared m2) = ps"
    using exec_execute [OF m1(3) returns m1(4)] by blast
  have "machine_run ?code (replicate (n + 1) Executor) m = Some m2"
    by (rule run_again [OF m1(2)]) (use m2(1) in simp)
  then show ?thesis using m1(1) m2 by (intro exI [of _ "n + 1"] exI [of _ m2]) simp
qed

text \<open>
  Closing can miss a loop: \<open>close\<close> clears the flag and notifies without the mutex, so its notifications
  can fall between the moment the executing loop has read the flag and the moment it sleeps. Then
  \<open>close\<close> has returned, the other loops have ended, and the executing loop sleeps where nothing will
  notify it: no thread can make a step.
\<close>

theorem close_misses_loop:
  assumes "cl_active cl" and "cl_connection cl = Some con" and "cl_execQueue cl = []"
  shows "\<exists>schedule m. machine_run (client_code rd h address run sendBytes writer (\<lambda>_. [])) schedule
      (machine_start (threads_start arrivals cl)) = Some m \<and>
    \<not> cl_active (ct_client (mc_shared m)) \<and> mc_error m = None \<and>
    thread_ended (client_code rd h address run sendBytes writer (\<lambda>_. [])) Closer m \<and>
    mc_activity m Executor = Asleep Exec_monitor \<and>
    (\<forall>t. thread_step (client_code rd h address run sendBytes writer (\<lambda>_. [])) t m = None)"
proof -
  let ?code = "client_code rd h address run sendBytes writer (\<lambda>_. [])"
  let ?schedule = "[Executor, Executor, Executor, Closer, Closer, Closer, Closer, Executor, Sender, Receiver, Receiver]"
  obtain m where m: "machine_run ?code ?schedule (machine_start (threads_start arrivals cl)) = Some m"
    "\<not> cl_active (ct_client (mc_shared m))" "mc_error m = None" "mc_activity m Executor = Asleep Exec_monitor"
    "mc_pc m = (\<lambda>_. 0)(Executor := 3, Closer := 4, Sender := 8, Receiver := 14)"
    using assms
    by (auto simp: thread_step_def execLoop_code_def close_code_def sendLoop_code_def recvLoop_code_def ct_active_def
        nothing_to_execute_def stop_client_def end_client_connection_def on_client_def on_client_connection_def
        advance_def wait_step_def machine_start_def threads_start_def notified_def numeral_eq_Suc fun_eq_iff)
  have "thread_step ?code t m = None" for t
    using m(4,5) by (cases t) (auto simp: thread_step_def execLoop_code_def close_code_def sendLoop_code_def recvLoop_code_def wait_step_def)
  then show ?thesis using m by (intro exI [of _ ?schedule] exI [of _ m]) (auto simp: thread_ended_def close_code_def)
qed

text \<open>
  Closing while a packet is being sent ends the program: the sending loop has taken the packet off
  the connection and \<open>close\<close> closes the socket before \<open>sendBytes\<close> is called. If \<open>sendBytes\<close> throws on
  a closed socket, the exception leaves the thread.
\<close>

theorem close_while_sending_ends_program:
  assumes "cl_active cl" and "cl_connection cl = Some con" and "con_sendPackets con = p # ps" and "con_socket con = Some fd"
    and "bb_ok (cl_sendBuffer cl)" and "sends_frame (writer p) f (bb_size (cl_sendBuffer cl))"
    and "\<forall>bs. sendBytes False bs = Inl Net_exception"
  shows "\<exists>m. machine_run (client_code rd h address run sendBytes writer calls)
      [Sender, Sender, Sender, Closer, Closer, Sender] (machine_start (threads_start arrivals cl)) = Some m \<and>
    mc_error m = Some Net_exception"
  using assms(1-4,7) sends_frame_written [OF assms(5,6)]
  by (simp add: thread_step_def sendLoop_code_def close_code_def ct_active_def poll_next_def send_next_def
      pollSendablePacket_def stop_client_def end_client_connection_def on_client_def on_client_connection_def endConnection_def
      advance_def machine_start_def threads_start_def Let_def)

section \<open>An example\<close>

text \<open>The client of shorts, with two packets to send; \<open>sendBytes\<close> throws on a closed socket.\<close>

definition short_send :: "bool \<Rightarrow> byte list \<Rightarrow> cpp_error + unit" where
  "short_send isOpen bs = (if isOpen then Inr () else Inl Net_exception)"

abbreviation short_code :: "(nat \<Rightarrow> 16 word list) \<Rightarrow> client_thread \<Rightarrow> (client_monitor, (16 word list, 16 word, 16 word) client_threads) instr list" where
  "short_code \<equiv> client_code (\<lambda>_. rp_readShort) short_handler ''10.0.0.1'' (\<lambda>s w. (Inr [s], w @ [s])) short_send
     (\<lambda>s. writePacket 1 (sp_writeShort s))"

lemma short_client_simps:
  "cl_active short_client" "cl_connection short_client = Some ((Connection_new 3)\<lparr>con_sendPackets := [4, 5]\<rparr>)"
  "cl_execQueue short_client = []" "bb_ok (cl_sendBuffer short_client)" "bb_size (cl_sendBuffer short_client) = 65535"
  by (simp_all add: short_client_def connect_def Client_new_def ByteBuffer_default_ok)

theorem close_while_sending_ends_program_witness:
  "\<exists>m. machine_run (short_code (\<lambda>_. [])) [Sender, Sender, Sender, Closer, Closer, Sender]
      (machine_start (threads_start [] short_client)) = Some m \<and> mc_error m = Some Net_exception"
  by (rule close_while_sending_ends_program [where p = 4 and ps = "[5]" and fd = 3 and f = "short_frame 4", OF short_client_simps(1,2)])
    (simp_all add: short_client_simps short_sends short_send_def Connection_new_def)

theorem close_misses_loop_witness:
  "\<exists>schedule m. machine_run (short_code (\<lambda>_. [])) schedule (machine_start (threads_start [] short_client)) = Some m \<and>
    mc_activity m Executor = Asleep Exec_monitor \<and> (\<forall>t. thread_step (short_code (\<lambda>_. [])) t m = None)"
  using close_misses_loop [OF short_client_simps(1-3)] by blast

text \<open>The executing loop asleep with nothing to execute, and the same loop with a packet queued.\<close>

theorem client_loops_are_woken_witness:
  "\<exists>m. machine_run (short_code (\<lambda>_. [])) (replicate 4 Executor) (machine_start (threads_start [] short_client)) = Some m \<and>
    mc_activity m Executor = Asleep Exec_monitor \<and>
    \<not> (cl_execQueue (ct_client (mc_shared m)) \<noteq> [] \<and> mc_pc m Receiver \<notin> {6, 7})"
proof -
  let ?start = "machine_start (threads_start [] short_client)"
  obtain m where m: "machine_run (short_code (\<lambda>_. [])) (replicate 4 Executor) ?start = Some m" "mc_error m = None"
    "mc_activity m Executor = Asleep Exec_monitor"
    by (auto simp: thread_step_def execLoop_code_def ct_active_def nothing_to_execute_def advance_def wait_step_def
        machine_start_def threads_start_def short_client_simps numeral_eq_Suc)
  from client_loops_are_woken [OF machine_run_reach [OF machine_reach.start m(1)] m(2)] m(1,3) show ?thesis by blast
qed

theorem executor_gets_packet_witness:
  "\<exists>n m. n \<le> 13 \<and> machine_run (short_code (\<lambda>_. [])) (replicate n Executor)
      (machine_start (threads_start [] (push_exec (Some 7) short_client))) = Some m \<and>
    cl_execQueue (ct_client (mc_shared m)) = [] \<and> cl_world (ct_client (mc_shared m)) = [7] \<and> ct_outbox (mc_shared m) = [7]"
proof -
  let ?cl = "push_exec (Some 7) short_client"
  let ?con = "(Connection_new 3)\<lparr>con_sendPackets := [4, 5 :: 16 word]\<rparr>"
  have con: "cl_connection ?cl = Some ?con" "\<not> con_hasPollset ?con"
    by (simp_all add: push_exec_def short_client_simps Connection_new_def)
  have "packet_effect (\<lambda>s w. (Inr [s], w @ [s])) (Some (7 :: 16 word)) [] [7] (Some [7])" by (simp add: packet_effect_def)
  moreover have "cl_world short_client = []" by (simp add: short_client_def connect_def Client_new_def)
  ultimately have "\<exists>n m. n \<le> 13 + 6 * length (ct_outbox (threads_start [] ?cl)) \<and>
      machine_run (short_code (\<lambda>_. [])) (replicate n Executor) (machine_start (threads_start [] ?cl)) = Some m \<and>
      cl_execQueue (ct_client (mc_shared m)) = [] \<and> cl_world (ct_client (mc_shared m)) = [7] \<and>
      (\<forall>ps. Some [7] = Some ps \<longrightarrow> ct_outbox (mc_shared m) = ps)"
    using executor_gets_packet [OF machine_reach.start con, where q = "Some 7" and qs = "[]" and w = "[7]" and sent = "Some [7]"
        and rd = "\<lambda>_. rp_readShort" and h = short_handler and address = "''10.0.0.1''" and run = "\<lambda>s w. (Inr [s], w @ [s])"
        and sendBytes = short_send and writer = "\<lambda>s. writePacket 1 (sp_writeShort s)" and calls = "\<lambda>_. []" and arrivals = "[]"]
    by (simp add: machine_start_def threads_start_def push_exec_def short_client_simps)
  then show ?thesis by (simp add: threads_start_def)
qed

end
