(* ===== verification/ClientProgress.thy ===== *)
theory ClientProgress
  imports ClientThreads
begin

text \<open>
  The threads of a client (\<open>ClientThreads\<close>) do not block each other: what it means that none of them
  can make a step. It rests on the two monitors' contract and on where the loops can be while the
  client is active.
\<close>

section \<open>The flag\<close>

abbreviation active :: "('w, 'q, 'p) client_threads \<Rightarrow> bool" where
  "active s \<equiv> cl_active (ct_client s)"

lemma active_acts [simp]:
  "active (snd (end_client_connection s)) = active s" "active (snd (receive_packet rd h address s)) = active s"
  "active (snd (queue_packet s)) = active s" "active (snd (execute_packet run s)) = active s"
  "active (snd (send_outgoing s)) = active s" "active (snd (has_outgoing s)) = active s"
  "active (snd (on_client (client_sendPacket p) s)) = active s"
  "active (snd (send_next sb writer s)) = active s" "active (snd (poll_next s)) = active s"
  "active (snd (ct_active s)) = active s" "active (snd (nothing_to_execute s)) = active s" "\<not> active (snd (stop_client s))"
  by (auto simp: stop_client_def end_client_connection_def on_client_def on_client_connection_def receive_packet_def queue_packet_def
      push_exec_def execute_packet_def pop_exec_def ct_active_def nothing_to_execute_def
      client_sendPacket_def send_outgoing_def has_outgoing_def send_next_def poll_next_def Let_def split: option.splits prod.splits list.splits sum.splits arrival.splits)

lemma never_reactivated:
  "list_all (instr_keeps (\<lambda>s. \<not> active s)) (client_code rd h address run sendBytes writer calls t)"
  by (cases t) (simp_all add: recvLoop_code_def sendLoop_code_def execLoop_code_def close_code_def list_all_iff sendPacket_code_def)

lemma loops_go_on:
  assumes "machine_reach (client_code rd h address run sendBytes writer calls) s m" and "active (mc_shared m)"
  shows "mc_pc m Receiver < 11" "mc_pc m Sender < 8" "mc_pc m Executor < 14"
  by (rule points_below [OF assms(1), where Q = active, OF never_reactivated _ _ assms(2)];
      simp add: recvLoop_code_def sendLoop_code_def execLoop_code_def all_less_Suc_nat eval_nat_numeral ct_active_def)+

lemma caller_bounded:
  assumes "machine_reach (client_code rd h address run sendBytes writer calls) s m"
  shows "mc_pc m (Caller i) \<le> 4 * length (calls i)"
proof -
  let ?n = "4 * length (calls i)"
  have stays: "instr_stays (\<lambda>_. True) {..?n} p (concat (map sendPacket_code (calls i)) ! p)" if "p < ?n" for p
  proof -
    have "instr_stays (\<lambda>_. True) {..?n} p (sendPacket_code q ! (p mod 4))" for q
      using that by (cases rule: mod4_cases [of p]) (simp_all add: sendPacket_code_def)
    then show ?thesis using that by (simp add: caller_instr length_sendPacket_blocks)
  qed
  have "list_all (instr_keeps (\<lambda>s. \<not> True)) (client_code rd h address run sendBytes writer calls u)" for u
    by (auto simp: list_all_iff) (metis instr_keeps.elims(3))
  from points_stay [OF assms this, where S = "{..?n}" and t = "Caller i"] show ?thesis
    using stays by (simp add: length_sendPacket_blocks) blast
qed

section \<open>Nothing is blocked\<close>

lemma receiver_blocked:
  assumes "thread_step (client_code rd h address run sendBytes writer calls) Receiver m = None" and "mc_error m = None"
    and "mc_pc m Receiver < 11"
  shows "mc_pc m Receiver = 1 \<and> ct_arrivals (mc_shared m) = [] \<or> mc_pc m Receiver = 4 \<and> mc_owner m Exec_monitor \<noteq> None"
proof -
  have "mc_pc m Receiver \<in> {0, 1, 2, 3, 4, 5, 6, 7, 8, 9, 10}" using assms(3) by (auto simp: eval_nat_numeral less_Suc_eq)
  then show ?thesis
    using thread_blocked [OF assms(1,2)] by (elim insertE emptyE) (auto simp: recvLoop_code_def)
qed

lemma executor_blocked:
  assumes "thread_step (client_code rd h address run sendBytes writer calls) Executor m = None" and "mc_error m = None"
    and "mc_pc m Executor < 14"
  shows "mc_pc m Executor = 1 \<and> mc_owner m Exec_monitor \<noteq> None \<or>
    mc_pc m Executor = 7 \<and> mc_owner m Send_monitor \<noteq> None \<or>
    mc_pc m Executor = 3 \<and> mc_activity m Executor \<noteq> Running \<and>
      (\<forall>l. mc_activity m Executor = Notified l \<longrightarrow> mc_owner m Exec_monitor \<noteq> None)"
proof -
  have "mc_pc m Executor \<in> {0, 1, 2, 3, 4, 5, 6, 7, 8, 9, 10, 11, 12, 13}" using assms(3) by (auto simp: eval_nat_numeral less_Suc_eq)
  then show ?thesis
    using thread_blocked [OF assms(1,2)] by (elim insertE emptyE) (auto simp: execLoop_code_def)
qed

lemma sender_blocked:
  assumes "thread_step (client_code rd h address run sendBytes writer calls) Sender m = None" and "mc_error m = None"
    and "mc_pc m Sender < 8"
  shows "mc_pc m Sender = 1 \<and> mc_owner m Send_monitor \<noteq> None \<or>
    mc_pc m Sender = 3 \<and> mc_activity m Sender \<noteq> Running \<and>
      (\<forall>l. mc_activity m Sender = Notified l \<longrightarrow> mc_owner m Send_monitor \<noteq> None)"
proof -
  have "mc_pc m Sender \<in> {0, 1, 2, 3, 4, 5, 6, 7}" using assms(3) by (auto simp: eval_nat_numeral less_Suc_eq)
  then show ?thesis
    using thread_blocked [OF assms(1,2)] by (elim insertE emptyE) (auto simp: sendLoop_code_def)
qed

lemma caller_blocked:
  assumes "thread_step (client_code rd h address run sendBytes writer calls) (Caller i) m = None" and "mc_error m = None"
    and "mc_pc m (Caller i) < 4 * length (calls i)"
  shows "mc_pc m (Caller i) mod 4 = 0 \<and> mc_owner m Send_monitor \<noteq> None"
proof -
  let ?p = "mc_pc m (Caller i)"
  have i: "client_code rd h address run sendBytes writer calls (Caller i) ! ?p = sendPacket_code (calls i ! (?p div 4)) ! (?p mod 4)"
    using assms(3) by (simp add: caller_instr length_sendPacket_blocks)
  show ?thesis
    by (cases rule: mod4_cases [of ?p])
      (use thread_blocked [OF assms(1,2)] assms(3) i in \<open>simp_all add: length_sendPacket_blocks sendPacket_code_def\<close>)
qed

text \<open>
  Property C15. A client does not deadlock, although the executing loop takes the mutex of the sending one while it
  holds its own, for the packets its actions send: if it is active and none of its loops and callers can make a step, they
  have nothing to do. The receiving loop waits for bytes, the executing loop sleeps with an empty
  queue, the sending loop sleeps with no packet on the connection, and every call of \<open>sendPacket\<close>
  has returned.
\<close>

theorem client_stops_only_when_idle:
  assumes reach: "machine_reach (client_code rd h address run sendBytes writer calls) (threads_start arrivals cl) m"
    and err: "mc_error m = None" and active: "cl_active (ct_client (mc_shared m))"
    and none: "\<forall>t. t \<noteq> Closer \<longrightarrow> thread_step (client_code rd h address run sendBytes writer calls) t m = None"
  shows "mc_pc m Receiver = 1 \<and> ct_arrivals (mc_shared m) = [] \<and>
    mc_activity m Executor = Asleep Exec_monitor \<and> cl_execQueue (ct_client (mc_shared m)) = [] \<and>
    mc_activity m Sender = Asleep Send_monitor \<and> \<not> send_work (mc_shared m) \<and>
    (\<forall>i. thread_ended (client_code rd h address run sendBytes writer calls) (Caller i) m)"
proof -
  note go = loops_go_on [OF reach active]
  note bR = receiver_blocked [OF none [rule_format] err go(1), simplified]
  note bE = executor_blocked [OF none [rule_format] err go(3), simplified]
  note bS = sender_blocked [OF none [rule_format] err go(2), simplified]
  note bC = caller_blocked [OF none [rule_format] err, simplified]
  have send: "mc_owner m Send_monitor = None"
  proof (rule ccontr)
    assume "mc_owner m Send_monitor \<noteq> None"
    then obtain t where "holds Send_monitor (send_inside t) t m"
      using send_monitor.owner_holds [OF reach err] by blast
    then have h: "send_inside t (mc_pc m t)" "mc_activity m t \<noteq> Asleep Send_monitor" "mc_activity m t \<noteq> Notified Send_monitor"
      by (auto simp: holds_def)
    have "mc_pc m Sender = 3 \<Longrightarrow> mc_activity m Sender \<in> {Running, Asleep Send_monitor, Notified Send_monitor}"
      by (rule send_monitor.waiting_point [OF reach err]) (simp add: sendLoop_code_def)
    moreover have "\<not> send_inside (Caller i) (mc_pc m (Caller i))" for i
      using bC [of i] caller_bounded [OF reach, of i] by (cases "mc_pc m (Caller i) < 4 * length (calls i)") auto
    ultimately show False using h bS bE by (cases t) auto
  qed
  have exec: "mc_owner m Exec_monitor = None"
  proof (rule ccontr)
    assume "mc_owner m Exec_monitor \<noteq> None"
    then obtain t where "holds Exec_monitor (exec_inside t) t m"
      using exec_monitor.owner_holds [OF reach err] by blast
    then have h: "exec_inside t (mc_pc m t)" "mc_activity m t \<noteq> Asleep Exec_monitor" "mc_activity m t \<noteq> Notified Exec_monitor"
      by (auto simp: holds_def)
    have "mc_pc m Executor = 3 \<Longrightarrow> mc_activity m Executor \<in> {Running, Asleep Exec_monitor, Notified Exec_monitor}"
      by (rule exec_monitor.waiting_point [OF reach err]) (simp add: execLoop_code_def)
    then show False using h bR bE send by (cases t) auto
  qed
  have ended: "mc_pc m (Caller i) = 4 * length (calls i)" for i
    using bC [of i] send caller_bounded [OF reach, of i] by (cases "mc_pc m (Caller i) < 4 * length (calls i)") auto
  have R: "mc_pc m Receiver = 1" "ct_arrivals (mc_shared m) = []" using bR exec by auto
  have E: "mc_activity m Executor = Asleep Exec_monitor"
    using exec_monitor.waiting_point [OF reach err, of Executor Exec_monitor] bE exec send by (auto simp: execLoop_code_def)
  have S: "mc_activity m Sender = Asleep Send_monitor"
    using send_monitor.waiting_point [OF reach err, of Sender Send_monitor] bS send by (auto simp: sendLoop_code_def)
  have "cl_execQueue (ct_client (mc_shared m)) = []"
    using exec_monitor.no_lost_wakeup [OF reach err E] R(1) by (auto simp: exec_work_def exec_owes_def)
  moreover have "\<not> send_work (mc_shared m)"
    using send_monitor.no_lost_wakeup [OF reach err S] bE exec send by (auto dest!: send_owesD simp: ended)
  ultimately show ?thesis using R E S ended by (simp add: thread_ended_def length_sendPacket_blocks)
qed

definition idle_client :: "(16 word list, 16 word, 16 word) client" where
  "idle_client = connect (Connection_new 3) (Client_new (\<lambda>_. 0) ''10.0.0.1'' 9000 [])"

text \<open>A client with nothing to send, after its loops have started.\<close>

theorem client_stops_only_when_idle_witness:
  "\<exists>m. machine_run (short_code (\<lambda>_. [])) (replicate 4 Executor @ replicate 4 Sender @ [Receiver])
      (machine_start (threads_start [] idle_client)) = Some m \<and>
    mc_activity m Executor = Asleep Exec_monitor \<and> mc_activity m Sender = Asleep Send_monitor \<and> \<not> send_work (mc_shared m)"
proof -
  let ?ts = "replicate 4 Executor @ replicate 4 Sender @ [Receiver]"
  obtain m where m: "machine_run (short_code (\<lambda>_. [])) ?ts (machine_start (threads_start [] idle_client)) = Some m" "mc_error m = None"
    "cl_active (ct_client (mc_shared m))" "ct_arrivals (mc_shared m) = []" "mc_pc m Receiver = 1" "mc_pc m Executor = 3" "mc_pc m Sender = 3"
    "mc_activity m Executor = Asleep Exec_monitor" "mc_activity m Sender = Asleep Send_monitor"
    by (auto simp: thread_step_def execLoop_code_def sendLoop_code_def recvLoop_code_def ct_active_def nothing_to_execute_def
        poll_next_def pollSendablePacket_def on_client_connection_def advance_def wait_step_def machine_start_def threads_start_def
        idle_client_def connect_def Client_new_def Connection_new_def update_poll_def sx_seq_def sx_bind_def sx_return_def
        numeral_eq_Suc)
  have "thread_step (short_code (\<lambda>_. [])) t m = None" if "t \<noteq> Closer" for t
    using that m by (cases t) (simp_all add: thread_step_def execLoop_code_def sendLoop_code_def recvLoop_code_def wait_step_def)
  with client_stops_only_when_idle [OF machine_run_reach [OF machine_reach.start m(1)] m(2,3)] m show ?thesis by blast
qed

end
