(* ===== verification/ServerThreads.thy ===== *)
theory ServerThreads
  imports Threads Selector
begin

text \<open>
  The waiting loops of a server, instruction by instruction: the workers of the pool
  (\<open>ReMoLON_Util/ThreadPool.h\<close>) and the loop of a selector thread (\<open>src/SelectorThread.cpp\<close>).

  The theories \<open>ThreadPool\<close> and \<open>Selector\<close> say what an operation does; here the steps of the threads
  that call them interleave, as for the client in \<open>ClientThreads\<close>. The two mutexes are not nested by
  the operations shown, so each monitor is a system of its own.
\<close>

section \<open>The pool\<close>

text \<open>
  \<open>Worker i\<close> is the thread of the \<open>i\<close>-th entry of \<open>_pool\<close>, \<open>Submitter j\<close> a call of \<open>executeTask\<close> and
  \<open>Stopper\<close> a call of \<open>shutDown\<close>. The local variable \<open>task\<close> of a worker is \<open>pt_task\<close>; \<open>pt_started\<close>
  lists the tasks whose \<open>run\<close> was called. A reading of the clock gives any time: the \<open>n\<close>-th one
  gives \<open>clock n\<close>.
\<close>

datatype pool_thread = Worker nat | Submitter nat | Stopper

record 't pool_threads =
  pt_pool :: "'t threadPool"
  pt_task :: "nat \<Rightarrow> 't option"
  pt_started :: "'t list"
  pt_readings :: nat

definition pool_start :: "'t threadPool \<Rightarrow> 't pool_threads" where
  "pool_start tp = \<lparr>pt_pool = tp, pt_task = (\<lambda>_. None), pt_started = [], pt_readings = 0\<rparr>"

text \<open>
  The structure a worker's pointer \<open>wt_\<close> points to belongs to the list: after \<open>_pool.clear ( )\<close> it is
  gone. The flags are tested from left to right, so it is not read once \<open>_active\<close> is false.
\<close>

definition worker_active :: "nat \<Rightarrow> 't pool_threads \<Rightarrow> bool" where
  "worker_active i s \<longleftrightarrow> tp_active (pt_pool s) \<and> i < length (tp_pool (pt_pool s)) \<and> wt_active (tp_pool (pt_pool s) ! i)"

definition take_next :: "nat \<Rightarrow> ('t pool_threads, unit) sx" where
  "take_next i s =
     (case pop_task (pt_pool s) of
        (task, tp) \<Rightarrow> (Inr (), s\<lparr>pt_pool := tp, pt_task := (pt_task s)(i := task)\<rparr>))"

definition run_task :: "(nat \<Rightarrow> int) \<Rightarrow> nat \<Rightarrow> ('t pool_threads, unit) sx" where
  "run_task clock i s =
     (case pt_task s i of
        None \<Rightarrow> (Inr (), s)
      | Some task \<Rightarrow>
          (let tp = pt_pool s in
           if length (tp_pool tp) \<le> i then (Inl (UB Dangling_pointer), s)
           else (Inr (), s\<lparr>pt_pool := tp\<lparr>tp_pool := (tp_pool tp)[i := (tp_pool tp ! i)\<lparr>wt_lastActiveTime := clock (pt_readings s)\<rparr>]\<rparr>,
                   pt_readings := Suc (pt_readings s), pt_started := pt_started s @ [task], pt_task := (pt_task s)(i := None)\<rparr>)))"

definition terminate_worker :: "nat \<Rightarrow> ('t pool_threads, unit) sx" where
  "terminate_worker i s =
     (if length (tp_pool (pt_pool s)) \<le> i then (Inl (UB Dangling_pointer), s)
      else (Inr (), s\<lparr>pt_pool := end_worker i (pt_pool s)\<rparr>))"

text \<open>The thread of a worker starts when \<open>createWorker\<close> has made its entry.\<close>

definition threadLoop_code :: "(nat \<Rightarrow> int) \<Rightarrow> nat \<Rightarrow> (unit, 't pool_threads) instr list" where
  "threadLoop_code clock i =
     [\<comment> \<open>0\<close> Await (\<lambda>s. i < length (tp_pool (pt_pool s))),
      \<comment> \<open>1\<close> Branch (\<lambda>s. (worker_active i s, s)) 10,
      \<comment> \<open>2\<close> Lock (),
      \<comment> \<open>3\<close> Branch (\<lambda>s. (worker_active i s \<and> tp_tasks (pt_pool s) = [], s)) 6,
      \<comment> \<open>4\<close> Wait (),
      \<comment> \<open>5\<close> Goto 3,
      \<comment> \<open>6\<close> Act (take_next i),
      \<comment> \<open>7\<close> Unlock (),
      \<comment> \<open>8\<close> Act (run_task clock i),
      \<comment> \<open>9\<close> Goto 1,
      \<comment> \<open>10\<close> Act (terminate_worker i)]"

definition submit :: "(nat \<Rightarrow> int) \<Rightarrow> 't \<Rightarrow> ('t pool_threads, unit) sx" where
  "submit clock task s =
     (case executeTask (clock (pt_readings s)) task (pt_pool s) of
        (r, tp) \<Rightarrow> (r, s\<lparr>pt_pool := tp, pt_readings := Suc (pt_readings s)\<rparr>))"

text \<open>\<open>executeTask\<close>: of a full queue the exception leaves the function, which gives the mutex back.\<close>

definition executeTask_code :: "(nat \<Rightarrow> int) \<Rightarrow> 't \<Rightarrow> (unit, 't pool_threads) instr list" where
  "executeTask_code clock task =
     [\<comment> \<open>0\<close> Lock (),
      \<comment> \<open>1\<close> Branch (\<lambda>s. (length (tp_tasks (pt_pool s)) < unat (tp_maxQueueSize (pt_pool s)), s)) 4,
      \<comment> \<open>2\<close> Act (submit clock task),
      \<comment> \<open>3\<close> Notify_all (),
      \<comment> \<open>4\<close> Unlock ()]"

text \<open>\<open>shutDown\<close>: no worker is joinable, so it waits for none.\<close>

definition shutDown_code :: "(unit, 't pool_threads) instr list" where
  "shutDown_code =
     [Act (\<lambda>s. (Inr (), s\<lparr>pt_pool := (pt_pool s)\<lparr>tp_active := False\<rparr>\<rparr>)),
      Notify_all (),
      Await (\<lambda>s. \<forall>wt\<in>set (tp_pool (pt_pool s)). wt_joinable wt \<longrightarrow> wt_terminated wt),
      Act (\<lambda>s. (Inr (), s\<lparr>pt_pool := (pt_pool s)\<lparr>tp_tasks := []\<rparr>\<rparr>)),
      Act (\<lambda>s. (Inr (), s\<lparr>pt_pool := (pt_pool s)\<lparr>tp_pool := []\<rparr>\<rparr>))]"

fun pool_code :: "(nat \<Rightarrow> int) \<Rightarrow> (nat \<Rightarrow> 't) \<Rightarrow> pool_thread \<Rightarrow> (unit, 't pool_threads) instr list" where
  "pool_code clock tasks (Worker i) = threadLoop_code clock i"
| "pool_code clock tasks (Submitter j) = executeTask_code clock (tasks j)"
| "pool_code clock tasks Stopper = shutDown_code"

section \<open>The pool's monitor keeps its contract\<close>

text \<open>A worker has to be woken when there is a task, and when it has been told to finish.\<close>

fun pool_work :: "pool_thread \<Rightarrow> 't pool_threads \<Rightarrow> bool" where
  "pool_work (Worker i) s \<longleftrightarrow>
     tp_tasks (pt_pool s) \<noteq> [] \<or> i < length (tp_pool (pt_pool s)) \<and> \<not> wt_active (tp_pool (pt_pool s) ! i)"
| "pool_work _ s \<longleftrightarrow> False"

fun pool_inside :: "pool_thread \<Rightarrow> nat \<Rightarrow> bool" where
  "pool_inside (Worker i) p \<longleftrightarrow> p \<in> {3, 4, 5, 6, 7}"
| "pool_inside (Submitter j) p \<longleftrightarrow> p \<in> {1, 2, 3, 4}"
| "pool_inside Stopper p \<longleftrightarrow> False"

fun pool_saw_none :: "pool_thread \<Rightarrow> nat \<Rightarrow> bool" where
  "pool_saw_none (Worker i) p \<longleftrightarrow> p = 4"
| "pool_saw_none _ p \<longleftrightarrow> False"

fun pool_owes :: "pool_thread \<Rightarrow> nat \<Rightarrow> bool" where
  "pool_owes (Submitter j) p \<longleftrightarrow> p = 3"
| "pool_owes _ p \<longleftrightarrow> False"

lemma pool_work_take: "pool_work u (snd (take_next i s)) \<Longrightarrow> pool_work u s"
  by (cases u) (auto simp: take_next_def pop_task_def split: list.splits if_splits)

lemma pool_work_run: "pool_work u (snd (run_task clock i s)) \<Longrightarrow> pool_work u s"
  by (cases u) (auto simp: run_task_def Let_def nth_list_update split: option.splits if_splits)

lemma pool_work_terminate: "pool_work u (snd (terminate_worker i s)) \<Longrightarrow> pool_work u s"
  by (cases u) (auto simp: terminate_worker_def end_worker_def nth_list_update split: if_splits)

lemma worker_ok: "code_ok () pool_work (Worker i) (pool_inside (Worker i)) (pool_saw_none (Worker i)) (pool_owes (Worker i))
    (threadLoop_code clock i)"
  by (auto simp: code_ok_def threadLoop_code_def all_less_Suc_nat eval_nat_numeral moves_def worker_active_def
      dest: pool_work_take pool_work_run pool_work_terminate)

lemma submitter_ok: "code_ok () pool_work (Submitter j) (pool_inside (Submitter j)) (pool_saw_none (Submitter j)) (pool_owes (Submitter j))
    (executeTask_code clock task)"
  by (auto simp: code_ok_def executeTask_code_def all_less_Suc_nat eval_nat_numeral moves_def)

lemma pool_work_stop:
  "pool_work u (s\<lparr>pt_pool := (pt_pool s)\<lparr>tp_active := False\<rparr>\<rparr>) = pool_work u s"
  "pool_work u (s\<lparr>pt_pool := (pt_pool s)\<lparr>tp_tasks := []\<rparr>\<rparr>) \<Longrightarrow> pool_work u s"
  "pool_work u (s\<lparr>pt_pool := (pt_pool s)\<lparr>tp_pool := []\<rparr>\<rparr>) \<Longrightarrow> pool_work u s"
  by (cases u; simp)+

lemma stopper_ok: "code_ok () pool_work Stopper (pool_inside Stopper) (pool_saw_none Stopper) (pool_owes Stopper) shutDown_code"
  by (auto simp: code_ok_def shutDown_code_def all_less_Suc_nat eval_nat_numeral moves_def pool_work_stop(1) dest: pool_work_stop(2,3))

interpretation pool_monitor:
  monitor_discipline "pool_code clock tasks" "()" pool_work pool_inside pool_saw_none pool_owes
  for clock :: "nat \<Rightarrow> int" and tasks :: "nat \<Rightarrow> 't"
proof unfold_locales
  fix t
  show "code_ok () pool_work t (pool_inside t) (pool_saw_none t) (pool_owes t) (pool_code clock tasks t)"
    by (cases t) (simp_all only: pool_code.simps worker_ok submitter_ok stopper_ok)
qed

section \<open>The selector's loop\<close>

text \<open>
  \<open>Loop\<close> is the thread of \<open>selectLoop\<close>, \<open>Adder j\<close> a call of \<open>addConnection\<close> and \<open>Ender\<close> one of
  \<open>shutDown\<close>. What each poll will report is a list the rounds take from: a poll that times out
  reports nothing. The mutex is held through the whole pass of the loop.
\<close>

datatype selector_thread = Loop | Adder nat | Ender

record ('w, 'q, 'p, 'ps) selector_threads =
  st_selector :: "('w, 'q, 'p, 'ps) selector"
  st_polls :: "(int \<times> poll_flag set \<times> arrival list) list list"

definition serve_round ::
  "('k, 'w, 'q, 'p) packet_env \<Rightarrow> 'ps poll_ops \<Rightarrow> (('w, 'q, 'p, 'ps) selector_threads, unit) sx" where
  "serve_round en po s =
     (case st_polls s of
        [] \<Rightarrow> (Inr (), s)
      | polled # rest \<Rightarrow>
          (case select_round en po polled (st_selector s) of
             (r, se) \<Rightarrow> (r, s\<lparr>st_selector := se, st_polls := rest\<rparr>)))"

definition selectLoop_code ::
  "('k, 'w, 'q, 'p) packet_env \<Rightarrow> 'ps poll_ops \<Rightarrow> (unit, ('w, 'q, 'p, 'ps) selector_threads) instr list" where
  "selectLoop_code en po =
     [\<comment> \<open>0\<close> Branch (\<lambda>s. (se_active (st_selector s), s)) 8,
      \<comment> \<open>1\<close> Lock (),
      \<comment> \<open>2\<close> Branch (\<lambda>s. (se_active (st_selector s) \<and> se_connections (st_selector s) = [], s)) 5,
      \<comment> \<open>3\<close> Wait (),
      \<comment> \<open>4\<close> Goto 2,
      \<comment> \<open>5\<close> Act (serve_round en po),
      \<comment> \<open>6\<close> Unlock (),
      \<comment> \<open>7\<close> Goto 0]"

definition add_connection ::
  "'ps poll_ops \<Rightarrow> 'p connection \<Rightarrow> (('w, 'q, 'p, 'ps) selector_threads, unit) sx" where
  "add_connection po con s =
     (case addConnection po con (st_selector s) of (r, se) \<Rightarrow> (map_sum id (\<lambda>_. ()) r, s\<lparr>st_selector := se\<rparr>))"

text \<open>A descriptor the thread has already is not added, and nobody is notified.\<close>

definition addConnection_code ::
  "'ps poll_ops \<Rightarrow> 'p connection \<Rightarrow> (unit, ('w, 'q, 'p, 'ps) selector_threads) instr list" where
  "addConnection_code po con =
     [\<comment> \<open>0\<close> Lock (),
      \<comment> \<open>1\<close> Branch (\<lambda>s. (um_find (se_connections (st_selector s)) (getSockFD con) = None, s)) 4,
      \<comment> \<open>2\<close> Act (add_connection po con),
      \<comment> \<open>3\<close> Notify_all (),
      \<comment> \<open>4\<close> Unlock ()]"

definition selectorShutDown_code :: "(unit, ('w, 'q, 'p, 'ps) selector_threads) instr list" where
  "selectorShutDown_code =
     [Act (\<lambda>s. (Inr (), s\<lparr>st_selector := selector_shutDown (st_selector s)\<rparr>)),
      Notify_all ()]"

fun selector_code ::
  "('k, 'w, 'q, 'p) packet_env \<Rightarrow> 'ps poll_ops \<Rightarrow> (nat \<Rightarrow> 'p connection) \<Rightarrow> selector_thread \<Rightarrow>
   (unit, ('w, 'q, 'p, 'ps) selector_threads) instr list" where
  "selector_code en po cons Loop = selectLoop_code en po"
| "selector_code en po cons (Adder j) = addConnection_code po (cons j)"
| "selector_code en po cons Ender = selectorShutDown_code"

definition selector_work :: "('w, 'q, 'p, 'ps) selector_threads \<Rightarrow> bool" where
  "selector_work s \<longleftrightarrow> se_connections (st_selector s) \<noteq> []"

fun selector_inside :: "selector_thread \<Rightarrow> nat \<Rightarrow> bool" where
  "selector_inside Loop p \<longleftrightarrow> p \<in> {2, 3, 4, 5, 6}"
| "selector_inside (Adder j) p \<longleftrightarrow> p \<in> {1, 2, 3, 4}"
| "selector_inside Ender p \<longleftrightarrow> False"

fun selector_saw_none :: "selector_thread \<Rightarrow> nat \<Rightarrow> bool" where
  "selector_saw_none Loop p \<longleftrightarrow> p = 3"
| "selector_saw_none _ p \<longleftrightarrow> False"

fun selector_owes :: "selector_thread \<Rightarrow> nat \<Rightarrow> bool" where
  "selector_owes (Adder j) p \<longleftrightarrow> p = 3"
| "selector_owes _ p \<longleftrightarrow> False"

lemma select_round_empty: "se_connections se = [] \<Longrightarrow> snd (select_round en po polled se) = se"
  by (cases polled) (auto simp: serve_socket_def on_connection_def)

lemma serve_round_work: "selector_work (snd (serve_round en po s)) \<Longrightarrow> selector_work s"
  using select_round_empty [of "st_selector s" en po]
  by (auto simp: selector_work_def serve_round_def split: list.splits prod.splits) (metis snd_conv)

lemma loop_ok: "code_ok () (\<lambda>_. selector_work) Loop (selector_inside Loop) (selector_saw_none Loop) (selector_owes Loop)
    (selectLoop_code en po)"
  by (auto simp: code_ok_def selectLoop_code_def all_less_Suc_nat eval_nat_numeral moves_def dest: serve_round_work)
    (auto simp: selector_work_def)

lemma adder_ok: "code_ok () (\<lambda>_. selector_work) (Adder j) (selector_inside (Adder j)) (selector_saw_none (Adder j)) (selector_owes (Adder j))
    (addConnection_code po con)"
  by (auto simp: code_ok_def addConnection_code_def all_less_Suc_nat eval_nat_numeral moves_def)

lemma ender_ok: "code_ok () (\<lambda>_. selector_work) Ender (selector_inside Ender) (selector_saw_none Ender) (selector_owes Ender)
    selectorShutDown_code"
  by (auto simp: code_ok_def selectorShutDown_code_def all_less_Suc_nat eval_nat_numeral moves_def selector_work_def selector_shutDown_def)

interpretation selector_monitor:
  monitor_discipline "selector_code en po cons" "()" "\<lambda>_. selector_work" selector_inside selector_saw_none selector_owes
  for en :: "('k, 'w, 'q, 'p) packet_env" and po :: "'ps poll_ops" and cons
proof unfold_locales
  fix t
  show "code_ok () (\<lambda>_. selector_work) t (selector_inside t) (selector_saw_none t) (selector_owes t) (selector_code en po cons t)"
    by (cases t) (simp_all only: selector_code.simps loop_ok adder_ok ender_ok)
qed

section \<open>Properties\<close>

lemma pool_stays_active:
  assumes "machine_reach (pool_code clock tasks) (pool_start tp) m" and "tp_active tp"
  shows "tp_active (pt_pool (mc_shared m)) \<or> 0 < mc_pc m Stopper"
  using assms(1)
proof (induction rule: machine_reach.induct)
  case start
  show ?case using assms(2) by (simp add: machine_start_def pool_start_def)
next
  case (step m t m')
  have s: "instr_step t (pool_code clock tasks t ! mc_pc m t) m = Some m'" and p: "mc_pc m t < length (pool_code clock tasks t)"
    using step.hyps(2) by (auto simp: thread_step_def split: if_splits)
  show ?case
  proof (cases "t = Stopper")
    case True
    have "mc_pc m Stopper \<in> {0, 1, 2, 3, 4}" using p True by (auto simp: shutDown_code_def)
    then have "mc_pc m' Stopper = Suc (mc_pc m Stopper)"
      using s True by (elim insertE emptyE) (auto simp: shutDown_code_def advance_def split: if_splits)
    then show ?thesis by simp
  next
    case False
    have "list_all (instr_keeps (\<lambda>s. tp_active (pt_pool s))) (pool_code clock tasks t)"
      using False
      by (cases t)
        (auto simp: threadLoop_code_def executeTask_code_def take_next_def pop_task_def run_task_def terminate_worker_def
          end_worker_def submit_def executeTask_def sx_seq_def sx_bind_def sx_modify_def push_task_def createWorker_def
          purgeIdleThreads_def Let_def split: list.splits option.splits prod.splits sum.splits if_splits)
    then have "instr_keeps (\<lambda>s. tp_active (pt_pool s)) (pool_code clock tasks t ! mc_pc m t)"
      using p by (simp add: list_all_length)
    from instr_step_shared [OF s this] step.IH thread_step_others [OF step.hyps(2), of Stopper] False
    show ?thesis by auto
  qed
next
  case (spurious m t)
  then show ?case by (simp add: wake_def)
qed

text \<open>
  Property C16. When a worker of the pool is left asleep. Whatever the threads of a pool have done, suppose a
  worker sleeps although a task is in the queue, or its own flag \<open>wt_->_active\<close> has been cleared by
  \<open>executeTask\<close>, or the flag \<open>_active\<close> of the pool has been cleared by \<open>shutDown\<close>. Then a call of
  \<open>executeTask\<close> is about to notify; the one other possibility is that \<open>shutDown\<close> has begun, the
  queue is empty and the worker has not been told by its own flag: that wakeup can be lost, because \<open>shutDown\<close> clears
  the flag and notifies without the mutex (\<open>shutDown_misses_worker\<close>).
\<close>

theorem pool_workers_are_woken:
  assumes "machine_reach (pool_code clock tasks) (pool_start tp) m" and "mc_error m = None" and "tp_active tp"
    and "mc_activity m (Worker i) = Asleep ()"
    and "tp_tasks (pt_pool (mc_shared m)) \<noteq> [] \<or> \<not> tp_active (pt_pool (mc_shared m)) \<or>
      i < length (tp_pool (pt_pool (mc_shared m))) \<and> \<not> wt_active (tp_pool (pt_pool (mc_shared m)) ! i)"
  shows "(\<exists>j. mc_pc m (Submitter j) = 3) \<or>
    0 < mc_pc m Stopper \<and> \<not> tp_active (pt_pool (mc_shared m)) \<and> tp_tasks (pt_pool (mc_shared m)) = [] \<and>
    (i < length (tp_pool (pt_pool (mc_shared m))) \<longrightarrow> wt_active (tp_pool (pt_pool (mc_shared m)) ! i))"
proof (cases "pool_work (Worker i) (mc_shared m)")
  case True
  from pool_monitor.no_lost_wakeup [OF assms(1,2,4) True] obtain u where "pool_owes u (mc_pc m u)" by blast
  then show ?thesis by (cases u) auto
next
  case False
  then show ?thesis using assms(5) pool_stays_active [OF assms(1,3)] by auto
qed

text \<open>Only \<open>executeTask\<close> and the second step of \<open>shutDown\<close> notify; a sleeping worker stays where it is.\<close>

fun notifies :: "('m, 's) instr \<Rightarrow> bool" where
  "notifies (Notify_all k) \<longleftrightarrow> True"
| "notifies _ \<longleftrightarrow> False"

lemma instr_quiet:
  "instr_step t i m = Some m' \<Longrightarrow> \<not> notifies i \<Longrightarrow> u \<noteq> t \<Longrightarrow> mc_activity m' u = mc_activity m u"
  by (cases i) (auto simp: advance_def wait_step_def split: if_splits prod.splits sum.splits activity.splits)

lemma worker_sleeps_on:
  fixes m :: "(pool_thread, unit, 'a pool_threads) machine"
  assumes "thread_step (pool_code clock tasks) t m = Some m'" and "t \<notin> range Submitter"
    and "mc_activity m (Worker i) = Asleep ()" and "mc_pc m (Worker i) = 4" and "2 \<le> mc_pc m Stopper"
  shows "mc_activity m' (Worker i) = Asleep () \<and> mc_pc m' (Worker i) = 4 \<and> 2 \<le> mc_pc m' Stopper"
proof (cases t)
  case (Worker k)
  have p: "mc_pc m (Worker k) < 11" and s: "instr_step (Worker k) (threadLoop_code clock k ! mc_pc m (Worker k)) m = Some m'"
    using assms(1) Worker by (auto simp: thread_step_def threadLoop_code_def split: if_splits)
  have other: "k \<noteq> i" using s assms(3,4) by (auto simp: threadLoop_code_def wait_step_def)
  have "\<not> notifies (threadLoop_code clock k ! mc_pc m (Worker k) :: (unit, 'a pool_threads) instr)"
    using p by (auto simp: threadLoop_code_def less_Suc_eq numeral_eq_Suc)
  then show ?thesis
    using instr_quiet [OF s] thread_step_others [OF assms(1)] assms(3-5) other by (simp add: Worker)
next
  case (Submitter j)
  then show ?thesis using assms(2) by simp
next
  case Stopper
  then have "mc_pc m Stopper \<in> {2, 3, 4}" and "instr_step Stopper (shutDown_code ! mc_pc m Stopper) m = Some m'"
    using assms(1,5) by (auto simp: thread_step_def shutDown_code_def split: if_splits)
  then show ?thesis using assms(3,4) by (auto simp: shutDown_code_def advance_def split: if_splits)
qed

lemma worker_sleeps_through:
  "machine_run (pool_code clock tasks) ts m = Some m' \<Longrightarrow> set ts \<inter> range Submitter = {} \<Longrightarrow>
     mc_activity m (Worker i) = Asleep () \<Longrightarrow> mc_pc m (Worker i) = 4 \<Longrightarrow> 2 \<le> mc_pc m Stopper \<Longrightarrow> mc_activity m' (Worker i) = Asleep () \<and> mc_pc m' (Worker i) = 4"
proof (induction ts arbitrary: m)
  case (Cons t ts)
  then obtain m1 where m1: "thread_step (pool_code clock tasks) t m = Some m1" "machine_run (pool_code clock tasks) ts m1 = Some m'"
    by (auto split: option.splits)
  then show ?case using Cons.IH [OF m1(2)] worker_sleeps_on [OF m1(1) _ Cons.prems(3-5)] Cons.prems(2) by simp
qed simp

text \<open>
  Property C32. \<open>shutDown\<close> of the pool loses a wakeup, because it clears the flag and notifies without the mutex: in
  whatever state a worker has looked at the flag and the queue and is about to wait, \<open>shutDown\<close> can begin, and the
  worker then goes to sleep after the notification. Whatever the other workers and the rest of \<open>shutDown\<close> do, it
  never runs again unless somebody submits another task (or the wait returns for no reason).
\<close>

theorem shutDown_misses_worker:
  assumes "mc_error m = None" and "mc_pc m (Worker i) = 4" and "mc_activity m (Worker i) = Running" and "mc_pc m Stopper = 0"
  shows "\<exists>m1. machine_run (pool_code clock tasks) [Stopper, Stopper, Worker i] m = Some m1 \<and>
    \<not> tp_active (pt_pool (mc_shared m1)) \<and> mc_activity m1 (Worker i) = Asleep () \<and>
    (\<forall>ts m2. machine_run (pool_code clock tasks) ts m1 = Some m2 \<and> set ts \<inter> range Submitter = {} \<longrightarrow>
       mc_activity m2 (Worker i) = Asleep () \<and> thread_step (pool_code clock tasks) (Worker i) m2 = None)"
proof -
  obtain m1 where m1: "machine_run (pool_code clock tasks) [Stopper, Stopper, Worker i] m = Some m1"
      "\<not> tp_active (pt_pool (mc_shared m1))" "mc_activity m1 (Worker i) = Asleep ()" "mc_pc m1 (Worker i) = 4" "2 \<le> mc_pc m1 Stopper"
    using assms
    by (simp add: thread_step_def threadLoop_code_def shutDown_code_def advance_def wait_step_def notified_def numeral_eq_Suc)
  show ?thesis
  proof (intro exI [of _ m1] conjI allI impI m1(1-3))
    fix ts m2
    assume ts: "machine_run (pool_code clock tasks) ts m1 = Some m2 \<and> set ts \<inter> range Submitter = {}"
    then have "mc_activity m2 (Worker i) = Asleep () \<and> mc_pc m2 (Worker i) = 4"
      using worker_sleeps_through [OF _ _ m1(3-5)] by blast
    then show "mc_activity m2 (Worker i) = Asleep ()" "thread_step (pool_code clock tasks) (Worker i) m2 = None"
      by (auto simp: thread_step_def threadLoop_code_def wait_step_def)
  qed
qed

text \<open>
  Shutting down frees what the workers still use: none of them is joinable, so \<open>shutDown\<close> waits for
  none and clears the list; a worker that then leaves its loop writes into its entry.
\<close>

theorem shutDown_frees_workers:
  assumes "0 < length (tp_pool tp)" and "\<forall>wt\<in>set (tp_pool tp). \<not> wt_joinable wt"
  shows "\<exists>m. machine_run (pool_code clock tasks) ([Worker 0] @ replicate 5 Stopper @ [Worker 0, Worker 0])
      (machine_start (pool_start tp)) = Some m \<and> mc_error m = Some (UB Dangling_pointer)"
  using assms
  by (simp add: thread_step_def threadLoop_code_def shutDown_code_def worker_active_def terminate_worker_def advance_def
      machine_start_def pool_start_def numeral_eq_Suc)

text \<open>
  No connection waits for a sleeping selector thread: if the loop sleeps while it owns a connection, a
  call of \<open>addConnection\<close> is about to notify.
\<close>

theorem selector_loop_is_woken:
  assumes "machine_reach (selector_code en po cons) s m" and "mc_error m = None"
    and "mc_activity m Loop = Asleep ()" and "se_connections (st_selector (mc_shared m)) \<noteq> []"
  shows "\<exists>j. mc_pc m (Adder j) = 3"
proof -
  have "selector_work (mc_shared m)" using assms(4) by (simp add: selector_work_def)
  from selector_monitor.no_lost_wakeup [OF assms(1-3) this] obtain u where "selector_owes u (mc_pc m u)" by blast
  then show ?thesis by (cases u) auto
qed

text \<open>
  Ending a selector thread can miss its loop, as \<open>close\<close> can for a client: with no connection the
  loop goes to sleep after \<open>shutDown\<close> has notified, and it and \<open>shutDown\<close> make no further step.
\<close>

theorem selector_shutDown_misses_loop:
  assumes "se_active (st_selector s)" and "se_connections (st_selector s) = []"
  shows "\<exists>m. machine_run (selector_code en po cons) [Loop, Loop, Loop, Ender, Ender, Loop] (machine_start s) = Some m \<and>
    \<not> se_active (st_selector (mc_shared m)) \<and> mc_activity m Loop = Asleep () \<and>
    thread_ended (selector_code en po cons) Ender m \<and> thread_step (selector_code en po cons) Loop m = None"
  using assms
  by (simp add: thread_step_def thread_ended_def selectLoop_code_def selectorShutDown_code_def selector_shutDown_def advance_def
      wait_step_def machine_start_def notified_def numeral_eq_Suc)

section \<open>An example\<close>

definition two_workers :: "nat threadPool" where
  "two_workers = ThreadPool_sized 0 2 4 1000 8"

lemma create_two: "create_workers 2 now tp = createWorker now (createWorker now tp)"
  by (simp add: numeral_2_eq_2)

lemma two_workers_simps:
  "length (tp_pool two_workers) = 2" "\<forall>wt\<in>set (tp_pool two_workers). \<not> wt_joinable wt" "tp_active two_workers"
  "tp_tasks two_workers = []" "\<forall>wt\<in>set (tp_pool two_workers). wt_active wt" "tp_maxQueueSize two_workers = 8"
  "tp_currentPoolSize two_workers = 2" "tp_minPoolSize two_workers = 2"
  by (simp_all add: two_workers_def ThreadPool_sized_def initializeThreadPool_def createWorker_def create_two)

theorem shutDown_frees_workers_witness:
  "\<exists>m. machine_run (pool_code (\<lambda>_. 0) id) ([Worker 0] @ replicate 5 Stopper @ [Worker 0, Worker 0])
      (machine_start (pool_start two_workers)) = Some m \<and> mc_error m = Some (UB Dangling_pointer)"
  by (rule shutDown_frees_workers) (simp_all add: two_workers_simps)

lemma short_selector_start: "se_active short_selector" "se_connections short_selector = []"
  by (simp_all add: short_selector_def SelectorThread_new_def)

theorem selector_shutDown_misses_loop_witness:
  "\<exists>m. machine_run (selector_code short_env short_polls (\<lambda>j. Connection_new (int j))) [Loop, Loop, Loop, Ender, Ender, Loop]
      (machine_start \<lparr>st_selector = short_selector, st_polls = []\<rparr>) = Some m \<and>
    mc_activity m Loop = Asleep () \<and> thread_step (selector_code short_env short_polls (\<lambda>j. Connection_new (int j))) Loop m = None"
proof -
  let ?s = "\<lparr>st_selector = short_selector, st_polls = []\<rparr>"
  have "se_active (st_selector ?s)" "se_connections (st_selector ?s) = []" by (simp_all add: short_selector_start)
  from selector_shutDown_misses_loop [OF this] show ?thesis by blast
qed

theorem selector_loop_is_woken_witness:
  "\<exists>m. machine_run (selector_code short_env short_polls (\<lambda>j. Connection_new (int j)))
      [Loop, Loop, Loop, Loop, Adder 5, Adder 5, Adder 5] (machine_start \<lparr>st_selector = short_selector, st_polls = []\<rparr>) = Some m \<and>
    mc_activity m Loop = Asleep () \<and> (\<exists>j. mc_pc m (Adder j) = 3)"
proof -
  let ?s = "\<lparr>st_selector = short_selector, st_polls = []\<rparr>"
  have "\<exists>m. machine_run (selector_code short_env short_polls (\<lambda>j. Connection_new (int j)))
      [Loop, Loop, Loop, Loop, Adder 5, Adder 5, Adder 5] (machine_start ?s) = Some m \<and> mc_error m = None \<and>
    mc_activity m Loop = Asleep () \<and> se_connections (st_selector (mc_shared m)) \<noteq> []"
    by (simp add: thread_step_def selectLoop_code_def addConnection_code_def add_connection_def addConnection_new advance_def
        wait_step_def machine_start_def short_selector_start um_set_def)
  then obtain m where m: "machine_run (selector_code short_env short_polls (\<lambda>j. Connection_new (int j)))
      [Loop, Loop, Loop, Loop, Adder 5, Adder 5, Adder 5] (machine_start ?s) = Some m" "mc_error m = None"
    "mc_activity m Loop = Asleep ()" "se_connections (st_selector (mc_shared m)) \<noteq> []" by blast
  from selector_loop_is_woken [OF machine_run_reach [OF machine_reach.start m(1)] m(2-4)] m show ?thesis by blast
qed

text \<open>A worker asleep while a task has been queued by a call that has yet to notify.\<close>

theorem pool_workers_are_woken_witness:
  "\<exists>m. machine_run (pool_code (\<lambda>_. 0) id) [Worker 1, Worker 1, Worker 1, Worker 1, Worker 1, Submitter 7, Submitter 7, Submitter 7]
      (machine_start (pool_start two_workers)) = Some m \<and>
    mc_activity m (Worker 1) = Asleep () \<and> tp_tasks (pt_pool (mc_shared m)) = [7] \<and> (\<exists>j. mc_pc m (Submitter j) = 3)"
proof -
  have "\<exists>m. machine_run (pool_code (\<lambda>_. 0) id) [Worker 1, Worker 1, Worker 1, Worker 1, Worker 1, Submitter 7, Submitter 7, Submitter 7]
      (machine_start (pool_start two_workers)) = Some m \<and> mc_error m = None \<and>
    mc_activity m (Worker 1) = Asleep () \<and> tp_tasks (pt_pool (mc_shared m)) = [7]"
    by (simp add: thread_step_def threadLoop_code_def executeTask_code_def submit_def executeTask_plain worker_active_def advance_def
        wait_step_def machine_start_def pool_start_def push_task_def two_workers_simps)
  then obtain m where m: "machine_run (pool_code (\<lambda>_. 0) id) [Worker 1, Worker 1, Worker 1, Worker 1, Worker 1, Submitter 7, Submitter 7, Submitter 7]
      (machine_start (pool_start two_workers)) = Some m" "mc_error m = None"
    "mc_activity m (Worker 1) = Asleep ()" "tp_tasks (pt_pool (mc_shared m)) = [7]" by blast
  have "tp_tasks (pt_pool (mc_shared m)) \<noteq> [] \<or> \<not> tp_active (pt_pool (mc_shared m)) \<or>
      1 < length (tp_pool (pt_pool (mc_shared m))) \<and> \<not> wt_active (tp_pool (pt_pool (mc_shared m)) ! 1)" using m(4) by simp
  from pool_workers_are_woken [OF machine_run_reach [OF machine_reach.start m(1)] m(2) two_workers_simps(3) m(3) this] m
  show ?thesis by (intro exI [of _ m]) auto
qed

theorem shutDown_misses_worker_witness:
  "\<exists>m m1. machine_run (pool_code (\<lambda>_. 0) id) (replicate 4 (Worker 1)) (machine_start (pool_start two_workers)) = Some m \<and>
     machine_run (pool_code (\<lambda>_. 0) id) [Stopper, Stopper, Worker 1] m = Some m1 \<and>
     mc_activity m1 (Worker 1) = Asleep () \<and> thread_step (pool_code (\<lambda>_. 0) id) (Worker 1) m1 = None"
proof -
  obtain m where m: "machine_run (pool_code (\<lambda>_. 0) id) (replicate 4 (Worker 1)) (machine_start (pool_start two_workers)) = Some m"
    "mc_error m = None" "mc_pc m (Worker 1) = 4" "mc_activity m (Worker 1) = Running" "mc_pc m Stopper = 0"
    by (simp add: thread_step_def threadLoop_code_def worker_active_def advance_def machine_start_def pool_start_def two_workers_simps
        numeral_eq_Suc)
  obtain m1 where m1: "machine_run (pool_code (\<lambda>_. 0) id) [Stopper, Stopper, Worker 1] m = Some m1"
    "mc_activity m1 (Worker 1) = Asleep ()"
    "\<forall>ts m2. machine_run (pool_code (\<lambda>_. 0) id) ts m1 = Some m2 \<and> set ts \<inter> range Submitter = {} \<longrightarrow>
       mc_activity m2 (Worker 1) = Asleep () \<and> thread_step (pool_code (\<lambda>_. 0) id) (Worker 1) m2 = None"
    using shutDown_misses_worker [OF m(2-5), where clock = "\<lambda>_. 0" and tasks = id] by (elim exE conjE) (rule that)
  have "thread_step (pool_code (\<lambda>_. 0) id) (Worker 1) m1 = None"
    using spec [OF spec [OF m1(3), of "[]"], of m1] by simp
  then show ?thesis using m(1) m1 by blast
qed

end
