(* ===== verification/CreateThreads.thy ===== *)
theory CreateThreads
  imports Threads SessionTracker
begin

text \<open>
  Requests that create sessions at the same time: \<open>SessionTracker::tryCreateSession\<close> of
  \<open>ReMoLON_FrontEnd/src/SessionTracker.cpp\<close>, run by several threads of the web server.

  \<open>SessionTracker\<close> says what a call does by itself; here the steps of any number of calls
  interleave. Each call holds the mutex of its \<open>User\<close> object, of which there is one for every
  address that is logged in. Choosing a node and reserving a slot are steps of their own:
  \<open>findBestNode\<close> takes no mutex, and \<open>tryReserveSlot\<close> the one of the node, for itself.
\<close>

section \<open>A call, instruction by instruction\<close>

text \<open>The local variables of a call: \<open>node\<close>, \<open>slotReserved\<close> with \<open>choosenPort\<close>, and its result.\<close>

record create_locals =
  lc_node :: "string option"
  lc_slot :: "(string \<times> 32 word) option"
  lc_result :: "SessionCreationResult option"

record 'c create_threads =
  cr_frontend :: "'c frontend"
  cr_users :: "string \<Rightarrow> user"
  cr_locals :: "nat \<Rightarrow> create_locals"

definition create_start :: "'c frontend \<Rightarrow> (string \<Rightarrow> user) \<Rightarrow> 'c create_threads" where
  "create_start fe users =
     \<lparr>cr_frontend = fe, cr_users = users, cr_locals = (\<lambda>_. \<lparr>lc_node = None, lc_slot = None, lc_result = None\<rparr>)\<rparr>"

definition set_local :: "nat \<Rightarrow> (create_locals \<Rightarrow> create_locals) \<Rightarrow> 'c create_threads \<Rightarrow> 'c create_threads" where
  "set_local t f s = s\<lparr>cr_locals := (cr_locals s)(t := f (cr_locals s t))\<rparr>"

definition return_result :: "SessionCreationResult \<Rightarrow> nat \<Rightarrow> ('c create_threads, unit) sx" where
  "return_result r t s = (Inr (), set_local t (lc_result_update (\<lambda>_. Some r)) s)"

definition is_new_name :: "string \<Rightarrow> string \<Rightarrow> 'c create_threads \<Rightarrow> bool \<times> 'c create_threads" where
  "is_new_name address sessionName s =
     (getSessionInfo (cr_users s address) sessionName (fe_tracker (cr_frontend s)) = None, s)"

definition choose_node :: "nat \<Rightarrow> ('c create_threads, unit) sx" where
  "choose_node t s = (Inr (), set_local t (lc_node_update (\<lambda>_. findBestNode (fe_nodes (cr_frontend s)))) s)"

definition reserve_slot :: "nat \<Rightarrow> ('c create_threads, unit) sx" where
  "reserve_slot t s =
     (case lc_node (cr_locals s t) of
        None \<Rightarrow> (Inl (UB Null_deref), s)
      | Some node \<Rightarrow>
          (case getNode node (fe_nodes (cr_frontend s)) of
             None \<Rightarrow> (Inl (UB Dangling_pointer), s)
           | Some n \<Rightarrow>
               (case tryReserveSlot n of
                  (port, n') \<Rightarrow>
                    (Inr (), set_local t (lc_slot_update (\<lambda>_. map_option (Pair node) port))
                       (s\<lparr>cr_frontend := (cr_frontend s)\<lparr>fe_nodes := put_node node n' (fe_nodes (cr_frontend s))\<rparr>\<rparr>)))))"

text \<open>What follows the loop: the session is entered, the start request sent, the user updated.\<close>

definition open_session :: "32 word \<Rightarrow> string \<Rightarrow> string \<Rightarrow> nat \<Rightarrow> ('c create_threads, unit) sx" where
  "open_session junk userAddress sessionName t s =
     (case lc_slot (cr_locals s t) of
        None \<Rightarrow> (Inl (UB Null_deref), s)
      | Some (node, choosenPort) \<Rightarrow>
          (let fe = cr_frontend s;
               u = cr_users s userAddress;
               l = (case tracked (getUserName u) (fe_tracker fe) of None \<Rightarrow> [] | Some l \<Rightarrow> l);
               (address, publicAddress) = node_addresses node (fe_nodes fe);
               info = created_info junk u sessionName address publicAddress choosenPort;
               fe1 = fe\<lparr>fe_tracker := put_tracked (getUserName u) (um_set sessionName info l) (fe_tracker fe)\<rparr>;
               fe2 = send_to_node node (StartRequest (RequestStartStreamingSession u sessionName choosenPort)) fe1
           in return_result CREATION_OK t
                (s\<lparr>cr_frontend := fe2, cr_users := (cr_users s)(userAddress := addSession sessionName address u)\<rparr>)))"

text \<open>
  The counter of attempts is never changed, so it is 0 where the condition of the loop reads it.
  The function returns at the points 8, 10 and 12, where the lock is given back.
\<close>

definition tryCreateSession_code ::
  "32 word \<Rightarrow> nat \<Rightarrow> string \<times> string \<Rightarrow> (string, 'c create_threads) instr list" where
  "tryCreateSession_code junk t request =
     (case request of (address, sessionName) \<Rightarrow>
       [\<comment> \<open>0\<close> Lock address,
        \<comment> \<open>1\<close> Branch (is_new_name address sessionName) 11,
        \<comment> \<open>2\<close> Act (choose_node t),
        \<comment> \<open>3\<close> Branch (\<lambda>s. (lc_node (cr_locals s t) \<noteq> None, s)) 9,
        \<comment> \<open>4\<close> Act (reserve_slot t),
        \<comment> \<open>5\<close> Branch (\<lambda>s. (lc_slot (cr_locals s t) = None \<and> 0 < maxAttempts, s)) 7,
        \<comment> \<open>6\<close> Goto 2,
        \<comment> \<open>7\<close> Act (open_session junk address sessionName t),
        \<comment> \<open>8\<close> Goto 12,
        \<comment> \<open>9\<close> Act (return_result CREATION_FAIL_NO_AVAILABLE_NODES t),
        \<comment> \<open>10\<close> Goto 12,
        \<comment> \<open>11\<close> Act (return_result CREATION_FAIL_DUPLICATE_NAME t),
        \<comment> \<open>12\<close> Unlock address])"

definition create_code ::
  "32 word \<Rightarrow> (nat \<Rightarrow> string \<times> string) \<Rightarrow> nat \<Rightarrow> (string, 'c create_threads) instr list" where
  "create_code junk requests t = tryCreateSession_code junk t (requests t)"

section \<open>The lock of a user\<close>

text \<open>Nobody waits on it, so there is no work; what counts is that two calls never hold it at once.\<close>

definition create_inside :: "(nat \<Rightarrow> string \<times> string) \<Rightarrow> string \<Rightarrow> nat \<Rightarrow> nat \<Rightarrow> bool" where
  "create_inside requests address t p \<longleftrightarrow> fst (requests t) = address \<and> 1 \<le> p \<and> p \<le> 12"

interpretation user_lock:
  monitor_discipline "create_code junk requests" address "\<lambda>_ _. False" "create_inside requests address" "\<lambda>_ _. False" "\<lambda>_ _. False"
  for junk requests address
proof unfold_locales
  fix t
  obtain a n where r: "requests t = (a, n)" by (cases "requests t")
  show "code_ok address (\<lambda>_ _. False) t (create_inside requests address t) (\<lambda>_. False) (\<lambda>_. False)
    (create_code junk requests t)"
    by (auto simp: code_ok_def create_code_def tryCreateSession_code_def r create_inside_def all_less_Suc_nat eval_nat_numeral
        moves_def)
qed

section \<open>Reserved slots\<close>

definition slots_ok :: "'c create_threads \<Rightarrow> bool" where
  "slots_ok s \<longleftrightarrow> nodes_ok (fe_nodes (cr_frontend s)) \<and>
     (\<forall>t a p. lc_slot (cr_locals s t) = Some (a, p) \<longrightarrow> slot_taken (fe_nodes (cr_frontend s)) a p) \<and>
     (\<forall>t u. t \<noteq> u \<longrightarrow> lc_slot (cr_locals s t) = lc_slot (cr_locals s u) \<longrightarrow> lc_slot (cr_locals s t) = None)"

lemma slots_ok_same:
  "slots_ok s \<Longrightarrow> fe_nodes (cr_frontend s') = fe_nodes (cr_frontend s) \<Longrightarrow>
     (\<And>t. lc_slot (cr_locals s' t) = lc_slot (cr_locals s t)) \<Longrightarrow> slots_ok s'"
  by (simp add: slots_ok_def)

lemma slots_ok_reserve: "slots_ok s \<Longrightarrow> slots_ok (snd (reserve_slot t s))"
proof -
  assume ok: "slots_ok s"
  let ?nodes = "fe_nodes (cr_frontend s)"
  show ?thesis
  proof (cases "\<exists>a n. lc_node (cr_locals s t) = Some a \<and> getNode a ?nodes = Some n")
    case False
    then show ?thesis using ok by (auto simp: reserve_slot_def split: option.splits)
  next
    case True
    then obtain a n where n: "lc_node (cr_locals s t) = Some a" "getNode a ?nodes = Some n" by blast
    have inv: "vn_inv n" "vn_address n = a" using ok n(2) by (auto simp: slots_ok_def nodes_ok_def)
    from tryReserveSlot_cases [OF inv(1)] show ?thesis
    proof (elim disjE exE conjE)
      assume "tryReserveSlot n = (None, n)"
      then show ?thesis using ok n
        by (auto simp: reserve_slot_def slots_ok_def set_local_def put_node_same)
    next
      fix port n'
      assume r: "tryReserveSlot n = (Some port, n')" "um_find (vn_slotTracker n) port = Some False"
        "vn_slotTracker n' = um_set port True (vn_slotTracker n)" "vn_inv n'" "vn_address n' = vn_address n"
      have free: "\<not> slot_taken ?nodes a port" using n r(2) by (simp add: slot_taken_def)
      have "nodes_ok (put_node a n' ?nodes)" using ok r inv by (simp add: slots_ok_def nodes_ok_put)
      then show ?thesis
        using ok n r(1) free slot_taken_reserve [OF n(2) r(3)]
        by (auto simp: reserve_slot_def slots_ok_def set_local_def)
    qed
  qed
qed

lemma slots_ok_keeps: "list_all (instr_keeps slots_ok) (create_code junk requests t)"
proof -
  obtain a n where r: "requests t = (a, n)" by (cases "requests t")
  show ?thesis
    by (auto simp: create_code_def tryCreateSession_code_def r slots_ok_reserve choose_node_def return_result_def
        set_local_def is_new_name_def open_session_def send_to_node_def Let_def elim!: slots_ok_same
        split: option.splits prod.splits)
qed

text \<open>
  Property C4. However the calls interleave, no slot is given twice: if the counters of the registered nodes
  agree with their tables when the calls begin, then at any moment the slots that different
  calls have reserved are different, and each is marked on its node.
\<close>

theorem interleaved_calls_have_own_slots:
  assumes "machine_reach (create_code junk requests) (create_start fe users) m" and "nodes_ok (fe_nodes fe)"
    and "lc_slot (cr_locals (mc_shared m) t) = Some (a, port)"
  shows "slot_taken (fe_nodes (cr_frontend (mc_shared m))) a port \<and>
    (\<forall>u. u \<noteq> t \<longrightarrow> lc_slot (cr_locals (mc_shared m) u) \<noteq> Some (a, port))"
proof -
  have "slots_ok (create_start fe users)" using assms(2) by (simp add: slots_ok_def create_start_def)
  from shared_invariant [OF assms(1) this slots_ok_keeps] assms(3) show ?thesis
    unfolding slots_ok_def by (metis option.distinct(1))
qed

section \<open>Session names\<close>

abbreviation call_key :: "(string \<Rightarrow> user) \<Rightarrow> (nat \<Rightarrow> string \<times> string) \<Rightarrow> nat \<Rightarrow> string \<times> string" where
  "call_key users requests t \<equiv> (getUserName (users (fst (requests t))), snd (requests t))"

definition name_open :: "'c create_threads \<Rightarrow> string \<times> string \<Rightarrow> bool" where
  "name_open s k \<longleftrightarrow> open_info (fe_tracker (cr_frontend s)) (fst k) (snd k) \<noteq> None"

text \<open>
  A call between its check and its entry has a name that is not open; a call that has succeeded
  has opened its name, and no other call has opened it.
\<close>

definition names_ok :: "(string \<Rightarrow> user) \<Rightarrow> (nat \<Rightarrow> string \<times> string) \<Rightarrow> (nat, string, 'c create_threads) machine \<Rightarrow> bool" where
  "names_ok users requests m \<longleftrightarrow>
     (\<forall>a. getUserName (cr_users (mc_shared m) a) = getUserName (users a)) \<and>
     (\<forall>t. mc_pc m t \<in> {2..7} \<longrightarrow> \<not> name_open (mc_shared m) (call_key users requests t)) \<and>
     (\<forall>t. lc_result (cr_locals (mc_shared m) t) = Some CREATION_OK \<longrightarrow>
        name_open (mc_shared m) (call_key users requests t) \<and> 8 \<le> mc_pc m t) \<and>
     (\<forall>t u. t \<noteq> u \<longrightarrow> lc_result (cr_locals (mc_shared m) t) = Some CREATION_OK \<longrightarrow>
        lc_result (cr_locals (mc_shared m) u) = Some CREATION_OK \<longrightarrow> call_key users requests t \<noteq> call_key users requests u)"

lemmas open_session_defs = open_session_def return_result_def set_local_def Let_def send_to_node_def

lemma name_open_open_session:
  "open_session junk address name t s = (Inr (), s') \<Longrightarrow>
     name_open s' k \<longleftrightarrow> name_open s k \<or> k = (getUserName (cr_users s address), name)"
  by (cases k) (auto simp: open_session_defs name_open_def open_info_put um_find_set open_info_def
      split: option.splits prod.splits if_splits)

lemma open_session_others:
  assumes "open_session junk address name t s = (Inr (), s')"
  shows "getUserName (cr_users s' a) = getUserName (cr_users s a)"
    and "lc_result (cr_locals s' u) = (if u = t then Some CREATION_OK else lc_result (cr_locals s u))"
  using assms by (auto simp: open_session_defs user_defs split: option.splits prod.splits if_splits)

text \<open>The steps but that of entering a session open no name and make no call succeed.\<close>

lemma names_ok_quiet:
  assumes "names_ok users requests m" and "\<And>u. u \<noteq> t \<Longrightarrow> mc_pc m' u = mc_pc m u"
    and "\<And>k. name_open (mc_shared m') k = name_open (mc_shared m) k" and "cr_users (mc_shared m') = cr_users (mc_shared m)"
    and "\<And>u. lc_result (cr_locals (mc_shared m') u) = Some CREATION_OK \<Longrightarrow>
      lc_result (cr_locals (mc_shared m) u) = Some CREATION_OK"
    and "mc_pc m' t \<in> {2..7} \<Longrightarrow> \<not> name_open (mc_shared m) (call_key users requests t)"
    and "8 \<le> mc_pc m t \<Longrightarrow> 8 \<le> mc_pc m' t"
  shows "names_ok users requests m'"
  unfolding names_ok_def
proof (intro conjI allI impI)
  note N = assms(1) [unfolded names_ok_def]
  show "getUserName (cr_users (mc_shared m') a) = getUserName (users a)" for a using N assms(4) by simp
  show "\<not> name_open (mc_shared m') (call_key users requests u)" if "mc_pc m' u \<in> {2..7}" for u
    using that assms(2,3,6) N by (cases "u = t") auto
  show "name_open (mc_shared m') (call_key users requests u)" "8 \<le> mc_pc m' u"
    if "lc_result (cr_locals (mc_shared m') u) = Some CREATION_OK" for u
    using assms(2,3,5,7) that N by (cases "u = t"; force)+
  show "call_key users requests v \<noteq> call_key users requests u"
    if "v \<noteq> u" "lc_result (cr_locals (mc_shared m') v) = Some CREATION_OK" "lc_result (cr_locals (mc_shared m') u) = Some CREATION_OK"
    for v u
    using that assms(5) N by blast
qed

lemma name_open_acts:
  "name_open (snd (choose_node t s)) k = name_open s k" "name_open (snd (reserve_slot t s)) k = name_open s k"
  "name_open (snd (return_result r t s)) k = name_open s k"
  by (auto simp: name_open_def choose_node_def reserve_slot_def return_result_def set_local_def split: option.splits prod.splits)

lemma create_instr:
  assumes "thread_step (create_code junk requests) t m = Some m'" and "requests t = (address, name)" and "mc_error m' = None"
  shows "mc_pc m t = 0 \<and> mc_shared m' = mc_shared m \<and> mc_pc m' = (mc_pc m)(t := 1) \<or>
    mc_pc m t = 1 \<and> mc_shared m' = mc_shared m \<and>
      mc_pc m' = (mc_pc m)(t := if fst (is_new_name address name (mc_shared m)) then 2 else 11) \<or>
    mc_pc m t = 2 \<and> mc_shared m' = snd (choose_node t (mc_shared m)) \<and> mc_pc m' = (mc_pc m)(t := 3) \<or>
    mc_pc m t \<in> {3, 5, 6} \<and> mc_shared m' = mc_shared m \<and> (\<exists>p \<in> {2, 4, 6, 7, 9}. mc_pc m' = (mc_pc m)(t := p)) \<or>
    mc_pc m t = 4 \<and> mc_shared m' = snd (reserve_slot t (mc_shared m)) \<and> mc_pc m' = (mc_pc m)(t := 5) \<or>
    mc_pc m t = 7 \<and> open_session junk address name t (mc_shared m) = (Inr (), mc_shared m') \<and> mc_pc m' = (mc_pc m)(t := 8) \<or>
    mc_pc m t \<in> {8, 10, 12} \<and> mc_shared m' = mc_shared m \<and> (\<exists>p \<in> {12, 13}. mc_pc m' = (mc_pc m)(t := p)) \<or>
    (\<exists>r. r \<noteq> CREATION_OK \<and> mc_pc m t \<in> {9, 11} \<and> mc_shared m' = snd (return_result r t (mc_shared m)) \<and>
      mc_pc m' = (mc_pc m)(t := Suc (mc_pc m t)))"
proof -
  have p: "mc_pc m t < 13" and s: "instr_step t (create_code junk requests t ! mc_pc m t) m = Some m'"
    using assms(1,2) by (auto simp: thread_step_def create_code_def tryCreateSession_code_def split: if_splits)
  have "mc_pc m t \<in> {0, 1, 2, 3, 4, 5, 6, 7, 8, 9, 10, 11, 12}" using p by (auto simp: eval_nat_numeral less_Suc_eq)
  then show ?thesis using s assms(2,3)
    by (elim insertE emptyE) (auto simp: create_code_def tryCreateSession_code_def advance_def is_new_name_def
      split: prod.splits sum.splits if_splits)
qed

text \<open>Between its check and its entry a call holds the lock of its user.\<close>

lemma call_holds_lock:
  assumes "machine_reach (create_code junk requests) s m" and "mc_error m = None" and "mc_pc m t \<in> {2..7}"
  shows "holds (fst (requests t)) (create_inside requests (fst (requests t)) t) t m"
proof -
  have "mc_pc m t \<in> {2, 3, 4, 5, 6, 7}" using assms(3) by auto
  then have "create_code junk requests t ! mc_pc m t \<noteq> Wait k" for k :: string
    by (elim insertE emptyE) (simp_all add: create_code_def tryCreateSession_code_def split: prod.splits)
  then have "mc_activity m t = Running" using user_lock.running_point [OF assms(1,2)] by blast
  then show ?thesis using assms(3) by (simp add: holds_def create_inside_def)
qed

text \<open>What every step but that of entering a session leaves alone, and where it goes.\<close>

lemma quiet_acts:
  "cr_users (snd (choose_node t s)) = cr_users s" "cr_users (snd (reserve_slot t s)) = cr_users s"
  "cr_users (snd (return_result r t s)) = cr_users s"
  "lc_result (cr_locals (snd (choose_node t s)) u) = lc_result (cr_locals s u)"
  "lc_result (cr_locals (snd (reserve_slot t s)) u) = lc_result (cr_locals s u)"
  "lc_result (cr_locals (snd (return_result r t s)) u) = (if u = t then Some r else lc_result (cr_locals s u))"
  by (auto simp: choose_node_def reserve_slot_def return_result_def set_local_def split: option.splits prod.splits)

lemma quiet_step:
  assumes step: "thread_step (create_code junk requests) t m = Some m'" and err: "mc_error m' = None" and pc: "mc_pc m t \<noteq> 7"
  shows "name_open (mc_shared m') k = name_open (mc_shared m) k" and "cr_users (mc_shared m') = cr_users (mc_shared m)"
    and "lc_result (cr_locals (mc_shared m') u) = Some CREATION_OK \<Longrightarrow> lc_result (cr_locals (mc_shared m) u) = Some CREATION_OK"
    and "u \<noteq> t \<Longrightarrow> mc_pc m' u = mc_pc m u" and "8 \<le> mc_pc m t \<Longrightarrow> 8 \<le> mc_pc m' t"
    and "mc_pc m' t \<in> {2..7} \<Longrightarrow> mc_pc m t \<in> {2..7} \<or>
      getSessionInfo (cr_users (mc_shared m) (fst (requests t))) (snd (requests t)) (fe_tracker (cr_frontend (mc_shared m))) = None"
proof -
  obtain address name where r: "requests t = (address, name)" by (cases "requests t")
  note D = create_instr [OF step r err]
  show "name_open (mc_shared m') k = name_open (mc_shared m) k"
    using D pc by (elim disjE exE conjE bexE) (auto simp: name_open_acts)
  show "cr_users (mc_shared m') = cr_users (mc_shared m)"
    using D pc by (elim disjE exE conjE bexE) (auto simp: quiet_acts)
  have "lc_result (cr_locals (mc_shared m') u) = Some CREATION_OK \<longrightarrow> lc_result (cr_locals (mc_shared m) u) = Some CREATION_OK"
    using D pc by (elim disjE exE conjE bexE) (auto simp: quiet_acts)
  then show "lc_result (cr_locals (mc_shared m') u) = Some CREATION_OK \<Longrightarrow> lc_result (cr_locals (mc_shared m) u) = Some CREATION_OK"
    by blast
  have "u \<noteq> t \<longrightarrow> mc_pc m' u = mc_pc m u" using D by (elim disjE exE conjE bexE) auto
  then show "u \<noteq> t \<Longrightarrow> mc_pc m' u = mc_pc m u" by blast
  have "8 \<le> mc_pc m t \<longrightarrow> 8 \<le> mc_pc m' t" using D by (elim disjE exE conjE bexE) auto
  then show "8 \<le> mc_pc m t \<Longrightarrow> 8 \<le> mc_pc m' t" by blast
  have "mc_pc m' t \<in> {2..7} \<longrightarrow> mc_pc m t \<in> {2..7} \<or> fst (is_new_name address name (mc_shared m))"
    using D pc by (elim disjE exE conjE bexE) (auto split: if_splits)
  then show "mc_pc m' t \<in> {2..7} \<Longrightarrow> mc_pc m t \<in> {2..7} \<or>
      getSessionInfo (cr_users (mc_shared m) (fst (requests t))) (snd (requests t)) (fe_tracker (cr_frontend (mc_shared m))) = None"
    using r by (auto simp: is_new_name_def)
qed

lemma names_ok_step:
  assumes reach: "machine_reach (create_code junk requests) s m" and ok: "names_ok users requests m"
    and step: "thread_step (create_code junk requests) t m = Some m'" and err: "mc_error m' = None"
    and one: "\<forall>t u. getUserName (users (fst (requests t))) = getUserName (users (fst (requests u))) \<longrightarrow> fst (requests t) = fst (requests u)"
  shows "names_ok users requests m'"
proof -
  obtain address name where r: "requests t = (address, name)" by (cases "requests t")
  note N = ok [unfolded names_ok_def]
  have err0: "mc_error m = None" using step by (auto simp: thread_step_def split: if_splits)
  show ?thesis
  proof (cases "mc_pc m t = 7")
    case False
    note Q = quiet_step [OF step err False]
    show ?thesis
    proof (rule names_ok_quiet [OF ok, of t])
      show "\<not> name_open (mc_shared m) (call_key users requests t)" if "mc_pc m' t \<in> {2..7}"
        using Q(6) [OF that] N by (auto simp: getSessionInfo_eq name_open_def)
    qed (use Q in blast)+
  next
    case True
    with create_instr [OF step r err] have o: "open_session junk address name t (mc_shared m) = (Inr (), mc_shared m')"
      and pc: "mc_pc m' = (mc_pc m)(t := 8)" by auto
    have users: "getUserName (cr_users (mc_shared m) a) = getUserName (users a)" for a using N by blast
    have new: "name_open (mc_shared m') k \<longleftrightarrow> name_open (mc_shared m) k \<or> k = call_key users requests t" for k
      using name_open_open_session [OF o] users r by simp
    have res: "lc_result (cr_locals (mc_shared m') u) = (if u = t then Some CREATION_OK else lc_result (cr_locals (mc_shared m) u))" for u
      by (rule open_session_others(2) [OF o])
    have was: "\<not> name_open (mc_shared m) (call_key users requests t)" using N True by simp
    have other: "call_key users requests u \<noteq> call_key users requests t" if u: "u \<noteq> t" "mc_pc m u \<in> {2..7}" for u
    proof
      assume "call_key users requests u = call_key users requests t"
      then have a: "fst (requests u) = fst (requests t)" using one by simp
      have "holds (fst (requests t)) (create_inside requests (fst (requests t)) u) u m"
        using call_holds_lock [OF reach err0 u(2)] a by simp
      moreover have "holds (fst (requests t)) (create_inside requests (fst (requests t)) t) t m"
        using call_holds_lock [OF reach err0, of t] True by simp
      ultimately show False using user_lock.mutual_exclusion [OF reach err0] u(1) by blast
    qed
    show ?thesis
      unfolding names_ok_def
    proof (intro conjI allI impI)
      show "getUserName (cr_users (mc_shared m') a) = getUserName (users a)" for a
        using open_session_others(1) [OF o] users by simp
      show "\<not> name_open (mc_shared m') (call_key users requests u)" if "mc_pc m' u \<in> {2..7}" for u
        using that pc other [of u] N new by (cases "u = t") auto
      show "name_open (mc_shared m') (call_key users requests u)" "8 \<le> mc_pc m' u"
        if "lc_result (cr_locals (mc_shared m') u) = Some CREATION_OK" for u
        using that pc N new res by (cases "u = t"; force)+
      show "call_key users requests v \<noteq> call_key users requests u"
        if "v \<noteq> u" "lc_result (cr_locals (mc_shared m') v) = Some CREATION_OK" "lc_result (cr_locals (mc_shared m') u) = Some CREATION_OK"
        for v u
        using that res was N by (metis)
    qed
  qed
qed

text \<open>
  Property C11. The lock of a user protects the names: when the calls begin and every user name is logged in at
  one address only, two calls that succeed, under the same user name, have opened sessions of
  different names, however they interleave; and the session of a call that succeeded is open.
\<close>

theorem one_address_keeps_names_unique:
  assumes reach: "machine_reach (create_code junk requests) (create_start fe users) m" and err: "mc_error m = None"
    and one: "\<forall>t u. getUserName (users (fst (requests t))) = getUserName (users (fst (requests u))) \<longrightarrow> fst (requests t) = fst (requests u)"
    and ok: "lc_result (cr_locals (mc_shared m) t) = Some CREATION_OK"
  shows "open_info (fe_tracker (cr_frontend (mc_shared m))) (getUserName (users (fst (requests t)))) (snd (requests t)) \<noteq> None \<and>
    (\<forall>u. u \<noteq> t \<and> lc_result (cr_locals (mc_shared m) u) = Some CREATION_OK \<and>
       getUserName (users (fst (requests u))) = getUserName (users (fst (requests t))) \<longrightarrow> snd (requests u) \<noteq> snd (requests t))"
proof -
  have "names_ok users requests m"
    using reach err
  proof (induction rule: machine_reach.induct)
    case start
    show ?case by (simp add: names_ok_def machine_start_def create_start_def)
  next
    case (step m t m')
    then have "mc_error m = None" by (auto simp: thread_step_def split: if_splits)
    from names_ok_step [OF step.hyps(1) step.IH [OF this] step.hyps(2) step.prems one] show ?case .
  next
    case (spurious m t)
    then show ?case by (simp add: names_ok_def wake_def)
  qed
  then show ?thesis using ok unfolding names_ok_def name_open_def by force
qed

text \<open>A call that runs alone, on each branch.\<close>

lemma call_alone_steps:
  assumes "requests t = (address, name)"
  shows "open_info (fe_tracker fe) (getUserName (users address)) name \<noteq> None \<Longrightarrow>
      \<exists>m. machine_run (create_code junk requests) (replicate 4 t) (machine_start (create_start fe users)) = Some m \<and> thread_ended (create_code junk requests) t m \<and> mc_error m = None \<and>
        lc_result (cr_locals (mc_shared m) t) = Some CREATION_FAIL_DUPLICATE_NAME \<and>
        cr_users (mc_shared m) address = users address \<and> cr_frontend (mc_shared m) = fe"
    and "open_info (fe_tracker fe) (getUserName (users address)) name = None \<Longrightarrow> findBestNode (fe_nodes fe) = None \<Longrightarrow>
      \<exists>m. machine_run (create_code junk requests) (replicate 7 t) (machine_start (create_start fe users)) = Some m \<and> thread_ended (create_code junk requests) t m \<and> mc_error m = None \<and>
        lc_result (cr_locals (mc_shared m) t) = Some CREATION_FAIL_NO_AVAILABLE_NODES \<and>
        cr_users (mc_shared m) address = users address \<and> cr_frontend (mc_shared m) = fe"
    and "open_info (fe_tracker fe) (getUserName (users address)) name = None \<Longrightarrow> findBestNode (fe_nodes fe) = Some a \<Longrightarrow>
      getNode a (fe_nodes fe) = Some n \<Longrightarrow> tryReserveSlot n = (Some port, n') \<Longrightarrow>
      \<exists>m. machine_run (create_code junk requests) (replicate 9 t) (machine_start (create_start fe users)) = Some m \<and> thread_ended (create_code junk requests) t m \<and> mc_error m = None \<and>
        lc_result (cr_locals (mc_shared m) t) = Some CREATION_OK \<and>
        tryCreateSession junk (users address) name fe = Some (CREATION_OK, cr_users (mc_shared m) address, cr_frontend (mc_shared m))"
  using assms(1)
    by (simp_all add: create_code_def tryCreateSession_code_def thread_step_def thread_ended_def advance_def machine_start_def create_start_def
  is_new_name_def choose_node_def reserve_slot_def open_session_defs getSessionInfo_eq numeral_eq_Suc maxAttempts_def
   tryCreateSession_def reserve_loop.simps created_info_def StreamingSessionInfo_new_def split: prod.splits)

text \<open>
  Property C14. The steps are those of the call: with consistent nodes, a call that runs alone ends after at
  most nine steps, without an error, with the result, the user and the front end that
  \<open>tryCreateSession\<close> gives.
\<close>

theorem call_alone_is_tryCreateSession:
  assumes "nodes_ok (fe_nodes fe)" and "requests t = (address, name)"
  shows "\<exists>n m r. n \<le> 9 \<and> machine_run (create_code junk requests) (replicate n t) (machine_start (create_start fe users)) = Some m \<and>
    thread_ended (create_code junk requests) t m \<and> mc_error m = None \<and> lc_result (cr_locals (mc_shared m) t) = Some r \<and>
    tryCreateSession junk (users address) name fe = Some (r, cr_users (mc_shared m) address, cr_frontend (mc_shared m))"
proof (cases "open_info (fe_tracker fe) (getUserName (users address)) name")
  case (Some i)
  then have "tryCreateSession junk (users address) name fe = Some (CREATION_FAIL_DUPLICATE_NAME, users address, fe)"
    by (simp add: tryCreateSession_def getSessionInfo_eq)
  with call_alone_steps(1) [where users = users and fe = fe and junk = junk and requests = requests and t = t and address = address and name = name, OF assms(2)] Some show ?thesis
    by (intro exI [of _ 4]) auto
next
  case None
  show ?thesis
  proof (cases "findBestNode (fe_nodes fe)")
    case none: None
    have "tryCreateSession junk (users address) name fe = Some (CREATION_FAIL_NO_AVAILABLE_NODES, users address, fe)"
      using None none by (simp add: tryCreateSession_def getSessionInfo_eq reserve_loop.simps)
    with call_alone_steps(2) [where users = users and fe = fe and junk = junk and requests = requests and t = t and address = address and name = name, OF assms(2) None none] show ?thesis
      by (intro exI [of _ 7]) auto
  next
    case (Some a)
    obtain n where n: "getNode a (fe_nodes fe) = Some n" "getAvailableStreamSlotsCount n > 0"
      using findBestNode_Some [OF _ Some] assms(1) by (auto simp: nodes_ok_def)
    then have inv: "vn_inv n" using assms(1) by (auto simp: nodes_ok_def)
    have "node_free n \<noteq> 0" using available_pos [OF inv] n(2) by simp
    then obtain port n' where "tryReserveSlot n = (Some port, n')" using tryReserveSlot_cases [OF inv] by auto
    from call_alone_steps(3) [where users = users and fe = fe and junk = junk and requests = requests and t = t and address = address and name = name, OF assms(2) None Some n(1) this] show ?thesis
      by (intro exI [of _ 9]) auto
  qed
qed

section \<open>An example\<close>

definition example_users :: "string \<Rightarrow> user" where
  "example_users address = setUnixUser (if address = ''10.0.0.2'' then ''bob'' else ''ann'') (setAddress address (User_new 0))"

lemmas create_eval = create_code_def tryCreateSession_code_def thread_step_def advance_def machine_start_def create_start_def
  is_new_name_def choose_node_def reserve_slot_def open_session_defs example_frontend_def example_users_def frontend_eval
  created_info_def maxAttempts_def

lemma example_nodes_ok: "nodes_ok (fe_nodes example_frontend)"
  using sessions_okD(1) [OF fe_reachable_ok [OF example_reachable]] .

theorem call_alone_is_tryCreateSession_witness:
  "\<exists>n m r. machine_run (create_code 0 (\<lambda>_. (''10.0.0.1'', ''a''))) (replicate n 0)
      (machine_start (create_start example_frontend example_users)) = Some m \<and>
    tryCreateSession 0 (example_users ''10.0.0.1'') ''a'' example_frontend =
    Some (r, cr_users (mc_shared m) ''10.0.0.1'', cr_frontend (mc_shared m)) \<and> mc_error m = None \<and>
    lc_result (cr_locals (mc_shared m) 0) = Some r"
  using call_alone_is_tryCreateSession [OF example_nodes_ok, of "\<lambda>_. (''10.0.0.1'', ''a'')" 0 "''10.0.0.1''" "''a''" 0 example_users, OF refl]
  by blast

text \<open>Two calls of two users, interleaved.\<close>

definition example_requests :: "nat \<Rightarrow> string \<times> string" where
  "example_requests t = (if t = 0 then ''10.0.0.1'' else ''10.0.0.2'', ''a'')"

definition example_schedule :: "nat list" where
  "example_schedule = [0, 0, 1, 1, 0, 0, 0, 0, 0, 1, 1, 1, 1, 1, 0, 0, 1, 1]"

lemma example_run:
  "\<exists>m. machine_run (create_code 0 example_requests) example_schedule (machine_start (create_start example_frontend example_users)) = Some m \<and>
    mc_error m = None \<and> lc_slot (cr_locals (mc_shared m) 0) = Some (''10.0.0.5'', 8001) \<and>
    lc_slot (cr_locals (mc_shared m) 1) = Some (''10.0.0.5'', 8002) \<and>
    lc_result (cr_locals (mc_shared m) 0) = Some CREATION_OK"
  by (simp add: create_eval example_requests_def example_schedule_def)

theorem interleaved_calls_have_own_slots_witness:
  "\<exists>m. machine_reach (create_code 0 example_requests) (create_start example_frontend example_users) m \<and>
    slot_taken (fe_nodes (cr_frontend (mc_shared m))) ''10.0.0.5'' 8001 \<and>
    lc_slot (cr_locals (mc_shared m) 1) \<noteq> Some (''10.0.0.5'', 8001) \<and> lc_slot (cr_locals (mc_shared m) 1) \<noteq> None"
proof -
  from example_run obtain m where m: "machine_run (create_code 0 example_requests) example_schedule
      (machine_start (create_start example_frontend example_users)) = Some m"
    "lc_slot (cr_locals (mc_shared m) 0) = Some (''10.0.0.5'', 8001)" "lc_slot (cr_locals (mc_shared m) 1) = Some (''10.0.0.5'', 8002)"
    by blast
  from interleaved_calls_have_own_slots [OF machine_run_reach [OF machine_reach.start m(1)] example_nodes_ok m(2)]
  show ?thesis using machine_run_reach [OF machine_reach.start m(1)] m(3) by (intro exI [of _ m]) simp
qed

theorem one_address_keeps_names_unique_witness:
  "\<exists>m. machine_reach (create_code 0 example_requests) (create_start example_frontend example_users) m \<and>
    open_info (fe_tracker (cr_frontend (mc_shared m))) ''ann'' ''a'' \<noteq> None"
proof -
  from example_run obtain m where m: "machine_run (create_code 0 example_requests) example_schedule
      (machine_start (create_start example_frontend example_users)) = Some m" "mc_error m = None"
    "lc_result (cr_locals (mc_shared m) 0) = Some CREATION_OK" by blast
  have one: "\<forall>t u. getUserName (example_users (fst (example_requests t))) = getUserName (example_users (fst (example_requests u))) \<longrightarrow>
      fst (example_requests t) = fst (example_requests u)"
    by (simp add: example_users_def example_requests_def user_defs)
  from one_address_keeps_names_unique [OF machine_run_reach [OF machine_reach.start m(1)] m(2) one m(3)]
  show ?thesis using machine_run_reach [OF machine_reach.start m(1)]
    by (intro exI [of _ m]) (simp add: example_users_def example_requests_def user_defs)
qed

end
