(* ===== verification/CreateProgress.thy ===== *)
theory CreateProgress
  imports CreateThreads
begin

text \<open>
  Calls of \<open>SessionTracker::tryCreateSession\<close> that interleave (\<open>CreateThreads\<close>) do not fail, do not block
  each other and end. The loop of a call can go round again only because another call has taken
  the last slot of the node it had chosen, and each call takes one slot at most: that bounds the
  number of steps of all calls together.
\<close>

section \<open>What holds of every call\<close>

abbreviation mc_nodes :: "('t, 'm, 'c create_threads) machine \<Rightarrow> 'c visualizationNodeManager" where
  "mc_nodes m \<equiv> fe_nodes (cr_frontend (mc_shared m))"

abbreviation mc_locals :: "('t, 'm, 'c create_threads) machine \<Rightarrow> nat \<Rightarrow> create_locals" where
  "mc_locals m \<equiv> cr_locals (mc_shared m)"

definition call_ok :: "'c visualizationNodeManager \<Rightarrow> nat \<Rightarrow> create_locals \<Rightarrow> bool" where
  "call_ok nodes p l \<longleftrightarrow> p \<le> 13 \<and>
     (\<forall>a. lc_node l = Some a \<longrightarrow> getNode a nodes \<noteq> None) \<and> (p = 4 \<longrightarrow> lc_node l \<noteq> None) \<and>
     (p \<in> {0, 1, 2, 3, 4, 6} \<longrightarrow> lc_slot l = None) \<and> (p = 7 \<longrightarrow> lc_slot l \<noteq> None) \<and>
     (p \<in> {8, 10, 12, 13} \<longrightarrow> lc_result l \<noteq> None)"

definition calls_ok :: "(nat, string, 'c create_threads) machine \<Rightarrow> bool" where
  "calls_ok m \<longleftrightarrow> mc_error m = None \<and> nodes_ok (mc_nodes m) \<and>
     (\<forall>t. call_ok (mc_nodes m) (mc_pc m t) (mc_locals m t))"

lemma calls_okD:
  assumes "calls_ok m"
  shows "mc_error m = None" and "nodes_ok (mc_nodes m)" and "mc_pc m t = p \<Longrightarrow> call_ok (mc_nodes m) p (mc_locals m t)"
  using assms by (auto simp: calls_ok_def)

text \<open>
  How many steps a call has left if no other call takes the last slot of the node it has chosen:
  \<open>stale\<close> is a choice that was overtaken in this way.
\<close>

definition stale :: "'c visualizationNodeManager \<Rightarrow> create_locals \<Rightarrow> bool" where
  "stale nodes l \<longleftrightarrow> (\<exists>a n. lc_node l = Some a \<and> getNode a nodes = Some n \<and> node_free n = 0)"

definition steps_left :: "'c visualizationNodeManager \<Rightarrow> nat \<Rightarrow> create_locals \<Rightarrow> nat" where
  "steps_left nodes p l =
     ([9, 8, 7, if stale nodes l then 11 else 6, if stale nodes l then 10 else 5,
       if lc_slot l = None then 9 else 4, 8, 3, 2, 3, 2, 2, 1, 0] ! p)"

lemma create_length: "length (create_code junk requests t) = 13"
  by (simp add: create_code_def tryCreateSession_code_def split: prod.splits)

lemma create_step_at:
  assumes "requests t = (address, name)" and "mc_error m = None"
  shows "mc_pc m t = 0 \<Longrightarrow> thread_step (create_code junk requests) t m =
      (if mc_owner m address = None then Some (advance t (m\<lparr>mc_owner := (mc_owner m)(address := Some t)\<rparr>)) else None)"
    and "mc_pc m t = 1 \<Longrightarrow> thread_step (create_code junk requests) t m =
      Some (m\<lparr>mc_pc := (mc_pc m)(t := if fst (is_new_name address name (mc_shared m)) then 2 else 11)\<rparr>)"
    and "mc_pc m t = 2 \<Longrightarrow> thread_step (create_code junk requests) t m =
      Some (advance t (m\<lparr>mc_shared := snd (choose_node t (mc_shared m))\<rparr>))"
    and "mc_pc m t = 3 \<Longrightarrow> thread_step (create_code junk requests) t m =
      Some (m\<lparr>mc_pc := (mc_pc m)(t := if lc_node (mc_locals m t) \<noteq> None then 4 else 9)\<rparr>)"
    and "mc_pc m t = 4 \<Longrightarrow> thread_step (create_code junk requests) t m = instr_step t (Act (reserve_slot t)) m"
    and "mc_pc m t = 5 \<Longrightarrow> thread_step (create_code junk requests) t m =
      Some (m\<lparr>mc_pc := (mc_pc m)(t := if lc_slot (mc_locals m t) = None then 6 else 7)\<rparr>)"
    and "mc_pc m t = 6 \<Longrightarrow> thread_step (create_code junk requests) t m = Some (m\<lparr>mc_pc := (mc_pc m)(t := 2)\<rparr>)"
    and "mc_pc m t = 7 \<Longrightarrow> thread_step (create_code junk requests) t m = instr_step t (Act (open_session junk address name t)) m"
    and "mc_pc m t = 8 \<Longrightarrow> thread_step (create_code junk requests) t m = Some (m\<lparr>mc_pc := (mc_pc m)(t := 12)\<rparr>)"
    and "mc_pc m t = 9 \<Longrightarrow> thread_step (create_code junk requests) t m =
      Some (advance t (m\<lparr>mc_shared := snd (return_result CREATION_FAIL_NO_AVAILABLE_NODES t (mc_shared m))\<rparr>))"
    and "mc_pc m t = 10 \<Longrightarrow> thread_step (create_code junk requests) t m = Some (m\<lparr>mc_pc := (mc_pc m)(t := 12)\<rparr>)"
    and "mc_pc m t = 11 \<Longrightarrow> thread_step (create_code junk requests) t m =
      Some (advance t (m\<lparr>mc_shared := snd (return_result CREATION_FAIL_DUPLICATE_NAME t (mc_shared m))\<rparr>))"
    and "mc_pc m t = 12 \<Longrightarrow> thread_step (create_code junk requests) t m =
      Some (advance t (m\<lparr>mc_owner := (mc_owner m)(address := None)\<rparr>))"
  using assms
  by (simp_all add: thread_step_def create_code_def tryCreateSession_code_def is_new_name_def choose_node_def return_result_def
      maxAttempts_def numeral_2_eq_2 [symmetric])

text \<open>
  One step of a call: it has fewer steps left, unless it reserves a slot; then other calls may
  have been overtaken, by at most one pass of their loop each.
\<close>

definition step_bound :: "nat \<Rightarrow> (nat, string, 'c create_threads) machine \<Rightarrow> (nat, string, 'c create_threads) machine \<Rightarrow> bool" where
  "step_bound t m m' \<longleftrightarrow>
     calls_ok m' \<and> (\<forall>u. u \<noteq> t \<longrightarrow> mc_pc m' u = mc_pc m u \<and> mc_locals m' u = mc_locals m u) \<and>
     steps_left (mc_nodes m') (mc_pc m' t) (mc_locals m' t) < steps_left (mc_nodes m) (mc_pc m t) (mc_locals m t) \<and>
     (if lc_slot (mc_locals m' t) = lc_slot (mc_locals m t) then mc_nodes m' = mc_nodes m
      else lc_slot (mc_locals m t) = None \<and> lc_slot (mc_locals m' t) \<noteq> None)"

lemma step_bound_quiet:
  assumes "calls_ok m" and "mc_error m' = None" and "\<And>u. u \<noteq> t \<Longrightarrow> mc_pc m' u = mc_pc m u \<and> mc_locals m' u = mc_locals m u"
    and "mc_nodes m' = mc_nodes m" and "lc_slot (mc_locals m' t) = lc_slot (mc_locals m t)"
    and "call_ok (mc_nodes m) (mc_pc m' t) (mc_locals m' t)"
    and "steps_left (mc_nodes m) (mc_pc m' t) (mc_locals m' t) < steps_left (mc_nodes m) (mc_pc m t) (mc_locals m t)"
  shows "step_bound t m m'"
proof -
  have "call_ok (mc_nodes m) (mc_pc m' u) (mc_locals m' u)" for u
    using assms(1,3,6) by (cases "u = t") (auto simp: calls_ok_def)
  then show ?thesis using assms by (simp add: step_bound_def calls_ok_def)
qed


lemma findBestNode_fresh:
  assumes "nodes_ok nodes" and "findBestNode nodes = Some a"
  shows "\<exists>n. getNode a nodes = Some n \<and> node_free n > 0"
  using findBestNode_Some [OF _ assms(2)] assms(1) available_pos by (fastforce simp: nodes_ok_def)

lemma step_choose:
  assumes ok: "calls_ok m" and pc: "mc_pc m t = 2"
  shows "step_bound t m (advance t (m\<lparr>mc_shared := snd (choose_node t (mc_shared m))\<rparr>))"
proof (rule step_bound_quiet [OF ok])
  let ?l = "(mc_locals m t)\<lparr>lc_node := findBestNode (mc_nodes m)\<rparr>"
  note nodes = calls_okD(2) [OF ok] calls_okD(3) [OF ok pc]
  then have "call_ok (mc_nodes m) 3 ?l"
    by (auto simp: call_ok_def dest: findBestNode_fresh)
  moreover have "\<not> stale (mc_nodes m) ?l"
    using findBestNode_fresh [OF nodes(1)] by (fastforce simp: stale_def)
  ultimately show "call_ok (mc_nodes m) (mc_pc (advance t (m\<lparr>mc_shared := snd (choose_node t (mc_shared m))\<rparr>)) t)
      (mc_locals (advance t (m\<lparr>mc_shared := snd (choose_node t (mc_shared m))\<rparr>)) t)"
    "steps_left (mc_nodes m) (mc_pc (advance t (m\<lparr>mc_shared := snd (choose_node t (mc_shared m))\<rparr>)) t)
      (mc_locals (advance t (m\<lparr>mc_shared := snd (choose_node t (mc_shared m))\<rparr>)) t) < steps_left (mc_nodes m) (mc_pc m t) (mc_locals m t)"
    by (simp_all add: pc advance_def choose_node_def set_local_def steps_left_def numeral_3_eq_3 numeral_2_eq_2)
qed (use ok in \<open>simp_all add: calls_ok_def advance_def choose_node_def set_local_def\<close>)

lemma step_reserve:
  assumes ok: "calls_ok m" and pc: "mc_pc m t = 4"
  shows "\<exists>m'. instr_step t (Act (reserve_slot t)) m = Some m' \<and> step_bound t m m'"
proof -
  note c = calls_okD(3) [OF ok pc] and nodes = calls_okD(2) [OF ok]
  obtain a n where n: "lc_node (mc_locals m t) = Some a" "getNode a (mc_nodes m) = Some n" "lc_slot (mc_locals m t) = None"
    using c by (auto simp: call_ok_def)
  have inv: "vn_inv n" "vn_address n = a" using nodes n(2) by (auto simp: nodes_ok_def)
  from tryReserveSlot_cases [OF inv(1)] show ?thesis
  proof (elim disjE exE conjE)
    assume r: "node_free n = 0" "tryReserveSlot n = (None, n)"
    have s: "stale (mc_nodes m) (mc_locals m t)" using n r by (auto simp: stale_def)
    let ?m = "advance t (m\<lparr>mc_shared := set_local t (lc_slot_update (\<lambda>_. None)) (mc_shared m)\<rparr>)"
    have "instr_step t (Act (reserve_slot t)) m = Some ?m"
      using n r by (simp add: reserve_slot_def put_node_same set_local_def)
    moreover have "step_bound t m ?m"
      by (rule step_bound_quiet [OF ok])
        (use ok c n s pc in \<open>simp_all add: calls_ok_def advance_def set_local_def call_ok_def steps_left_def\<close>)
    ultimately show ?thesis by blast
  next
    fix port n'
    assume r: "tryReserveSlot n = (Some port, n')" "vn_inv n'" "vn_address n' = vn_address n" "node_free n = Suc (node_free n')"
    have s: "\<not> stale (mc_nodes m) (mc_locals m t)" using n r by (auto simp: stale_def)
    let ?m = "advance t (m\<lparr>mc_shared := set_local t (lc_slot_update (\<lambda>_. Some (a, port)))
      ((mc_shared m)\<lparr>cr_frontend := (cr_frontend (mc_shared m))\<lparr>fe_nodes := put_node a n' (mc_nodes m)\<rparr>\<rparr>)\<rparr>)"
    have i: "instr_step t (Act (reserve_slot t)) m = Some ?m"
      using n r by (simp add: reserve_slot_def)
    have "nodes_ok (put_node a n' (mc_nodes m))" using nodes r inv by (simp add: nodes_ok_put)
    moreover have "call_ok (put_node a n' (mc_nodes m)) p l" if "call_ok (mc_nodes m) p l" for p l
      using that by (auto simp: call_ok_def)
    ultimately have "calls_ok ?m"
      using ok c pc by (auto simp: calls_ok_def advance_def set_local_def) (auto simp: call_ok_def)
    then have "step_bound t m ?m" using n s pc by (simp add: step_bound_def advance_def set_local_def steps_left_def)
    with i show ?thesis by blast
  qed
qed

lemma step_open:
  assumes ok: "calls_ok m" and pc: "mc_pc m t = 7"
  shows "\<exists>m'. instr_step t (Act (open_session junk address name t)) m = Some m' \<and> step_bound t m m'"
proof -
  note c = calls_okD(3) [OF ok pc]
  obtain a p where s: "lc_slot (mc_locals m t) = Some (a, p)" using c by (auto simp: call_ok_def)
  obtain na pa where "node_addresses a (mc_nodes m) = (na, pa)" by fastforce
  then obtain s' where o: "open_session junk address name t (mc_shared m) = (Inr (), s')"
    and l: "cr_locals s' = (mc_locals m)(t := (mc_locals m t)\<lparr>lc_result := Some CREATION_OK\<rparr>)" "fe_nodes (cr_frontend s') = mc_nodes m"
    using s by (simp add: open_session_defs)
  have "step_bound t m (advance t (m\<lparr>mc_shared := s'\<rparr>))"
    by (rule step_bound_quiet [OF ok])
      (use ok c pc l in \<open>simp_all add: calls_ok_def advance_def call_ok_def steps_left_def\<close>)
  then show ?thesis using o by simp
qed

lemma step_goto:
  assumes ok: "calls_ok m" and "mc_pc m t = p" and "call_ok (mc_nodes m) q (mc_locals m t)"
    and "steps_left (mc_nodes m) q (mc_locals m t) < steps_left (mc_nodes m) p (mc_locals m t)"
  shows "step_bound t m (m\<lparr>mc_pc := (mc_pc m)(t := q)\<rparr>)"
  by (rule step_bound_quiet [OF ok]) (use assms calls_okD(1) [OF ok] in simp_all)

lemma step_owner:
  assumes ok: "calls_ok m" and pc: "mc_pc m t \<in> {0, 12}"
  shows "step_bound t m (advance t (m\<lparr>mc_owner := f\<rparr>))"
proof -
  note c = calls_okD(3) [OF ok refl, of t]
  have q: "call_ok (mc_nodes m) (Suc (mc_pc m t)) (mc_locals m t) \<and>
    steps_left (mc_nodes m) (Suc (mc_pc m t)) (mc_locals m t) < steps_left (mc_nodes m) (mc_pc m t) (mc_locals m t)"
    using pc c by (elim insertE emptyE) (simp_all add: call_ok_def steps_left_def)
  show ?thesis
    by (rule step_bound_quiet [OF ok]) (use q calls_okD(1) [OF ok] in \<open>simp_all add: advance_def\<close>)
qed

lemma step_return:
  assumes ok: "calls_ok m" and pc: "mc_pc m t \<in> {9, 11}"
  shows "step_bound t m (advance t (m\<lparr>mc_shared := snd (return_result r t (mc_shared m))\<rparr>))"
proof -
  note c = calls_okD(3) [OF ok refl, of t]
  let ?l = "(mc_locals m t)\<lparr>lc_result := Some r\<rparr>"
  have q: "call_ok (mc_nodes m) (Suc (mc_pc m t)) ?l \<and>
    steps_left (mc_nodes m) (Suc (mc_pc m t)) ?l < steps_left (mc_nodes m) (mc_pc m t) (mc_locals m t)"
    using pc c by (elim insertE emptyE) (simp_all add: call_ok_def steps_left_def)
  show ?thesis
    by (rule step_bound_quiet [OF ok])
      (use q calls_okD(1) [OF ok] in \<open>simp_all add: advance_def return_result_def set_local_def\<close>)
qed

lemma create_step_bound:
  assumes ok: "calls_ok m" and step: "thread_step (create_code junk requests) t m = Some m'"
  shows "step_bound t m m'"
proof -
  obtain address name where r: "requests t = (address, name)" by (cases "requests t")
  note err = calls_okD(1) [OF ok] and c = calls_okD(3) [OF ok, of t]
  note at = create_step_at [where requests = requests and t = t and m = m and junk = junk, OF r err]
  have "mc_pc m t < 13" using step by (auto simp: thread_step_def create_length split: if_splits)
  then have "mc_pc m t \<in> {0, 1, 2, 3, 4, 5, 6, 7, 8, 9, 10, 11, 12}" by (auto simp: eval_nat_numeral less_Suc_eq)
  then consider "mc_pc m t = 0" | "mc_pc m t = 1" | "mc_pc m t = 2" | "mc_pc m t = 3" | "mc_pc m t = 4" | "mc_pc m t = 5"
    | "mc_pc m t = 6" | "mc_pc m t = 7" | "mc_pc m t = 8" | "mc_pc m t = 9" | "mc_pc m t = 10" | "mc_pc m t = 11" | "mc_pc m t = 12"
    by auto
  then show ?thesis
  proof cases
    case 1 with step at(1) step_owner [OF ok, of t] show ?thesis by (auto split: if_splits)
  next
    case 2
    have "step_bound t m (m\<lparr>mc_pc := (mc_pc m)(t := q)\<rparr>)" if "q \<in> {2, 11}" for q
      by (rule step_goto [OF ok 2]) (use that c [OF 2] in \<open>auto simp: call_ok_def steps_left_def\<close>)
    then show ?thesis using step at(2) [OF 2] by auto
  next
    case 3 with step at(3) step_choose [OF ok, of t] show ?thesis by auto
  next
    case 4
    have "step_bound t m (m\<lparr>mc_pc := (mc_pc m)(t := if lc_node (mc_locals m t) \<noteq> None then 4 else 9)\<rparr>)"
      by (rule step_goto [OF ok 4]) (use c [OF 4] in \<open>auto simp: call_ok_def steps_left_def\<close>)
    then show ?thesis using step at(4) [OF 4] by (simp only: option.inject)
  next
    case 5
    then show ?thesis using step at(5) [OF 5] step_reserve [OF ok 5] by auto
  next
    case 6
    have "step_bound t m (m\<lparr>mc_pc := (mc_pc m)(t := if lc_slot (mc_locals m t) = None then 6 else 7)\<rparr>)"
      by (rule step_goto [OF ok 6]) (use c [OF 6] in \<open>auto simp: call_ok_def steps_left_def\<close>)
    then show ?thesis using step at(6) [OF 6] by (simp only: option.inject)
  next
    case 7
    have "step_bound t m (m\<lparr>mc_pc := (mc_pc m)(t := 2)\<rparr>)"
      by (rule step_goto [OF ok 7]) (use c [OF 7] in \<open>auto simp: call_ok_def steps_left_def\<close>)
    then show ?thesis using step at(7) [OF 7] by simp
  next
    case 8
    then show ?thesis using step at(8) [OF 8] step_open [OF ok 8, of junk address name] by auto
  next
    case 9
    have "step_bound t m (m\<lparr>mc_pc := (mc_pc m)(t := 12)\<rparr>)"
      by (rule step_goto [OF ok 9]) (use c [OF 9] in \<open>auto simp: call_ok_def steps_left_def\<close>)
    then show ?thesis using step at(9) [OF 9] by simp
  next
    case 10 with step at(10) step_return [OF ok, of t] show ?thesis by auto
  next
    case 11
    have "step_bound t m (m\<lparr>mc_pc := (mc_pc m)(t := 12)\<rparr>)"
      by (rule step_goto [OF ok 11]) (use c [OF 11] in \<open>auto simp: call_ok_def steps_left_def\<close>)
    then show ?thesis using step at(11) [OF 11] by simp
  next
    case 12 with step at(12) step_return [OF ok, of t] show ?thesis by auto
  next
    case 13 with step at(13) step_owner [OF ok, of t] show ?thesis by auto
  qed
qed


section \<open>How long the calls take\<close>

text \<open>
  For the calls below \<open>n\<close>: what every call has left, and one pass of the loop of each for every call
  that has not reserved a slot yet.
\<close>

definition all_left :: "nat \<Rightarrow> (nat, string, 'c create_threads) machine \<Rightarrow> nat" where
  "all_left n m =
     (\<Sum>t<n. steps_left (mc_nodes m) (mc_pc m t) (mc_locals m t) + (if lc_slot (mc_locals m t) = None then 5 * n else 0))"

lemma steps_left_overtaken: "p \<le> 13 \<Longrightarrow> steps_left nodes p l \<le> steps_left nodes' p l + 5"
proof -
  assume "p \<le> 13"
  then have "p \<in> {0, 1, 2, 3, 4, 5, 6, 7, 8, 9, 10, 11, 12, 13}" by (auto simp: eval_nat_numeral less_Suc_eq le_Suc_eq)
  then show ?thesis by (elim insertE emptyE) (simp_all add: steps_left_def)
qed

lemma all_left_step:
  assumes ok: "calls_ok m" and b: "step_bound t m m'" and t: "t < n"
  shows "all_left n m' < all_left n m"
proof -
  let ?left = "\<lambda>m u. steps_left (mc_nodes m) (mc_pc m u) (mc_locals m u)"
  let ?none = "\<lambda>m u. if lc_slot (mc_locals m u) = None then 5 * n else 0"
  have split: "all_left n m = (?left m t + ?none m t) + (\<Sum>u \<in> {..<n} - {t}. ?left m u + ?none m u)" for m :: "(nat, string, 'a create_threads) machine"
    unfolding all_left_def by (rule sum.remove) (use t in simp_all)
  have others: "mc_pc m' u = mc_pc m u \<and> mc_locals m' u = mc_locals m u" if "u \<noteq> t" for u
    using b that by (simp add: step_bound_def)
  have less: "?left m' t < ?left m t" using b by (simp add: step_bound_def)
  show ?thesis
  proof (cases "lc_slot (mc_locals m' t) = lc_slot (mc_locals m t)")
    case True
    then have "mc_nodes m' = mc_nodes m" using b by (simp add: step_bound_def)
    then have "(\<Sum>u \<in> {..<n} - {t}. ?left m' u + ?none m' u) = (\<Sum>u \<in> {..<n} - {t}. ?left m u + ?none m u)"
      using others by (intro sum.cong) auto
    then show ?thesis using less True by (simp add: split)
  next
    case False
    then have none: "?none m t = 5 * n" "?none m' t = 0" using b by (auto simp: step_bound_def)
    have "(\<Sum>u \<in> {..<n} - {t}. ?left m' u + ?none m' u) \<le> (\<Sum>u \<in> {..<n} - {t}. (?left m u + ?none m u) + 5)"
    proof (rule sum_mono)
      fix u assume "u \<in> {..<n} - {t}"
      then have u: "mc_pc m' u = mc_pc m u" "mc_locals m' u = mc_locals m u" using others by auto
      have "mc_pc m u \<le> 13" using ok by (simp add: calls_ok_def call_ok_def)
      from steps_left_overtaken [OF this, of "mc_nodes m'" "mc_locals m u" "mc_nodes m"] u
      show "?left m' u + ?none m' u \<le> (?left m u + ?none m u) + 5" by simp
    qed
    also have "\<dots> \<le> (\<Sum>u \<in> {..<n} - {t}. ?left m u + ?none m u) + 5 * n"
      using t by (simp add: sum.distrib)
    finally show ?thesis using less none by (simp add: split)
  qed
qed

lemma calls_run:
  assumes "calls_ok m" and "machine_run (create_code junk requests) ts m = Some m'" and "set ts \<subseteq> {..<n}"
  shows "calls_ok m' \<and> length ts + all_left n m' \<le> all_left n m"
  using assms
proof (induction ts arbitrary: m)
  case Nil
  then show ?case by simp
next
  case (Cons t ts)
  then obtain m1 where step: "thread_step (create_code junk requests) t m = Some m1"
    and run: "machine_run (create_code junk requests) ts m1 = Some m'" by (auto split: option.splits)
  have b: "step_bound t m m1" by (rule create_step_bound [OF Cons.prems(1) step])
  then have "calls_ok m1" by (simp add: step_bound_def)
  from Cons.IH [OF this run] all_left_step [OF Cons.prems(1) b, of n] Cons.prems(3) show ?case by auto
qed

lemma calls_start: "nodes_ok (fe_nodes fe) \<Longrightarrow> calls_ok (machine_start (create_start fe users))"
  by (simp add: calls_ok_def call_ok_def machine_start_def create_start_def)

lemma all_left_start: "all_left n (machine_start (create_start fe users)) = n * (9 + 5 * n)"
  by (simp add: all_left_def machine_start_def create_start_def steps_left_def algebra_simps)

text \<open>A call that cannot make a step has ended, or waits for the lock of a call that can.\<close>

lemma create_blocked:
  assumes ok: "calls_ok m" and none: "thread_step (create_code junk requests) t m = None"
  shows "mc_pc m t = 13 \<or> mc_pc m t = 0 \<and> mc_owner m (fst (requests t)) \<noteq> None"
proof -
  obtain address name where r: "requests t = (address, name)" by (cases "requests t")
  note err = calls_okD(1) [OF ok] and c = calls_okD(3) [OF ok refl, of t]
  note at = create_step_at [where requests = requests and t = t and m = m and junk = junk, OF r err]
  have "mc_pc m t \<le> 13" using c by (simp add: call_ok_def)
  then have "mc_pc m t \<in> {0, 1, 2, 3, 4, 5, 6, 7, 8, 9, 10, 11, 12, 13}" by (auto simp: eval_nat_numeral le_Suc_eq)
  moreover have "mc_pc m t \<notin> {4, 7}"
    using none at(5,8) step_reserve [OF ok, of t] step_open [OF ok, of t junk address name] by force
  moreover have "mc_pc m t = 0 \<Longrightarrow> mc_owner m (fst (requests t)) \<noteq> None" using none at(1) r by (auto split: if_splits)
  moreover have "mc_pc m t \<notin> {1, 2, 3, 5, 6, 8, 9, 10, 11, 12}"
  proof
    assume "mc_pc m t \<in> {1, 2, 3, 5, 6, 8, 9, 10, 11, 12}"
    then have "thread_step (create_code junk requests) t m \<noteq> None"
      by (elim insertE emptyE) (simp_all only: at(2-4,6,7,9-13) option.distinct not_False_eq_True)
    then show False using none by simp
  qed
  ultimately show ?thesis by blast
qed

text \<open>
  Property C3. The calls of the web server's threads end: whatever \<open>n\<close> of them run, in whatever order their steps are
  made, no call fails, no more than \<open>n (9 + 5 n)\<close> steps are made in all, and as long as one has not
  returned, one of them can make a step. So with consistent nodes the missing limit of attempts is
  no harm, and the locks of the users cannot block.
\<close>

theorem interleaved_calls_return:
  assumes run: "machine_run (create_code junk requests) ts (machine_start (create_start fe users)) = Some m"
    and calls: "set ts \<subseteq> {..<n}" and nodes: "nodes_ok (fe_nodes fe)"
  shows "mc_error m = None \<and> length ts \<le> n * (9 + 5 * n) \<and>
    ((\<forall>t<n. thread_step (create_code junk requests) t m = None) \<longrightarrow>
     (\<forall>t<n. thread_ended (create_code junk requests) t m \<and> lc_result (cr_locals (mc_shared m) t) \<noteq> None))"
proof -
  have ok: "calls_ok m" and len: "length ts + all_left n m \<le> n * (9 + 5 * n)"
    using calls_run [OF calls_start [OF nodes] run calls] by (simp_all add: all_left_start)
  have reach: "machine_reach (create_code junk requests) (create_start fe users) m"
    by (rule machine_run_reach [OF machine_reach.start run])
  have ended: "mc_pc m t = 13" if none: "\<forall>t<n. thread_step (create_code junk requests) t m = None" and t: "t < n" for t
  proof (rule ccontr)
    assume "mc_pc m t \<noteq> 13"
    then obtain u where "mc_owner m (fst (requests t)) = Some u"
      using create_blocked [OF ok none [rule_format, OF t]] by blast
    then have "holds (fst (requests t)) (create_inside requests (fst (requests t)) u) u m"
      by (simp only: user_lock.owner_holds [OF reach calls_okD(1) [OF ok]])
    then have u: "1 \<le> mc_pc m u" "mc_pc m u \<le> 12" by (simp_all add: holds_def create_inside_def)
    then have "u \<in> set ts" using machine_run_others [OF run, of u] by (auto simp: machine_start_def)
    then have "u < n" using calls by blast
    then show False using create_blocked [OF ok none [rule_format, of u]] u by simp
  qed
  have "lc_result (cr_locals (mc_shared m) t) \<noteq> None" if "mc_pc m t = 13" for t
    using calls_okD(3) [OF ok that] by (simp add: call_ok_def)
  then show ?thesis using ended len calls_okD(1) [OF ok] by (simp add: thread_ended_def create_length)
qed

text \<open>Two calls of two users, to their end.\<close>

theorem interleaved_calls_return_witness:
  "\<exists>m. machine_run (create_code 0 example_requests) example_schedule (machine_start (create_start example_frontend example_users)) = Some m \<and>
    mc_error m = None \<and> length example_schedule \<le> 38 \<and> thread_ended (create_code 0 example_requests) 1 m \<and>
    lc_result (cr_locals (mc_shared m) 1) \<noteq> None"
proof -
  have "\<exists>m. machine_run (create_code 0 example_requests) example_schedule (machine_start (create_start example_frontend example_users)) = Some m \<and>
    mc_pc m 0 = 13 \<and> mc_pc m 1 = 13"
    by (simp add: create_eval example_requests_def example_schedule_def)
  then obtain m where m: "machine_run (create_code 0 example_requests) example_schedule (machine_start (create_start example_frontend example_users)) = Some m"
    "mc_pc m 0 = 13" "mc_pc m 1 = 13" by blast
  have none: "\<forall>t<2. thread_step (create_code 0 example_requests) t m = None"
    using m(2,3) by (simp add: numeral_2_eq_2 all_less_Suc_nat thread_step_def create_length)
  have two: "set example_schedule \<subseteq> {..<2}" by (simp add: example_schedule_def)
  from interleaved_calls_return [OF m(1) two example_nodes_ok] none m(1) show ?thesis by auto
qed

end
