(* ===== verification/Sections.thy ===== *)
theory Sections
  imports Threads
begin

text \<open>
  Operations that run under one mutex from their first access to the shared state to their last
  are atomic, whatever instructions they consist of.

  \<open>view\<close> is the part of the shared state the mutex protects, \<open>step t\<close> the effect of the whole operation of
  thread \<open>t\<close>. \<open>mid t p a s\<close> says how far the operation has come at point \<open>p\<close>, if it began in \<open>a\<close>;
  \<open>outer t p a\<close> is what a thread outside its section relies on, and \<open>passed t p\<close> says that its section is
  behind it. The contract is one condition for every instruction; the lemma lifts it to all
  interleavings: the operations that have been passed, each once, in the order in which they
  gave the mutex back, lead to the state the mutex protects.
\<close>

fun operations_run :: "('t \<Rightarrow> 'a \<Rightarrow> 'a \<Rightarrow> bool) \<Rightarrow> 't list \<Rightarrow> 'a \<Rightarrow> 'a \<Rightarrow> bool" where
  "operations_run step [] a b \<longleftrightarrow> b = a"
| "operations_run step (t # ts) a b \<longleftrightarrow> (\<exists>c. step t a c \<and> operations_run step ts c b)"

lemma operations_run_append:
  "operations_run step (ts @ us) a b \<longleftrightarrow> (\<exists>c. operations_run step ts a c \<and> operations_run step us c b)"
  by (induction ts arbitrary: a) auto

fun section_ok ::
  "'m \<Rightarrow> ('s \<Rightarrow> 'a) \<Rightarrow> ('t \<Rightarrow> 'a \<Rightarrow> 'a \<Rightarrow> bool) \<Rightarrow> ('t \<Rightarrow> nat \<Rightarrow> bool) \<Rightarrow> ('t \<Rightarrow> nat \<Rightarrow> bool) \<Rightarrow>
   ('t \<Rightarrow> nat \<Rightarrow> 'a \<Rightarrow> bool) \<Rightarrow> ('t \<Rightarrow> nat \<Rightarrow> 'a \<Rightarrow> 's \<Rightarrow> bool) \<Rightarrow> 't \<Rightarrow> nat \<Rightarrow> ('m, 's) instr \<Rightarrow> bool" where
  "section_ok mon view step inside passed outer mid t p (Lock k) \<longleftrightarrow>
     k = mon \<and> \<not> passed t p \<and> \<not> passed t (Suc p) \<and> (\<forall>s. outer t p (view s) \<longrightarrow> mid t (Suc p) (view s) s)"
| "section_ok mon view step inside passed outer mid t p (Unlock k) \<longleftrightarrow>
     k = mon \<and> \<not> passed t p \<and>
     (\<forall>a s. mid t p a s \<longrightarrow> step t a (view s) \<and> outer t (Suc p) (view s) \<and> passed t (Suc p))"
| "section_ok mon view step inside passed outer mid t p (Wait k) \<longleftrightarrow> False"
| "section_ok mon view step inside passed outer mid t p (Notify_all k) \<longleftrightarrow>
     (passed t (Suc p) \<longleftrightarrow> passed t p) \<and>
     (if inside t p then \<forall>a s. mid t p a s \<longrightarrow> mid t (Suc p) a s else \<forall>a. outer t p a \<longrightarrow> outer t (Suc p) a)"
| "section_ok mon view step inside passed outer mid t p (Act f) \<longleftrightarrow>
     (passed t (Suc p) \<longleftrightarrow> passed t p) \<and>
     (\<forall>s s'. f s = (Inr (), s') \<longrightarrow>
        (if inside t p then \<forall>a. mid t p a s \<longrightarrow> mid t (Suc p) a s'
         else view s' = view s \<and> (\<forall>a. outer t p a \<longrightarrow> outer t (Suc p) a) \<and>
           (\<forall>u q a. u \<noteq> t \<longrightarrow> mid u q a s \<longrightarrow> mid u q a s')))"
| "section_ok mon view step inside passed outer mid t p (Branch c l) \<longleftrightarrow>
     (\<forall>s. snd (c s) = s \<and> (passed t (if fst (c s) then Suc p else l) \<longleftrightarrow> passed t p) \<and>
        (if inside t p then \<forall>a. mid t p a s \<longrightarrow> mid t (if fst (c s) then Suc p else l) a s
         else \<forall>a. outer t p a \<longrightarrow> outer t (if fst (c s) then Suc p else l) a))"
| "section_ok mon view step inside passed outer mid t p (Goto l) \<longleftrightarrow>
     (passed t l \<longleftrightarrow> passed t p) \<and>
     (if inside t p then \<forall>a s. mid t p a s \<longrightarrow> mid t l a s else \<forall>a. outer t p a \<longrightarrow> outer t l a)"
| "section_ok mon view step inside passed outer mid t p (Await c) \<longleftrightarrow>
     (passed t (Suc p) \<longleftrightarrow> passed t p) \<and>
     (if inside t p then \<forall>a s. mid t p a s \<longrightarrow> mid t (Suc p) a s else \<forall>a. outer t p a \<longrightarrow> outer t (Suc p) a)"

locale atomic_sections =
  monitor_discipline code mon "\<lambda>_ _. False" inside "\<lambda>_ _. False" "\<lambda>_ _. False"
  for code :: "'t \<Rightarrow> ('m, 's) instr list" and mon :: 'm and inside :: "'t \<Rightarrow> nat \<Rightarrow> bool" +
  fixes view :: "'s \<Rightarrow> 'a" and step :: "'t \<Rightarrow> 'a \<Rightarrow> 'a \<Rightarrow> bool" and passed :: "'t \<Rightarrow> nat \<Rightarrow> bool"
    and outer :: "'t \<Rightarrow> nat \<Rightarrow> 'a \<Rightarrow> bool"
    and mid :: "'t \<Rightarrow> nat \<Rightarrow> 'a \<Rightarrow> 's \<Rightarrow> bool"
  assumes sections: "p < length (code t) \<Longrightarrow> section_ok mon view step inside passed outer mid t p (code t ! p)"
    and stable: "step u a a' \<Longrightarrow> u \<noteq> t \<Longrightarrow> outer t p a \<Longrightarrow> outer t p a'"
    and not_passed: "\<not> passed t 0"
begin

text \<open>The state \<open>a\<close> the operations that have ended have led to, and what the running one has made of it.\<close>

definition simulated :: "('t, 'm, 's) machine \<Rightarrow> 'a \<Rightarrow> bool" where
  "simulated m a \<longleftrightarrow> (mc_owner m mon = None \<longrightarrow> view (mc_shared m) = a) \<and>
     (\<forall>t. if inside t (mc_pc m t) then mid t (mc_pc m t) a (mc_shared m) else outer t (mc_pc m t) a)"

lemma never_waits: "p < length (code t) \<Longrightarrow> code t ! p \<noteq> Wait k"
  using sections [of p t] by auto

lemma all_running:
  assumes "machine_reach code s m" and "mc_error m = None"
  shows "mc_activity m t = Running"
proof -
  have "waits_right m" using discipline_reach [OF assms] by (simp add: discipline_def)
  then show ?thesis using never_waits unfolding waits_right_def by (cases "mc_activity m t") blast+
qed

lemma owner_inside:
  assumes "machine_reach code s m" and "mc_error m = None"
  shows "mc_owner m mon = Some t \<longleftrightarrow> inside t (mc_pc m t)"
  using owner_holds [OF assms] all_running [OF assms] by (simp add: holds_def)

text \<open>A step inside the section moves the running operation on; one outside changes nothing.\<close>

lemma simulated_inside:
  assumes "simulated m a" and "mc_owner m' mon = Some t" and "inside t (mc_pc m' t)" and "mid t (mc_pc m' t) a (mc_shared m')"
    and "\<And>u. u \<noteq> t \<Longrightarrow> mc_pc m' u = mc_pc m u \<and> \<not> inside u (mc_pc m u)"
  shows "simulated m' a"
  unfolding simulated_def
proof (intro conjI impI allI)
  fix u
  show "if inside u (mc_pc m' u) then mid u (mc_pc m' u) a (mc_shared m') else outer u (mc_pc m' u) a"
    using assms by (cases "u = t") (auto simp: simulated_def dest: spec [of _ u])
qed (use assms(2) in simp)

lemma simulated_outside:
  assumes "simulated m a" and "mc_owner m' mon = mc_owner m mon" and "view (mc_shared m') = view (mc_shared m)"
    and "\<not> inside t (mc_pc m' t)" and "outer t (mc_pc m' t) a"
    and "\<And>u. u \<noteq> t \<Longrightarrow> mc_pc m' u = mc_pc m u \<and> (mid u (mc_pc m u) a (mc_shared m) \<longrightarrow> mid u (mc_pc m u) a (mc_shared m'))"
  shows "simulated m' a"
  unfolding simulated_def
proof (intro conjI impI allI)
  fix u
  show "if inside u (mc_pc m' u) then mid u (mc_pc m' u) a (mc_shared m') else outer u (mc_pc m' u) a"
    using assms(1,4-6) by (cases "u = t") (auto simp: simulated_def dest: spec [of _ u])
qed (use assms in \<open>simp add: simulated_def\<close>)

lemma simulated_step:
  assumes reach: "machine_reach code s m" and sim: "simulated m a"
    and step: "thread_step code t m = Some m'" and err: "mc_error m' = None"
  shows "simulated m' a \<and> (passed t (mc_pc m' t) \<longleftrightarrow> passed t (mc_pc m t)) \<or>
    (\<exists>a'. step t a a' \<and> simulated m' a' \<and> \<not> passed t (mc_pc m t) \<and> passed t (mc_pc m' t))"
proof -
  let ?p = "mc_pc m t" and ?s = "mc_shared m"
  have err0: "mc_error m = None" and p: "?p < length (code t)" and s: "instr_step t (code t ! ?p) m = Some m'"
    using step by (auto simp: thread_step_def split: if_splits)
  note ok = keeps_at [OF p] and sec = sections [OF p]
  note own = owner_inside [OF reach err0] and own' = owner_inside [OF machine_reach.step [OF reach step] err]
  have others: "mc_pc m' u = mc_pc m u" if "u \<noteq> t" for u using thread_step_others [OF step that] .
  have now: "if inside t ?p then mid t ?p a ?s else outer t ?p a" using sim by (simp add: simulated_def)
  have alone: "\<not> inside u (mc_pc m u)" if "inside t ?p" "u \<noteq> t" for u using own [of t] own [of u] that by auto
  have inner: "simulated m' a" if "inside t ?p" "inside t (mc_pc m' t)" "mid t (mc_pc m' t) a (mc_shared m')"
    using simulated_inside [OF sim _ that(2,3)] own' [of t] that others alone by simp
  have outside: "simulated m' a"
    if "\<not> inside t ?p" "\<not> inside t (mc_pc m' t)" "mc_owner m' mon = mc_owner m mon" "view (mc_shared m') = view ?s"
      "outer t (mc_pc m' t) a" "\<And>u q. u \<noteq> t \<Longrightarrow> mid u q a ?s \<Longrightarrow> mid u q a (mc_shared m')"
    by (rule simulated_outside [OF sim that(3,4,2,5)]) (use others that(6) in simp)
  have quiet: "simulated m' a"
    if "inside t (mc_pc m' t) \<longleftrightarrow> inside t ?p" and "mc_owner m' = mc_owner m"
      and "inside t ?p \<Longrightarrow> mid t (mc_pc m' t) a (mc_shared m')"
      and "\<not> inside t ?p \<Longrightarrow> view (mc_shared m') = view ?s \<and> outer t (mc_pc m' t) a \<and>
        (\<forall>u q. u \<noteq> t \<longrightarrow> mid u q a ?s \<longrightarrow> mid u q a (mc_shared m'))"
  proof (cases "inside t ?p")
    case True
    then show ?thesis using inner that(1,3) by simp
  next
    case False
    then show ?thesis using outside that by simp
  qed
  show ?thesis
  proof (cases "code t ! ?p")
    case (Lock k)
    then have k: "k = mon" and free: "mc_owner m mon = None" and m': "m' = advance t (m\<lparr>mc_owner := (mc_owner m)(mon := Some t)\<rparr>)"
      using sec s by (auto split: if_splits)
    have "view ?s = a" using sim free by (simp add: simulated_def)
    moreover have "\<not> inside t ?p" "inside t (Suc ?p)" using ok Lock k by auto
    ultimately have "mid t (Suc ?p) a ?s" using sec Lock now by auto
    then have "simulated m' a"
      using simulated_inside [OF sim, of m' t] \<open>inside t (Suc ?p)\<close> others own free by (auto simp: m' advance_def)
    then show ?thesis using sec Lock by (simp add: m' advance_def)
  next
    case (Unlock k)
    then have k: "k = mon" and m': "m' = advance t (m\<lparr>mc_owner := (mc_owner m)(mon := None)\<rparr>)" using sec s by auto
    have ins: "inside t ?p" "\<not> inside t (Suc ?p)" using ok Unlock k by auto
    then have st: "step t a (view ?s)" "outer t (Suc ?p) (view ?s)" "passed t (Suc ?p)" "\<not> passed t ?p"
      using sec Unlock now by auto
    have "outer u (mc_pc m u) (view ?s)" if "u \<noteq> t" for u
      using stable [OF st(1)] alone [OF ins(1) that] sim that by (auto simp: simulated_def)
    then have "simulated m' (view ?s)"
      using st(2) ins alone [OF ins(1)] by (auto simp: simulated_def m' advance_def)
    then show ?thesis using st by (auto simp: m' advance_def)
  next
    case (Wait k)
    then show ?thesis using sec by simp
  next
    case (Notify_all k)
    then have m': "mc_pc m' t = Suc ?p" "mc_shared m' = ?s" "mc_owner m' = mc_owner m" using s by (auto simp: advance_def)
    have "simulated m' a"
      using Notify_all ok sec now by (intro quiet) (auto simp: m')
    then show ?thesis using sec Notify_all by (simp add: m')
  next
    case (Act f)
    then obtain s' where f: "f ?s = (Inr (), s')" and m': "mc_pc m' t = Suc ?p" "mc_shared m' = s'" "mc_owner m' = mc_owner m"
      using s err by (auto simp: advance_def split: prod.splits sum.splits)
    have "simulated m' a"
      using Act ok sec now f by (intro quiet) (auto simp: m' moves_def)
    then show ?thesis using sec Act by (simp add: m')
  next
    case (Branch c l)
    have c: "snd (c ?s) = ?s" using sec Branch by auto
    then have m': "mc_pc m' t = (if fst (c ?s) then Suc ?p else l)" "mc_shared m' = ?s" "mc_owner m' = mc_owner m"
      using s Branch by (auto split: prod.splits)
    have "simulated m' a"
      using Branch ok sec now c by (intro quiet) (auto simp: m' moves_def)
    then show ?thesis using sec Branch by (simp add: m')
  next
    case (Goto l)
    then have m': "mc_pc m' t = l" "mc_shared m' = ?s" "mc_owner m' = mc_owner m" using s by auto
    have "simulated m' a"
      using Goto ok sec now by (intro quiet) (auto simp: m' moves_def)
    then show ?thesis using sec Goto by (simp add: m')
  next
    case (Await c)
    then have m': "mc_pc m' t = Suc ?p" "mc_shared m' = ?s" "mc_owner m' = mc_owner m" using s by (auto simp: advance_def split: if_splits)
    have "simulated m' a"
      using Await ok sec now by (intro quiet) (auto simp: m' moves_def)
    then show ?thesis using sec Await by (simp add: m')
  qed
qed

text \<open>
  In every reachable state the operations that have been passed, and no others, have had their
  whole effect, one after the other, and while nobody is inside the protected state is what they
  have led to.
\<close>

lemma sections_atomic:
  assumes "machine_reach code s m" and "mc_error m = None" and "\<And>t. outer t 0 (view s)"
  shows "\<exists>ops a. distinct ops \<and> set ops = {t. passed t (mc_pc m t)} \<and> operations_run step ops (view s) a \<and> simulated m a"
  using assms(1,2)
proof (induction rule: machine_reach.induct)
  case start
  have "\<not> inside t 0" for t using keeps [of t] by (simp add: code_ok_def)
  then have "simulated (machine_start s) (view s)" using assms(3) by (simp add: simulated_def machine_start_def)
  then show ?case
    by (intro exI [of _ "[]"] exI [of _ "view s"]) (simp add: machine_start_def not_passed)
next
  case (step m t m')
  then have "mc_error m = None" by (auto simp: thread_step_def split: if_splits)
  then obtain ops a where ops: "distinct ops" "set ops = {t. passed t (mc_pc m t)}" "operations_run step ops (view s) a"
    and sim: "simulated m a" using step.IH by blast
  have others: "mc_pc m' u = mc_pc m u" if "u \<noteq> t" for u using thread_step_others [OF step.hyps(2) that] .
  from simulated_step [OF step.hyps(1) sim step.hyps(2) step.prems] show ?case
  proof (elim disjE exE conjE)
    assume "simulated m' a" "passed t (mc_pc m' t) = passed t (mc_pc m t)"
    moreover from this(2) have "{u. passed u (mc_pc m' u)} = {u. passed u (mc_pc m u)}" using others by metis
    ultimately show ?thesis using ops by (intro exI [of _ ops] exI [of _ a]) simp
  next
    fix a'
    assume a': "step t a a'" "simulated m' a'" "\<not> passed t (mc_pc m t)" "passed t (mc_pc m' t)"
    have "{u. passed u (mc_pc m' u)} = insert t {u. passed u (mc_pc m u)}" using others a'(3,4) by (auto) metis+
    then show ?thesis using ops a'
      by (intro exI [of _ "ops @ [t]"] exI [of _ a']) (auto simp: operations_run_append)
  qed
next
  case (spurious m t)
  moreover have "simulated (wake t m) a = simulated m a" for a by (simp add: simulated_def wake_def)
  moreover have "mc_pc (wake t m) = mc_pc m" by (simp add: wake_def)
  ultimately show ?case by simp
qed

end

end
