(* ===== verification/NodeThreads.thy ===== *)
theory NodeThreads
  imports Sections SessionManager
begin

text \<open>
  The threads of a node at its session manager: \<open>ReMoLON/src/SessionManager.cpp\<close>, with the thread
  of a session of \<open>src/StreamingSession.cpp\<close> and the action of \<open>src/remotooclientpackets/SessionInfo.cpp\<close>.

  The client's executing loop and the workers of the inner server's pool call the manager, and so
  does the thread each session has, when the process of the session ends. \<open>SessionManager\<close> says what
  a call does by itself; here their instructions interleave. Starting, closing one session or all, and
  clearing hold \<open>_mtx\<close> throughout; \<open>getStreamSession\<close> and the use of the pointer it returns do not.
\<close>

section \<open>What the threads share\<close>

text \<open>The arguments of a call of \<open>startNewSession\<close>; \<open>sc_thread\<close> says whether a thread can be created.\<close>

record start_call =
  sc_owner :: string
  sc_address :: string
  sc_name :: string
  sc_port :: "16 word"
  sc_thread :: bool

text \<open>
  The manager and the local variables of the calls. \<open>nt_creator\<close> names, for the session object in
  the list of an owner, the call that made it: it tells an object from a later one of the same
  name. \<open>nt_status\<close> is the result a call has sent to the front end, \<open>nt_told\<close> lists the
  connections that were told to finish.
\<close>

record 'c node_threads =
  nt_manager :: "'c sessionManager"
  nt_creator :: "string \<Rightarrow> string \<Rightarrow> nat option"
  nt_sockPort :: "nat \<Rightarrow> 16 word"
  nt_rtcPort :: "nat \<Rightarrow> 16 word"
  nt_launched :: "nat \<Rightarrow> bool"
  nt_status :: "nat \<Rightarrow> launch_status option"
  nt_told :: "'c list"
  nt_found :: "nat \<Rightarrow> nat option"

definition node_start :: "'c sessionManager \<Rightarrow> 'c node_threads" where
  "node_start sm =
     \<lparr>nt_manager = sm, nt_creator = (\<lambda>_ _. None), nt_sockPort = (\<lambda>_. 0), nt_rtcPort = (\<lambda>_. 0), nt_launched = (\<lambda>_. False),
      nt_status = (\<lambda>_. None), nt_told = [], nt_found = (\<lambda>_. None)\<rparr>"

definition on_manager :: "('c sessionManager \<Rightarrow> 'c sessionManager) \<Rightarrow> ('c node_threads, unit) sx" where
  "on_manager f s = (Inr (), s\<lparr>nt_manager := f (nt_manager s)\<rparr>)"

section \<open>Starting a session\<close>

definition take_sockPort :: "nat \<Rightarrow> ('c node_threads, unit) sx" where
  "take_sockPort k s =
     (case findAvailablePort (sm_usedSockPorts (nt_manager s)) of
        (port, socks) \<Rightarrow> on_manager (\<lambda>sm. sm\<lparr>sm_usedSockPorts := socks\<rparr>) (s\<lparr>nt_sockPort := (nt_sockPort s)(k := port)\<rparr>))"

definition take_rtcPort :: "nat \<Rightarrow> ('c node_threads, unit) sx" where
  "take_rtcPort k s =
     (case findAvailablePort (sm_usedRTCPorts (nt_manager s)) of
        (port, rtcs) \<Rightarrow> on_manager (\<lambda>sm. sm\<lparr>sm_usedRTCPorts := rtcs\<rparr>) (s\<lparr>nt_rtcPort := (nt_rtcPort s)(k := port)\<rparr>))"

definition ports_available :: "nat \<Rightarrow> start_call \<Rightarrow> 'c node_threads \<Rightarrow> bool" where
  "ports_available k c s \<longleftrightarrow>
     (let portIt = um_find (sm_usedPorts (nt_manager s)) (sc_port c) in
      \<not> (portIt = None \<or> portIt = Some True \<or> nt_sockPort s k = 0 \<or> nt_rtcPort s k = 0))"

definition mark_port :: "start_call \<Rightarrow> ('c node_threads, unit) sx" where
  "mark_port c = on_manager (\<lambda>sm. sm\<lparr>sm_usedPorts := um_set (sc_port c) True (sm_usedPorts sm)\<rparr>)"

definition open_list :: "string \<Rightarrow> ('c node_threads, unit) sx" where
  "open_list owner = on_manager (\<lambda>sm. put_sessions owner (sessions_of owner sm) sm)"

definition new_name :: "start_call \<Rightarrow> 'c node_threads \<Rightarrow> bool" where
  "new_name c s \<longleftrightarrow> um_find (sessions_of (sc_owner c) (nt_manager s)) (sc_name c) = None"

definition create_object :: "32 word \<Rightarrow> nat \<Rightarrow> start_call \<Rightarrow> ('c node_threads, unit) sx" where
  "create_object junk k c s =
     on_manager (\<lambda>sm. put_sessions (sc_owner c)
         (um_set (sc_name c) (StreamingSession_new junk) (sessions_of (sc_owner c) sm)) sm)
       (s\<lparr>nt_creator := (nt_creator s)(sc_owner c := (nt_creator s (sc_owner c))(sc_name c := Some k))\<rparr>)"

text \<open>A setter, called on the reference \<open>session\<close>.\<close>

definition on_session :: "start_call \<Rightarrow> ('c streamingSession \<Rightarrow> 'c streamingSession) \<Rightarrow> ('c node_threads, unit) sx" where
  "on_session c f s =
     (case um_find (sessions_of (sc_owner c) (nt_manager s)) (sc_name c) of
        None \<Rightarrow> (Inl (UB Dangling_pointer), s)
      | Some session \<Rightarrow> on_manager (\<lambda>sm. put_sessions (sc_owner c)
            (um_set (sc_name c) (f session) (sessions_of (sc_owner c) sm)) sm) s)"

definition set_ports :: "nat \<Rightarrow> start_call \<Rightarrow> ('c node_threads, unit) sx" where
  "set_ports k c s = on_session c (setSessionPorts (sc_port c) (nt_sockPort s k) (nt_rtcPort s k)) s"

definition launch :: "nat \<Rightarrow> start_call \<Rightarrow> ('c node_threads, unit) sx" where
  "launch k c s = (Inr (), s\<lparr>nt_launched := (nt_launched s)(k := tryLaunchSession (sc_thread c))\<rparr>)"

definition send_status :: "nat \<Rightarrow> ('c node_threads \<Rightarrow> launch_status) \<Rightarrow> ('c node_threads, unit) sx" where
  "send_status k result s = (Inr (), s\<lparr>nt_status := (nt_status s)(k := Some (result s))\<rparr>)"

definition startNewSession_code :: "32 word \<Rightarrow> nat \<Rightarrow> start_call \<Rightarrow> (unit, 'c node_threads) instr list" where
  "startNewSession_code junk k c =
     [\<comment> \<open>0\<close> Lock (),
      \<comment> \<open>1\<close> Act (take_sockPort k),
      \<comment> \<open>2\<close> Act (take_rtcPort k),
      \<comment> \<open>3\<close> Branch (\<lambda>s. (ports_available k c s, s)) 15,
      \<comment> \<open>4\<close> Act (mark_port c),
      \<comment> \<open>5\<close> Act (open_list (sc_owner c)),
      \<comment> \<open>6\<close> Branch (\<lambda>s. (new_name c s, s)) 17,
      \<comment> \<open>7\<close> Act (create_object junk k c),
      \<comment> \<open>8\<close> Act (on_session c (setSessionName (sc_name c))),
      \<comment> \<open>9\<close> Act (on_session c (setSessionOwner (sc_owner c))),
      \<comment> \<open>10\<close> Act (on_session c (setSessionOwnerAddress (sc_address c))),
      \<comment> \<open>11\<close> Act (set_ports k c),
      \<comment> \<open>12\<close> Act (launch k c),
      \<comment> \<open>13\<close> Act (send_status k (\<lambda>s. if nt_launched s k then SESSION_LAUNCH_OK else SESSION_LAUNCH_CRASHED)),
      \<comment> \<open>14\<close> Goto 18,
      \<comment> \<open>15\<close> Act (send_status k (\<lambda>_. SESSION_LAUNCH_PORT_UNAVAILABLE)),
      \<comment> \<open>16\<close> Goto 18,
      \<comment> \<open>17\<close> Act (send_status k (\<lambda>_. SESSION_LAUNCH_DUPLICATE_NAME)),
      \<comment> \<open>18\<close> Unlock ()]"

section \<open>The end of a session's process\<close>

text \<open>The thread of a session has a pointer to it; \<open>clearSession\<close> reads it through a reference.\<close>

definition through_pointer ::
  "nat \<Rightarrow> start_call \<Rightarrow> ('c streamingSession \<Rightarrow> ('c node_threads, unit) sx) \<Rightarrow> ('c node_threads, unit) sx" where
  "through_pointer k c f s =
     (case um_find (sessions_of (sc_owner c) (nt_manager s)) (sc_name c) of
        None \<Rightarrow> (Inl (UB Dangling_pointer), s)
      | Some session \<Rightarrow>
          (if nt_creator s (sc_owner c) (sc_name c) = Some k then f session s else (Inl (UB Dangling_pointer), s)))"

definition release_port :: "'c streamingSession \<Rightarrow> ('c node_threads, unit) sx" where
  "release_port session = on_manager (\<lambda>sm. sm\<lparr>sm_usedPorts := um_set (ucast (getSessionPort session)) False (sm_usedPorts sm)\<rparr>)"

definition release_sockPort :: "'c streamingSession \<Rightarrow> ('c node_threads, unit) sx" where
  "release_sockPort session =
     on_manager (\<lambda>sm. sm\<lparr>sm_usedSockPorts := um_set (ucast (getSessionSocketPort session)) False (sm_usedSockPorts sm)\<rparr>)"

definition release_rtcPort :: "'c streamingSession \<Rightarrow> ('c node_threads, unit) sx" where
  "release_rtcPort session =
     on_manager (\<lambda>sm. sm\<lparr>sm_usedRTCPorts := um_set (ucast (getSessionRTCPort session)) False (sm_usedRTCPorts sm)\<rparr>)"

definition erase_session :: "'c streamingSession \<Rightarrow> ('c node_threads, unit) sx" where
  "erase_session session s =
     (let owner = getSessionOwner session; name = getSessionName session; sList = sessions_of owner (nt_manager s) in
      if um_find sList name = None then on_manager (put_sessions owner sList) s
      else on_manager (put_sessions owner (um_erase name sList))
        (s\<lparr>nt_creator := (nt_creator s)(owner := (nt_creator s owner)(name := None))\<rparr>))"

text \<open>
  The thread of the session that call \<open>k\<close> has made, from its start. \<open>child\<close> is what \<open>fork\<close> returns: the
  child process has no part in the threads of its parent.
\<close>

definition session_thread_code :: "fork_result \<Rightarrow> nat \<Rightarrow> start_call \<Rightarrow> (unit, 'c node_threads) instr list" where
  "session_thread_code child k c =
     [\<comment> \<open>0\<close> Await (\<lambda>s. nt_launched s k),
      \<comment> \<open>1\<close> Branch (\<lambda>s. (child = Fork_parent, s)) 8,
      \<comment> \<open>2, clearSession\<close> Lock (),
      \<comment> \<open>3\<close> Act (through_pointer k c release_port),
      \<comment> \<open>4\<close> Act (through_pointer k c release_sockPort),
      \<comment> \<open>5\<close> Act (through_pointer k c release_rtcPort),
      \<comment> \<open>6\<close> Act (through_pointer k c erase_session),
      \<comment> \<open>7\<close> Unlock ()]"

section \<open>Closing, and the announcement of a process\<close>

definition finish_named :: "string \<Rightarrow> string \<Rightarrow> ('c node_threads, unit) sx" where
  "finish_named owner name s =
     (case finishSession owner name (nt_manager s) of
        (Inl e, sm) \<Rightarrow> (Inl e, s\<lparr>nt_manager := sm\<rparr>)
      | (Inr None, sm) \<Rightarrow> (Inr (), s\<lparr>nt_manager := sm\<rparr>)
      | (Inr (Some con), sm) \<Rightarrow> (Inr (), s\<lparr>nt_manager := sm, nt_told := nt_told s @ [con]\<rparr>))"

definition finishSession_code :: "string \<times> string \<Rightarrow> (unit, 'c node_threads) instr list" where
  "finishSession_code call = [Lock (), Act (finish_named (fst call) (snd call)), Unlock ()]"

definition finish_all :: "('c node_threads, unit) sx" where
  "finish_all s =
     (case finishAllSessions (nt_manager s) of
        Inl e \<Rightarrow> (Inl e, s)
      | Inr told \<Rightarrow> (Inr (), s\<lparr>nt_told := nt_told s @ told\<rparr>))"

definition finishAllSessions_code :: "(unit, 'c node_threads) instr list" where
  "finishAllSessions_code = [Lock (), Act finish_all, Unlock ()]"

record 'c announce_call =
  ac_owner :: string
  ac_name :: string
  ac_connection :: "'c pointer"

definition look_up :: "nat \<Rightarrow> 'c announce_call \<Rightarrow> ('c node_threads, unit) sx" where
  "look_up j c s =
     (case getStreamSession (ac_owner c) (ac_name c) (nt_manager s) of
        (session, sm) \<Rightarrow> (Inr (), s\<lparr>nt_manager := sm,
            nt_found := (nt_found s)(j := if session = None then None else nt_creator s (ac_owner c) (ac_name c))\<rparr>))"

definition connect_found :: "nat \<Rightarrow> 'c announce_call \<Rightarrow> ('c node_threads, unit) sx" where
  "connect_found j c s =
     (case um_find (sessions_of (ac_owner c) (nt_manager s)) (ac_name c) of
        None \<Rightarrow> (Inl (UB Dangling_pointer), s)
      | Some session \<Rightarrow>
          (if nt_creator s (ac_owner c) (ac_name c) = nt_found s j
           then on_manager (\<lambda>sm. put_sessions (ac_owner c)
               (um_set (ac_name c) (setConnection (ac_connection c) session) (sessions_of (ac_owner c) sm)) sm) s
           else (Inl (UB Dangling_pointer), s)))"

definition SessionInfo_code :: "nat \<Rightarrow> 'c announce_call \<Rightarrow> (unit, 'c node_threads) instr list" where
  "SessionInfo_code j c =
     [Act (look_up j c),
      Branch (\<lambda>s. (nt_found s j \<noteq> None, s)) 3,
      Act (connect_found j c)]"

text \<open>All threads: a call for each number, if there is one.\<close>

datatype node_thread = Start nat | Ending nat | Close nat | CloseAll | Announce nat

record 'c node_calls =
  nc_starts :: "nat \<Rightarrow> start_call"
  nc_forks :: "nat \<Rightarrow> fork_result"
  nc_closes :: "nat \<Rightarrow> string \<times> string"
  nc_announces :: "nat \<Rightarrow> 'c announce_call option"

fun node_code :: "32 word \<Rightarrow> 'c node_calls \<Rightarrow> node_thread \<Rightarrow> (unit, 'c node_threads) instr list" where
  "node_code junk nc (Start k) = startNewSession_code junk k (nc_starts nc k)"
| "node_code junk nc (Ending k) = session_thread_code (nc_forks nc k) k (nc_starts nc k)"
| "node_code junk nc (Close j) = finishSession_code (nc_closes nc j)"
| "node_code junk nc CloseAll = finishAllSessions_code"
| "node_code junk nc (Announce j) = (case nc_announces nc j of None \<Rightarrow> [] | Some c \<Rightarrow> SessionInfo_code j c)"

end
