(* ===== verification/NodeAtomic.thy ===== *)
theory NodeAtomic
  imports NodeThreads
begin

text \<open>
  The calls at the session manager of a node are atomic: the instructions of \<open>NodeThreads\<close>, interleaved
  in any way, have the effect of the operations of \<open>SessionManager\<close> one after the other. The contract
  is that of \<open>Sections\<close>: \<open>call_progress\<close> says how far a call has come at each of its points, and one
  lemma per instruction shows that it moves the call on. The announcement of a process takes no part
  in this, since it does not hold the mutex; \<open>NodePointers\<close> shows what that leads to.
\<close>

section \<open>The calls as atomic operations\<close>

text \<open>The mutex is held at these points.\<close>

fun manager_inside :: "node_thread \<Rightarrow> nat \<Rightarrow> bool" where
  "manager_inside (Start k) p \<longleftrightarrow> 1 \<le> p \<and> p \<le> 18"
| "manager_inside (Ending k) p \<longleftrightarrow> 3 \<le> p \<and> p \<le> 7"
| "manager_inside (Close j) p \<longleftrightarrow> 1 \<le> p \<and> p \<le> 2"
| "manager_inside CloseAll p \<longleftrightarrow> 1 \<le> p \<and> p \<le> 2"
| "manager_inside (Announce j) p \<longleftrightarrow> False"

text \<open>
  What the mutex protects, with what the calls have sent while they had it: the results of the starts
  and the connections that were told to finish. The effect of a call on them, if it can be carried
  out: a start sends one answer, a close needs connections that were set.
\<close>

type_synonym 'c node_view = "'c sessionManager \<times> (nat \<Rightarrow> launch_status option) \<times> 'c list"

definition sent_answers :: "'c node_threads \<Rightarrow> (nat \<Rightarrow> launch_status option) \<times> 'c list" where
  "sent_answers s = (nt_status s, nt_told s)"

definition manager_view :: "'c node_threads \<Rightarrow> 'c node_view" where
  "manager_view s = (nt_manager s, sent_answers s)"

definition start_result :: "32 word \<Rightarrow> start_call \<Rightarrow> 'c sessionManager \<Rightarrow> launch_status \<times> 'c sessionManager" where
  "start_result junk c = startNewSession (sc_thread c) junk (sc_owner c) (sc_address c) (sc_name c) (sc_port c)"

fun node_operation :: "32 word \<Rightarrow> 'c node_calls \<Rightarrow> node_thread \<Rightarrow> 'c node_view \<Rightarrow> 'c node_view option" where
  "node_operation junk nc (Start k) (sm, st, told) =
     (if st k \<noteq> None then None
      else (case start_result junk (nc_starts nc k) sm of (r, sm') \<Rightarrow> Some (sm', st(k := Some r), told)))"
| "node_operation junk nc (Ending k) (sm, st, told) =
     (case live sm (sc_owner (nc_starts nc k)) (sc_name (nc_starts nc k)) of
        None \<Rightarrow> None
      | Some session \<Rightarrow> Some (clearSession session sm, st, told))"
| "node_operation junk nc (Close j) (sm, st, told) =
     (case finishSession (fst (nc_closes nc j)) (snd (nc_closes nc j)) sm of
        (Inl e, sm') \<Rightarrow> None
      | (Inr None, sm') \<Rightarrow> Some (sm', st, told)
      | (Inr (Some con), sm') \<Rightarrow> Some (sm', st, told @ [con]))"
| "node_operation junk nc CloseAll (sm, st, told) =
     (case finishAllSessions sm of Inl e \<Rightarrow> None | Inr cons \<Rightarrow> Some (sm, st, told @ cons))"
| "node_operation junk nc (Announce j) a = None"

fun node_operations :: "32 word \<Rightarrow> 'c node_calls \<Rightarrow> node_thread list \<Rightarrow> 'c node_view \<Rightarrow> 'c node_view option" where
  "node_operations junk nc [] a = Some a"
| "node_operations junk nc (t # ts) a =
     (case node_operation junk nc t a of None \<Rightarrow> None | Some b \<Rightarrow> node_operations junk nc ts b)"

text \<open>The call has given the mutex back: its section is behind it. A session thread whose \<open>fork\<close> failed has none.\<close>

fun call_passed :: "'c node_calls \<Rightarrow> node_thread \<Rightarrow> nat \<Rightarrow> bool" where
  "call_passed nc (Start k) p \<longleftrightarrow> p = 19"
| "call_passed nc (Ending k) p \<longleftrightarrow> p = 8 \<and> nc_forks nc k = Fork_parent"
| "call_passed nc (Close j) p \<longleftrightarrow> p = 3"
| "call_passed nc CloseAll p \<longleftrightarrow> p = 3"
| "call_passed nc (Announce j) p \<longleftrightarrow> False"

fun call_outside :: "'c node_calls \<Rightarrow> node_thread \<Rightarrow> nat \<Rightarrow> 'c node_view \<Rightarrow> bool" where
  "call_outside nc (Start k) p (sm, st, told) \<longleftrightarrow> (p = 0 \<longrightarrow> st k = None) \<and> (p = 19 \<longrightarrow> st k \<noteq> None)"
| "call_outside nc (Ending k) p a \<longleftrightarrow> (p = 2 \<longrightarrow> nc_forks nc k = Fork_parent)"
| "call_outside nc _ p a \<longleftrightarrow> True"

text \<open>
  How far a start that began with the manager \<open>sm\<close> has come at each point. The object is the
  one in the list, with the members that were set.
\<close>

definition started_object :: "32 word \<Rightarrow> start_call \<Rightarrow> 16 word \<Rightarrow> 16 word \<Rightarrow> nat \<Rightarrow> 'c streamingSession" where
  "started_object junk c q r p =
     (if 11 < p then setSessionPorts (sc_port c) q r else id)
       ((if 10 < p then setSessionOwnerAddress (sc_address c) else id)
         ((if 9 < p then setSessionOwner (sc_owner c) else id)
           ((if 8 < p then setSessionName (sc_name c) else id) (StreamingSession_new junk))))"

definition start_allowed :: "nat \<Rightarrow> start_call \<Rightarrow> 'c sessionManager \<Rightarrow> 'c node_threads \<Rightarrow> bool" where
  "start_allowed k c sm s \<longleftrightarrow> um_find (sm_usedPorts sm) (sc_port c) = Some False \<and> nt_sockPort s k \<noteq> 0 \<and> nt_rtcPort s k \<noteq> 0"

definition start_marked :: "start_call \<Rightarrow> nat \<Rightarrow> 'c sessionManager \<Rightarrow> 'c sessionManager" where
  "start_marked c p sm =
     (if 4 < p then \<lambda>sm. sm\<lparr>sm_usedPorts := um_set (sc_port c) True (sm_usedPorts sm)\<rparr> else id)
       ((if 2 < p then \<lambda>sm. sm\<lparr>sm_usedRTCPorts := snd (findAvailablePort (sm_usedRTCPorts sm))\<rparr> else id)
         ((if 1 < p then \<lambda>sm. sm\<lparr>sm_usedSockPorts := snd (findAvailablePort (sm_usedSockPorts sm))\<rparr> else id) sm))"

definition start_list :: "32 word \<Rightarrow> nat \<Rightarrow> start_call \<Rightarrow> nat \<Rightarrow> 'c node_threads \<Rightarrow> 'c sessionList \<Rightarrow> 'c sessionList" where
  "start_list junk k c p s l =
     (if 7 < p \<and> p < 14 then um_set (sc_name c) (started_object junk c (nt_sockPort s k) (nt_rtcPort s k) p) l else l)"

definition start_progress ::
  "32 word \<Rightarrow> nat \<Rightarrow> start_call \<Rightarrow> nat \<Rightarrow> 'c sessionManager \<Rightarrow> 'c node_threads \<Rightarrow> bool" where
  "start_progress junk k c p sm s \<longleftrightarrow>
     (1 < p \<longrightarrow> nt_sockPort s k = fst (findAvailablePort (sm_usedSockPorts sm))) \<and>
     (2 < p \<longrightarrow> nt_rtcPort s k = fst (findAvailablePort (sm_usedRTCPorts sm))) \<and>
     (3 < p \<longrightarrow> (start_allowed k c sm s \<longleftrightarrow> p \<noteq> 15)) \<and>
     (6 < p \<and> p \<noteq> 15 \<longrightarrow> (um_find (sessions_of (sc_owner c) sm) (sc_name c) = None \<longleftrightarrow> p \<noteq> 17)) \<and>
     (p = 13 \<longrightarrow> nt_launched s k = sc_thread c) \<and>
     nt_manager s =
       (if 5 < p \<and> p \<noteq> 15 then put_sessions (sc_owner c) (start_list junk k c p s (sessions_of (sc_owner c) sm)) else id)
         (start_marked c (if p = 15 then 3 else if 5 < p then 5 else p) sm)"

definition ending_manager :: "nat \<Rightarrow> 'c streamingSession \<Rightarrow> 'c sessionManager \<Rightarrow> 'c sessionManager" where
  "ending_manager p session sm =
     (if 5 < p then \<lambda>sm. sm\<lparr>sm_usedRTCPorts := um_set (ucast (getSessionRTCPort session)) False (sm_usedRTCPorts sm)\<rparr> else id)
       ((if 4 < p then \<lambda>sm. sm\<lparr>sm_usedSockPorts := um_set (ucast (getSessionSocketPort session)) False (sm_usedSockPorts sm)\<rparr> else id)
         ((if 3 < p then \<lambda>sm. sm\<lparr>sm_usedPorts := um_set (ucast (getSessionPort session)) False (sm_usedPorts sm)\<rparr> else id) sm))"

definition ending_progress :: "start_call \<Rightarrow> nat \<Rightarrow> 'c sessionManager \<Rightarrow> 'c node_threads \<Rightarrow> bool" where
  "ending_progress c p sm s \<longleftrightarrow> (if p = 3 then nt_manager s = sm else
     \<exists>session. live sm (sc_owner c) (sc_name c) = Some session \<and>
       nt_manager s = (if p < 7 then ending_manager p session sm else clearSession session sm))"

fun call_progress :: "32 word \<Rightarrow> 'c node_calls \<Rightarrow> node_thread \<Rightarrow> nat \<Rightarrow> 'c node_view \<Rightarrow> 'c node_threads \<Rightarrow> bool" where
  "call_progress junk nc (Start k) p (sm, st) s \<longleftrightarrow>
     (if p \<in> {14, 16, 18} then node_operation junk nc (Start k) (sm, st) = Some (manager_view s)
      else fst st k = None \<and> sent_answers s = st \<and> start_progress junk k (nc_starts nc k) p sm s)"
| "call_progress junk nc (Ending k) p (sm, st) s \<longleftrightarrow>
     nc_forks nc k = Fork_parent \<and> sent_answers s = st \<and> ending_progress (nc_starts nc k) p sm s"
| "call_progress junk nc (Close j) p a s \<longleftrightarrow>
     (if p = 1 then manager_view s = a else node_operation junk nc (Close j) a = Some (manager_view s))"
| "call_progress junk nc CloseAll p a s \<longleftrightarrow>
     (if p = 1 then manager_view s = a else node_operation junk nc CloseAll a = Some (manager_view s))"
| "call_progress junk nc (Announce j) p a s \<longleftrightarrow> False"

section \<open>Lemmas\<close>

lemma um_set_set: "um_set k v (um_set k w m) = um_set k v m"
proof -
  have "um_replace k v (um_replace k w m) = um_replace k v m"
    by (induction k w m rule: um_replace.induct) simp_all
  then show ?thesis by (simp add: um_set_def um_find_replace)
qed

lemma put_sessions_put: "put_sessions owner l (put_sessions owner l' sm) = put_sessions owner l sm"
  by (simp add: put_sessions_def um_set_set)

lemma start_points: fixes p :: nat shows "p < 19 \<Longrightarrow> p \<in> {0, 1, 2, 3, 4, 5, 6, 7, 8, 9, 10, 11, 12, 13, 14, 15, 16, 17, 18}"
  by (auto simp: eval_nat_numeral less_Suc_eq)

lemma start_marked_simps:
  "sessions_of owner (start_marked c p sm) = sessions_of owner sm"
  "sm_usedPorts (start_marked c p sm) = (if 4 < p then um_set (sc_port c) True (sm_usedPorts sm) else sm_usedPorts sm)"
  by (simp_all add: start_marked_def sm_simps)

lemmas progress_simps = start_progress_def split_def on_manager_def sm_simps put_sessions_put um_set_set um_find_set start_marked_simps

lemma start_act_ports:
  "start_progress junk k c 1 sm s \<Longrightarrow> take_sockPort k s = (Inr (), s') \<Longrightarrow> start_progress junk k c 2 sm s'"
  "start_progress junk k c 2 sm s \<Longrightarrow> take_rtcPort k s = (Inr (), s') \<Longrightarrow> start_progress junk k c 3 sm s'"
  by (auto simp: progress_simps take_sockPort_def take_rtcPort_def start_marked_def)

lemma start_act_allowed:
  "start_progress junk k c 3 sm s \<Longrightarrow> ports_available k c s \<Longrightarrow> start_progress junk k c 4 sm s"
  "start_progress junk k c 3 sm s \<Longrightarrow> \<not> ports_available k c s \<Longrightarrow> start_progress junk k c 15 sm s"
  by (auto simp: start_progress_def start_allowed_def ports_available_def Let_def start_marked_def)

lemma start_act_mark: "start_progress junk k c 4 sm s \<Longrightarrow> mark_port c s = (Inr (), s') \<Longrightarrow> start_progress junk k c 5 sm s'"
  by (auto simp: start_progress_def start_allowed_def mark_port_def on_manager_def start_marked_def)

lemma start_act_open:
  "start_progress junk k c 5 sm s \<Longrightarrow> open_list (sc_owner c) s = (Inr (), s') \<Longrightarrow> start_progress junk k c 6 sm s'"
  by (auto simp: progress_simps start_allowed_def open_list_def start_list_def)

lemma start_act_new:
  "start_progress junk k c 6 sm s \<Longrightarrow> new_name c s \<Longrightarrow> start_progress junk k c 7 sm s"
  "start_progress junk k c 6 sm s \<Longrightarrow> \<not> new_name c s \<Longrightarrow> start_progress junk k c 17 sm s"
  by (simp_all add: progress_simps new_name_def start_list_def)

lemma start_act_create:
  "start_progress junk k c 7 sm s \<Longrightarrow> create_object junk k c s = (Inr (), s') \<Longrightarrow> start_progress junk k c 8 sm s'"
  by (auto simp: progress_simps start_allowed_def create_object_def start_list_def started_object_def)

lemma start_act_launch:
  "start_progress junk k c 12 sm s \<Longrightarrow> launch k c s = (Inr (), s') \<Longrightarrow> start_progress junk k c 13 sm s'"
  by (auto simp: progress_simps start_allowed_def launch_def start_list_def started_object_def tryLaunchSession_def)

text \<open>A setter changes the member of the object that the next point accounts for.\<close>

lemma start_act_setter:
  assumes "start_progress junk k c p sm s" and p: "p \<in> {8, 9, 10, 11}" and "on_session c f s = (Inr (), s')"
    and f: "f (started_object junk c (nt_sockPort s k) (nt_rtcPort s k) p) =
      started_object junk c (nt_sockPort s k) (nt_rtcPort s k) (Suc p)"
  shows "start_progress junk k c (Suc p) sm s'"
proof -
  have P: "7 < p" "p < 12" using p by auto
  have m: "nt_manager s = put_sessions (sc_owner c)
      (um_set (sc_name c) (started_object junk c (nt_sockPort s k) (nt_rtcPort s k) p) (sessions_of (sc_owner c) sm)) (start_marked c 5 sm)"
    using assms(1) P by (simp add: start_progress_def start_list_def start_marked_simps)
  have "s' = s\<lparr>nt_manager := put_sessions (sc_owner c)
      (um_set (sc_name c) (started_object junk c (nt_sockPort s k) (nt_rtcPort s k) (Suc p)) (sessions_of (sc_owner c) sm)) (start_marked c 5 sm)\<rparr>"
    using assms(3) by (auto simp: on_session_def on_manager_def m sm_simps um_find_set f put_sessions_put um_set_set)
  then show ?thesis using assms(1) P by (auto simp: start_progress_def start_allowed_def start_list_def start_marked_simps)
qed

lemma start_act_setters:
  "start_progress junk k c 8 sm s \<Longrightarrow> on_session c (setSessionName (sc_name c)) s = (Inr (), s') \<Longrightarrow> start_progress junk k c 9 sm s'"
  "start_progress junk k c 9 sm s \<Longrightarrow> on_session c (setSessionOwner (sc_owner c)) s = (Inr (), s') \<Longrightarrow> start_progress junk k c 10 sm s'"
  "start_progress junk k c 10 sm s \<Longrightarrow> on_session c (setSessionOwnerAddress (sc_address c)) s = (Inr (), s') \<Longrightarrow>
     start_progress junk k c 11 sm s'"
  "start_progress junk k c 11 sm s \<Longrightarrow> set_ports k c s = (Inr (), s') \<Longrightarrow> start_progress junk k c 12 sm s'"
  using start_act_setter [of junk k c 8 sm s] start_act_setter [of junk k c 9 sm s]
    start_act_setter [of junk k c 10 sm s] start_act_setter [of junk k c 11 sm s]
  by (simp_all add: started_object_def set_ports_def)

lemma start_ends:
  "start_progress junk k c 15 sm s \<Longrightarrow> start_result junk c sm = (SESSION_LAUNCH_PORT_UNAVAILABLE, nt_manager s)"
  "start_progress junk k c 17 sm s \<Longrightarrow> start_result junk c sm = (SESSION_LAUNCH_DUPLICATE_NAME, nt_manager s)"
  "start_progress junk k c 13 sm s \<Longrightarrow>
     start_result junk c sm = (if nt_launched s k then SESSION_LAUNCH_OK else SESSION_LAUNCH_CRASHED, nt_manager s)"
  by (auto simp: start_progress_def split_def sm_simps start_marked_simps start_result_def startNewSession_def Let_def
      start_allowed_def start_list_def start_marked_def started_object_def tryLaunchSession_def)

lemma through_pointerD:
  "through_pointer k c f s = (Inr (), s') \<Longrightarrow>
     \<exists>session. live (nt_manager s) (sc_owner c) (sc_name c) = Some session \<and> f session s = (Inr (), s')"
  by (auto simp: through_pointer_def live_def split: option.splits if_splits)

lemma live_ending: "live (ending_manager p session sm) = live sm"
  by (simp add: ending_manager_def sm_simps)

lemma ending_act_ports:
  "ending_progress c 3 sm s \<Longrightarrow> through_pointer k c release_port s = (Inr (), s') \<Longrightarrow> ending_progress c 4 sm s'"
  "ending_progress c 4 sm s \<Longrightarrow> through_pointer k c release_sockPort s = (Inr (), s') \<Longrightarrow> ending_progress c 5 sm s'"
  "ending_progress c 5 sm s \<Longrightarrow> through_pointer k c release_rtcPort s = (Inr (), s') \<Longrightarrow> ending_progress c 6 sm s'"
  by (auto dest!: through_pointerD simp: ending_progress_def live_ending on_manager_def release_port_def release_sockPort_def
      release_rtcPort_def) (auto simp: ending_manager_def)

lemma ending_act_erase:
  assumes "ending_progress c 6 sm s" and "through_pointer k c erase_session s = (Inr (), s')"
  shows "ending_progress c 7 sm s'"
proof -
  obtain session where session: "live sm (sc_owner c) (sc_name c) = Some session" "nt_manager s = ending_manager 6 session sm"
    using assms(1) by (auto simp: ending_progress_def)
  then have "erase_session session s = (Inr (), s')"
    using through_pointerD [OF assms(2)] by (simp add: live_ending)
  then have "nt_manager s' = clearSession session sm"
    by (auto simp: erase_session_def Let_def on_manager_def session(2) clearSession_def ending_manager_def sm_simps split: if_splits)
  then show ?thesis using session(1) by (simp add: ending_progress_def)
qed

text \<open>Only \<open>send_status\<close> and the closes send anything.\<close>

lemma sent_same:
  "on_manager f s = (r, s') \<Longrightarrow> sent_answers s' = sent_answers s"
  "take_sockPort k s = (r, s') \<Longrightarrow> sent_answers s' = sent_answers s"
  "take_rtcPort k s = (r, s') \<Longrightarrow> sent_answers s' = sent_answers s"
  "create_object junk k c s = (r, s') \<Longrightarrow> sent_answers s' = sent_answers s"
  "on_session c g s = (r, s') \<Longrightarrow> sent_answers s' = sent_answers s"
  "launch k c s = (r, s') \<Longrightarrow> sent_answers s' = sent_answers s"
  "erase_session x s = (r, s') \<Longrightarrow> sent_answers s' = sent_answers s"
  by (auto simp: sent_answers_def on_manager_def take_sockPort_def take_rtcPort_def create_object_def on_session_def launch_def
      erase_session_def Let_def split: prod.splits option.splits if_splits)

lemma sent_through:
  "through_pointer k c f s = (r, s') \<Longrightarrow> (\<And>x s s' r. f x s = (r, s') \<Longrightarrow> sent_answers s' = sent_answers s) \<Longrightarrow>
     sent_answers s' = sent_answers s"
  by (auto simp: through_pointer_def split: option.splits if_splits)

lemma finish_named_operation:
  "finish_named (fst (nc_closes nc j)) (snd (nc_closes nc j)) s = (Inr (), s') \<Longrightarrow>
     node_operation junk nc (Close j) (manager_view s) = Some (manager_view s')"
  by (auto simp: finish_named_def manager_view_def sent_answers_def split: prod.splits option.splits sum.splits)

lemma finish_all_operation:
  "finish_all s = (Inr (), s') \<Longrightarrow> node_operation junk nc CloseAll (manager_view s) = Some (manager_view s')"
  by (auto simp: finish_all_def manager_view_def sent_answers_def split: sum.splits)

section \<open>Every operation is atomic\<close>

definition quiet_calls :: "'c node_calls \<Rightarrow> 'c node_calls" where
  "quiet_calls nc = nc\<lparr>nc_announces := (\<lambda>_. None)\<rparr>"

lemma quiet_calls_simps [simp]:
  "nc_starts (quiet_calls nc) = nc_starts nc" "nc_forks (quiet_calls nc) = nc_forks nc"
  "nc_closes (quiet_calls nc) = nc_closes nc" "nc_announces (quiet_calls nc) = (\<lambda>_. None)"
  by (simp_all add: quiet_calls_def)

lemma node_keeps_mutex: "code_ok () (\<lambda>_ _. False) t (manager_inside t) (\<lambda>_. False) (\<lambda>_. False) (node_code junk nc t)"
  by (cases t) (auto split: option.splits simp: SessionInfo_code_def code_ok_def startNewSession_code_def session_thread_code_def finishSession_code_def finishAllSessions_code_def moves_def
      all_less_Suc_nat eval_nat_numeral)

abbreviation "node_section junk nc \<equiv>
  section_ok () manager_view (\<lambda>t a a'. node_operation junk nc t a = Some a') manager_inside (call_passed nc) (call_outside nc)
    (call_progress junk nc)"

lemmas start_acts = start_act_ports start_act_mark start_act_open start_act_create start_act_setters start_act_launch

lemma sent_acts:
  "mark_port c s = (r, s') \<Longrightarrow> sent_answers s' = sent_answers s"
  "open_list owner s = (r, s') \<Longrightarrow> sent_answers s' = sent_answers s"
  "set_ports k c s = (r, s') \<Longrightarrow> sent_answers s' = sent_answers s"
  by (simp_all add: mark_port_def open_list_def set_ports_def sent_same)

lemma release_sent:
  "through_pointer k c release_port s = (r, s') \<Longrightarrow> sent_answers s' = sent_answers s"
  "through_pointer k c release_sockPort s = (r, s') \<Longrightarrow> sent_answers s' = sent_answers s"
  "through_pointer k c release_rtcPort s = (r, s') \<Longrightarrow> sent_answers s' = sent_answers s"
  "through_pointer k c erase_session s = (r, s') \<Longrightarrow> sent_answers s' = sent_answers s"
  by (erule sent_through, simp add: release_port_def release_sockPort_def release_rtcPort_def sent_same)+

lemmas sent_kept = sent_same [THEN trans] sent_acts [THEN trans] release_sent [THEN trans]

lemma start_sends:
  assumes "start_progress junk k (nc_starts nc k) p sm s" and "sent_answers s = (st, told)" and "st k = None"
  shows "p = 15 \<Longrightarrow> send_status k (\<lambda>_. SESSION_LAUNCH_PORT_UNAVAILABLE) s = (Inr (), s') \<Longrightarrow>
     node_operation junk nc (Start k) (sm, st, told) = Some (manager_view s')"
  "p = 17 \<Longrightarrow> send_status k (\<lambda>_. SESSION_LAUNCH_DUPLICATE_NAME) s = (Inr (), s') \<Longrightarrow>
     node_operation junk nc (Start k) (sm, st, told) = Some (manager_view s')"
  "p = 13 \<Longrightarrow> send_status k (\<lambda>s. if nt_launched s k then SESSION_LAUNCH_OK else SESSION_LAUNCH_CRASHED) s = (Inr (), s') \<Longrightarrow>
     node_operation junk nc (Start k) (sm, st, told) = Some (manager_view s')"
  using assms by (auto simp: send_status_def manager_view_def sent_answers_def start_ends)

lemma start_sent:
  assumes "node_operation junk nc (Start k) a = Some (manager_view s)"
  shows "call_outside nc (Start k) 19 (manager_view s)"
proof -
  have "nt_status s k \<noteq> None"
    using assms by (cases a) (auto simp: manager_view_def sent_answers_def split: if_splits prod.splits, metis fun_upd_same option.distinct(1))
  then show ?thesis by (simp add: manager_view_def sent_answers_def)
qed

lemma start_unsent: "call_outside nc (Start k) 0 (manager_view s) \<Longrightarrow> fst (sent_answers s) k = None"
  by (simp add: manager_view_def sent_answers_def)

lemma start_begins: "start_progress junk k c 1 (nt_manager s) s"
  by (simp add: start_progress_def start_marked_def)

lemma start_section:
  assumes "p < 19"
  shows "node_section junk nc (Start k) p (startNewSession_code junk k (nc_starts nc k) ! p)"
  using start_points [OF assms]
  by (elim insertE emptyE;
      simp add: startNewSession_code_def manager_view_def start_act_allowed start_act_new del: node_operation.simps;
      auto intro: start_begins [unfolded One_nat_def] start_act_ports(1) [unfolded One_nat_def numeral_2_eq_2] start_acts
        sent_kept start_unsent start_sends [OF _ _ _ refl] start_sent simp del: node_operation.simps simp flip: manager_view_def)

lemma ending_points: fixes p :: nat shows "p < 8 \<Longrightarrow> p \<in> {0, 1, 2, 3, 4, 5, 6, 7}"
  by (auto simp: eval_nat_numeral less_Suc_eq)

lemma ending_begins: "ending_progress c 3 (nt_manager s) s"
  by (simp add: ending_progress_def)

lemma ending_commits:
  "ending_progress (nc_starts nc k) 7 sm s \<Longrightarrow> sent_answers s = (st, told) \<Longrightarrow>
     node_operation junk nc (Ending k) (sm, st, told) = Some (nt_manager s, st, told)"
  by (auto simp: ending_progress_def)

lemma ending_section:
  assumes "p < 8"
  shows "node_section junk nc (Ending k) p (session_thread_code (nc_forks nc k) k (nc_starts nc k) ! p)"
  using ending_points [OF assms]
  by (elim insertE emptyE; simp add: session_thread_code_def manager_view_def del: node_operation.simps;
      auto intro: ending_begins ending_act_ports ending_act_erase sent_kept ending_commits simp del: node_operation.simps)

lemma close_section:
  assumes "p < 3"
  shows "node_section junk nc (Close j) p (finishSession_code (nc_closes nc j) ! p)"
proof -
  have "p \<in> {0, 1, 2}" using assms by auto
  then show ?thesis
    by (elim insertE emptyE) (auto simp: finishSession_code_def simp del: node_operation.simps dest: finish_named_operation)
qed

lemma close_all_section:
  assumes "p < 3"
  shows "node_section junk nc CloseAll p (finishAllSessions_code ! p)"
proof -
  have "p \<in> {0, 1, 2}" using assms by auto
  then show ?thesis
    by (elim insertE emptyE) (auto simp: finishAllSessions_code_def simp del: node_operation.simps dest: finish_all_operation)
qed

lemma code_lengths:
  "length (startNewSession_code junk k c) = 19" "length (session_thread_code child k c) = 8" "length (finishSession_code call) = 3"
  "length finishAllSessions_code = 3"
  by (simp_all add: startNewSession_code_def session_thread_code_def finishSession_code_def finishAllSessions_code_def)

lemma node_sections:
  assumes "p < length (node_code junk (quiet_calls nc) t)"
  shows "node_section junk nc t p (node_code junk (quiet_calls nc) t ! p)"
  using assms
  by (cases t) (simp_all add: code_lengths start_section ending_section close_section close_all_section)

lemma operation_keeps_outside:
  "node_operation junk nc u a = Some a' \<Longrightarrow> u \<noteq> t \<Longrightarrow> call_outside nc t p a \<Longrightarrow> call_outside nc t p a'"
  by (cases a; cases u; cases t) (auto split: if_splits prod.splits option.splits sum.splits)

interpretation manager_lock: monitor_discipline "node_code junk nc" "()" "\<lambda>_ _. False" manager_inside
  "\<lambda>_ _. False" "\<lambda>_ _. False" for junk nc
  by unfold_locales (rule node_keeps_mutex)

interpretation calls: atomic_sections "node_code junk (quiet_calls nc)" "()" manager_inside manager_view
  "\<lambda>t a a'. node_operation junk nc t a = Some a'" "call_passed nc" "call_outside nc" "call_progress junk nc" for junk nc
proof (unfold_locales)
  show "\<not> call_passed nc t 0" for t by (cases t) simp_all
qed (simp_all add: node_keeps_mutex node_sections operation_keeps_outside)

lemma operations_run_node:
  "operations_run (\<lambda>t a a'. node_operation junk nc t a = Some a') ops a b \<longleftrightarrow> node_operations junk nc ops a = Some b"
  by (induction ops arbitrary: a) (auto split: option.splits)

text \<open>The simulation, spelt out over the operations of the manager.\<close>

lemma calls_simulated:
  assumes "machine_reach (node_code junk (quiet_calls nc)) (node_start sm) m" and "mc_error m = None"
  shows "\<exists>ops a. distinct ops \<and> set ops = {t. call_passed nc t (mc_pc m t)} \<and>
    node_operations junk nc ops (sm, \<lambda>_. None, []) = Some a \<and>
    (mc_owner m () = None \<longrightarrow> manager_view (mc_shared m) = a) \<and>
    (\<forall>t. \<not> manager_inside t (mc_pc m t) \<longrightarrow> call_outside nc t (mc_pc m t) a) \<and>
    (\<forall>t. manager_inside t (mc_pc m t) \<longrightarrow> call_progress junk nc t (mc_pc m t) a (mc_shared m))"
proof -
  have v: "manager_view (node_start sm) = (sm, \<lambda>_. None, [])" by (simp add: manager_view_def sent_answers_def node_start_def)
  have "call_outside nc t 0 (sm, \<lambda>_. None, [])" for t by (cases t) auto
  from calls.sections_atomic [OF assms, unfolded v, OF this] obtain ops a where
    ops: "distinct ops" "set ops = {t. call_passed nc t (mc_pc m t)}"
      "operations_run (\<lambda>t a a'. node_operation junk nc t a = Some a') ops (sm, \<lambda>_. None, []) a"
    and sim: "calls.simulated nc junk m a"
    by (elim exE conjE) (rule that)
  have "call_outside nc t (mc_pc m t) a" if "\<not> manager_inside t (mc_pc m t)" for t
    using sim that unfolding calls.simulated_def by presburger
  moreover have "call_progress junk nc t (mc_pc m t) a (mc_shared m)" if "manager_inside t (mc_pc m t)" for t
    using sim that unfolding calls.simulated_def by presburger
  moreover have "mc_owner m () = None \<longrightarrow> manager_view (mc_shared m) = a"
    using sim unfolding calls.simulated_def by (elim conjE)
  ultimately show ?thesis using ops(1,2) ops(3) [unfolded operations_run_node]
    by (intro exI [of _ ops] exI [of _ a]) simp
qed

lemma node_operation_step: "node_operation junk nc t (sm, st) = Some (sm', st') \<Longrightarrow> sm_step sm sm' \<or> sm' = sm"
  by (cases st; cases t) (auto simp: start_result_def split: if_splits prod.splits option.splits sum.splits intro: sm_step.intros)

lemma node_operations_reachable:
  "node_operations junk nc ops a = Some a' \<Longrightarrow> sm_reachable (fst a) \<Longrightarrow> sm_reachable (fst a')"
proof (induction ops arbitrary: a)
  case (Cons t ts)
  then obtain b where b: "node_operation junk nc t (fst a, snd a) = Some (fst b, snd b)" "node_operations junk nc ts b = Some a'"
    by (auto split: option.splits)
  have "sm_reachable (fst b)"
    using node_operation_step [OF b(1)] sm_reachable.step [OF Cons.prems(2)] Cons.prems(2) by metis
  then show ?case using Cons.IH [OF b(2)] by blast
qed simp

text \<open>Two starts, one end, one close and one announcement, of sessions of the same user.\<close>

definition example_calls :: "nat node_calls" where
  "example_calls =
     \<lparr>nc_starts = (\<lambda>k. \<lparr>sc_owner = ''ann'', sc_address = ''10.0.0.1'', sc_name = (if k = 0 then ''a'' else ''b''),
        sc_port = 8001 + of_nat k, sc_thread = True\<rparr>),
      nc_forks = (\<lambda>_. Fork_parent), nc_closes = (\<lambda>_. (''ann'', ''c'')),
      nc_announces = (\<lambda>_. Some \<lparr>ac_owner = ''ann'', ac_name = ''a'', ac_connection = Ptr 7\<rparr>)\<rparr>"

definition two_starts :: "node_thread list" where
  "two_starts = replicate 16 (Start 0) @ replicate 4 (Start 1) @ [Ending 0, Ending 0] @ replicate 12 (Start 1)"

lemma two_starts_run:
  "\<exists>m. machine_run (node_code 0 (quiet_calls example_calls)) two_starts (machine_start (node_start example_manager)) = Some m \<and>
     (mc_error m, mc_owner m (), mc_pc m (Start 1), nt_status (mc_shared m) 0, nt_status (mc_shared m) 1,
      map_option web_port (live (nt_manager (mc_shared m)) ''ann'' ''a''),
      map_option web_port (live (nt_manager (mc_shared m)) ''ann'' ''b'')) =
     (None, None, 19, Some SESSION_LAUNCH_OK, Some SESSION_LAUNCH_OK, Some 8001, Some 8002)"
proof -
  have "map_option (\<lambda>m. (mc_error m, mc_owner m (), mc_pc m (Start 1), nt_status (mc_shared m) 0, nt_status (mc_shared m) 1,
      map_option web_port (live (nt_manager (mc_shared m)) ''ann'' ''a''),
      map_option web_port (live (nt_manager (mc_shared m)) ''ann'' ''b'')))
    (machine_run (node_code 0 (quiet_calls example_calls)) two_starts (machine_start (node_start example_manager))) =
    Some (None, None, 19, Some SESSION_LAUNCH_OK, Some SESSION_LAUNCH_OK, Some 8001, Some 8002)"
    by code_simp
  then show ?thesis by (auto simp: map_option_eq_Some)
qed

text \<open>A manager with an announced session; the first session is started, the announced one is closed, the first one ends.\<close>

definition announced_manager :: "nat sessionManager" where
  "announced_manager = put_sessions ''ann''
     (um_set ''c'' (setConnection (Ptr 7) (StreamingSession_new 0)) (sessions_of ''ann'' example_manager)) example_manager"

definition start_close_end :: "node_thread list" where
  "start_close_end = replicate 14 (Start 0) @ [Ending 0, Ending 0] @ replicate 2 (Start 0) @ replicate 3 (Close 0) @ replicate 6 (Ending 0)"

text \<open>
  Property C1. The calls of \<open>startNewSession\<close>, the closes of one session or of all, and the ends of session processes are
  atomic, though they consist of many instructions and any number of threads runs them: in every
  reachable state, as long as no announcement of a process uses the pointer of a session, the calls that have
  given the mutex back, each of them once and no other, have had in some order, one after the other, exactly the
  effect \<open>SessionManager\<close> gives them. While nobody is inside, the manager, the results the starts have sent and
  the list of the connections the closes have told to finish are what this order leads to. A start that
  has ended has sent its answer.
\<close>

theorem locked_operations_are_atomic:
  assumes "machine_reach (node_code junk (quiet_calls nc)) (node_start sm) m" and "mc_error m = None"
  shows "\<exists>ops a. distinct ops \<and> set ops = {t. call_passed nc t (mc_pc m t)} \<and>
    node_operations junk nc ops (sm, \<lambda>_. None, []) = Some a \<and>
    (mc_owner m () = None \<longrightarrow> (nt_manager (mc_shared m), nt_status (mc_shared m), nt_told (mc_shared m)) = a) \<and>
    (\<forall>k. mc_pc m (Start k) = 19 \<longrightarrow> fst (snd a) k \<noteq> None)"
proof -
  obtain ops a where a: "distinct ops" "set ops = {t. call_passed nc t (mc_pc m t)}"
      "node_operations junk nc ops (sm, \<lambda>_. None, []) = Some a"
      "mc_owner m () = None \<longrightarrow> manager_view (mc_shared m) = a"
      "\<forall>t. \<not> manager_inside t (mc_pc m t) \<longrightarrow> call_outside nc t (mc_pc m t) a"
    using calls_simulated [OF assms] by (elim exE conjE) (rule that)
  have "fst (snd a) k \<noteq> None" if "mc_pc m (Start k) = 19" for k
    using spec [OF a(5), of "Start k"] that by (cases a) simp
  then show ?thesis
    using a(1-4) by (intro exI [of _ ops] exI [of _ a]) (simp add: manager_view_def sent_answers_def)
qed

theorem locked_operations_are_atomic_witness:
  "\<exists>m ops a. machine_run (node_code 0 (quiet_calls example_calls)) start_close_end (machine_start (node_start announced_manager)) = Some m \<and>
     distinct ops \<and> {Start 0, Close 0, Ending 0} \<subseteq> set ops \<and>
     node_operations 0 example_calls ops (announced_manager, \<lambda>_. None, []) = Some a \<and>
     fst a = nt_manager (mc_shared m) \<and> fst (snd a) 0 = Some SESSION_LAUNCH_OK \<and> snd (snd a) = [7]"
proof -
  have "map_option (\<lambda>m. (mc_error m, mc_owner m (), mc_pc m (Start 0), mc_pc m (Close 0), mc_pc m (Ending 0),
      nt_status (mc_shared m) 0, nt_told (mc_shared m)))
    (machine_run (node_code 0 (quiet_calls example_calls)) start_close_end (machine_start (node_start announced_manager))) =
    Some (None, None, 19, 3, 8, Some SESSION_LAUNCH_OK, [7])"
    by code_simp
  then obtain m where
    m: "machine_run (node_code 0 (quiet_calls example_calls)) start_close_end (machine_start (node_start announced_manager)) = Some m"
      "mc_error m = None" "mc_owner m () = None" "mc_pc m (Start 0) = 19" "mc_pc m (Close 0) = 3" "mc_pc m (Ending 0) = 8"
      "nt_status (mc_shared m) 0 = Some SESSION_LAUNCH_OK" "nt_told (mc_shared m) = [7]"
    by (auto simp: map_option_eq_Some)
  obtain ops a where "distinct ops" "set ops = {t. call_passed example_calls t (mc_pc m t)}"
      "node_operations 0 example_calls ops (announced_manager, \<lambda>_. None, []) = Some a"
      "(nt_manager (mc_shared m), nt_status (mc_shared m), nt_told (mc_shared m)) = a"
    using locked_operations_are_atomic [OF machine_run_reach [OF machine_reach.start m(1)] m(2)] m(3) by blast
  then show ?thesis
    using m by (intro exI [of _ m] exI [of _ ops] exI [of _ a]) (auto simp: example_calls_def)
qed

text \<open>
  Property C13. Whatever the interleaving of the instructions of starts, closes and ends of processes
  on a node that began with a configuration: while nobody holds the mutex, two different live
  sessions have different web, socket and RTC ports, and all of them are marked as in use.
\<close>

theorem interleaved_sessions_never_share_ports:
  assumes "sm_configured sm"
    and "machine_reach (node_code junk (quiet_calls nc)) (node_start sm) m" and "mc_error m = None" and "mc_owner m () = None"
    and "live (nt_manager (mc_shared m)) a n = Some s" and "live (nt_manager (mc_shared m)) a' n' = Some s'" and "(a, n) \<noteq> (a', n')"
  shows "web_port s \<noteq> web_port s' \<and> sock_port s \<noteq> sock_port s' \<and> rtc_port s \<noteq> rtc_port s' \<and>
    web_port s \<in> used_keys (sm_usedPorts (nt_manager (mc_shared m))) \<and>
    sock_port s \<in> used_keys (sm_usedSockPorts (nt_manager (mc_shared m))) \<and>
    rtc_port s \<in> used_keys (sm_usedRTCPorts (nt_manager (mc_shared m)))"
proof -
  have "sm_reachable (nt_manager (mc_shared m))"
  proof -
    obtain ops a where ops: "node_operations junk nc ops (sm, \<lambda>_. None, []) = Some a"
      and view: "mc_owner m () = None \<longrightarrow> manager_view (mc_shared m) = a"
      using calls_simulated [OF assms(2,3)] by (elim exE conjE) (rule that)
    show ?thesis
      using node_operations_reachable [OF ops] sm_reachable.init [OF assms(1)] view assms(4) by (auto simp: manager_view_def)
  qed
  from sm_inv_ports [OF sm_reachable_inv [OF this] assms(5-7)] show ?thesis .
qed

theorem interleaved_sessions_never_share_ports_witness:
  "\<exists>m s s'. machine_run (node_code 0 (quiet_calls example_calls)) two_starts (machine_start (node_start example_manager)) = Some m \<and>
     live (nt_manager (mc_shared m)) ''ann'' ''a'' = Some s \<and> live (nt_manager (mc_shared m)) ''ann'' ''b'' = Some s' \<and>
     sock_port s \<noteq> sock_port s'"
proof -
  obtain m s s' where m: "machine_run (node_code 0 (quiet_calls example_calls)) two_starts (machine_start (node_start example_manager)) = Some m"
    "mc_error m = None" "mc_owner m () = None" "live (nt_manager (mc_shared m)) ''ann'' ''a'' = Some s"
    "live (nt_manager (mc_shared m)) ''ann'' ''b'' = Some s'"
    using two_starts_run by (auto simp: map_option_eq_Some)
  from interleaved_sessions_never_share_ports [OF example_configured machine_run_reach [OF machine_reach.start m(1)] m(2-5)] m
  show ?thesis by auto
qed

lemma start_blocks:
  assumes "p < 19"
  shows "node_code junk nc (Start k) ! p \<noteq> Wait l" "node_code junk nc (Start k) ! p \<noteq> Await c"
    "node_code junk nc (Start k) ! p = Lock l \<Longrightarrow> \<not> manager_inside (Start k) p"
  using start_points [OF assms] by (auto simp: startNewSession_code_def)

lemma inside_moves:
  assumes "manager_inside t p"
  shows "p < length (node_code junk nc t) \<and> (\<forall>l. node_code junk nc t ! p \<noteq> Lock l) \<and> (\<forall>l. node_code junk nc t ! p \<noteq> Wait l) \<and>
    (\<forall>c. node_code junk nc t ! p \<noteq> Await c)"
proof (cases t)
  case (Start k)
  then show ?thesis using assms start_blocks [of p junk nc k] by (auto simp: code_lengths)
next
  case (Ending k)
  then have "p \<in> {3, 4, 5, 6, 7}" using assms by auto
  then show ?thesis using Ending by (auto simp: session_thread_code_def)
next
  case (Close j)
  then have "p \<in> {1, 2}" using assms by auto
  then show ?thesis using Close by (auto simp: finishSession_code_def)
next
  case CloseAll
  then have "p \<in> {1, 2}" using assms by auto
  then show ?thesis using CloseAll by (auto simp: finishAllSessions_code_def)
qed (use assms in simp)

text \<open>
  Property C17. The manager's mutex does not block for ever: with announcements as well, a start that
  has not ended and cannot make a step waits for the mutex, and the thread that has the mutex can make one.
\<close>

theorem starts_wait_for_the_mutex_only:
  assumes "machine_reach (node_code junk nc) s m" and "mc_error m = None"
    and "thread_step (node_code junk nc) (Start k) m = None" and "mc_pc m (Start k) < 19"
  shows "\<exists>t. mc_owner m () = Some t \<and> t \<noteq> Start k \<and> thread_step (node_code junk nc) t m \<noteq> None"
proof -
  have "Suc 17 < length (node_code junk nc (Start k))" "length (node_code junk nc (Start k)) = 19" by (simp_all add: code_lengths)
  then have p: "mc_pc m (Start k) < length (node_code junk nc (Start k))" using assms(4) by simp
  have "\<exists>t. mc_owner m () = Some t \<and> \<not> manager_inside (Start k) (mc_pc m (Start k))"
    using thread_blocked [OF assms(3,2) p] start_blocks [of "mc_pc m (Start k)" junk nc k] assms(4) by auto
  then obtain t where t: "mc_owner m () = Some t" and out: "\<not> manager_inside (Start k) (mc_pc m (Start k))" by blast
  have ins: "manager_inside t (mc_pc m t)"
    using manager_lock.owner_holds [OF assms(1,2), THEN iffD1, OF t] by (simp add: holds_def)
  have "thread_step (node_code junk nc) t m \<noteq> None"
    using thread_blocked [OF _ assms(2), of "node_code junk nc" t] inside_moves [OF ins, of junk nc] by auto
  then show ?thesis using t out ins by blast
qed

theorem starts_wait_for_the_mutex_only_witness:
  "\<exists>m t. machine_run (node_code 0 example_calls) [Start 0, Start 0] (machine_start (node_start example_manager)) = Some m \<and>
     thread_step (node_code 0 example_calls) (Start 1) m = None \<and> mc_owner m () = Some t \<and>
     thread_step (node_code 0 example_calls) t m \<noteq> None"
proof -
  have "map_option (\<lambda>m. (mc_error m, mc_pc m (Start 1), Option.is_none (thread_step (node_code 0 example_calls) (Start 1) m)))
      (machine_run (node_code 0 example_calls) [Start 0, Start 0] (machine_start (node_start example_manager))) = Some (None, 0, True)"
    by code_simp
  then obtain m where m: "machine_run (node_code 0 example_calls) [Start 0, Start 0] (machine_start (node_start example_manager)) = Some m"
    "mc_error m = None" "mc_pc m (Start 1) = 0" "thread_step (node_code 0 example_calls) (Start 1) m = None"
    by (auto simp: map_option_eq_Some Option.is_none_def)
  from starts_wait_for_the_mutex_only [OF machine_run_reach [OF machine_reach.start m(1)] m(2,4)] m show ?thesis by auto
qed

text \<open>
  Property C19. The signal handler of a node begins with \<open>finishAllSessions\<close>, in the thread the signal
  interrupts. If that thread is between taking and giving back the manager's mutex, the handler waits for
  the mutex its own thread has: whatever the other threads do, it never gets it.
\<close>

theorem signal_inside_never_returns:
  assumes "machine_reach (node_code junk nc) s m" and "manager_inside t (mc_pc m t)"
    and "machine_run (node_code junk nc) ts m = Some m'" and "t \<notin> set ts" and "mc_error m' = None"
  shows "instr_step t (finishAllSessions_code ! 0) m' = None"
proof -
  have "manager_inside t (mc_pc m' t)" using assms(2) machine_run_others [OF assms(3,4)] by simp
  moreover have reach: "machine_reach (node_code junk nc) s m'" by (rule machine_run_reach [OF assms(1,3)])
  moreover have "mc_activity m' t = Running"
    using manager_lock.running_point [OF reach assms(5)] inside_moves [OF \<open>manager_inside t (mc_pc m' t)\<close>] by blast
  ultimately have "mc_owner m' () = Some t"
    using manager_lock.owner_holds [OF reach assms(5)] by (simp add: holds_def)
  then show ?thesis by (simp add: finishAllSessions_code_def)
qed

theorem signal_inside_never_returns_witness:
  "\<exists>m. machine_run (node_code 0 example_calls) [Start 0, Start 0, Announce 0] (machine_start (node_start example_manager)) = Some m \<and>
     instr_step (Start 0) (finishAllSessions_code ! 0) m = None"
proof -
  let ?m = "machine_start (node_start example_manager)"
  have "map_option (\<lambda>m. (mc_pc m (Start 0), map_option mc_error (machine_run (node_code 0 example_calls) [Announce 0] m)))
      (machine_run (node_code 0 example_calls) [Start 0, Start 0] ?m) = Some (2, Some None)"
    by code_simp
  then obtain m m' where m: "machine_run (node_code 0 example_calls) [Start 0, Start 0] ?m = Some m" "mc_pc m (Start 0) = 2"
    "machine_run (node_code 0 example_calls) [Announce 0] m = Some m'" "mc_error m' = None"
    by (auto simp: map_option_eq_Some)
  have "instr_step (Start 0) (finishAllSessions_code ! 0) m' = None"
    by (rule signal_inside_never_returns [OF machine_run_reach [OF machine_reach.start m(1)] _ m(3) _ m(4)]) (simp_all add: m(2))
  moreover have "machine_run (node_code 0 example_calls) [Start 0, Start 0, Announce 0] ?m = Some m'"
    using machine_run_append [of "node_code 0 example_calls" "[Start 0, Start 0]" "[Announce 0]" ?m] m(1,3) by simp
  ultimately show ?thesis by blast
qed

end
