(* ===== verification/NodePointers.thy ===== *)
theory NodePointers
  imports NodeAtomic
begin

text \<open>
  The pointers to session objects in the threads of a node: that of a call of \<open>startNewSession\<close>
  (\<open>ReMoLON/src/SessionManager.cpp\<close>) to the object it makes, and that of the session's thread
  (\<open>src/StreamingSession.cpp\<close>), which \<open>clearSession\<close> reads the ports through. The invariant says which call
  made the object in the list; \<open>NodeAtomic\<close> gives what the manager is like at each point.
\<close>

section \<open>The invariant\<close>

text \<open>
  The call \<open>k\<close> needs the object it has made from its first setter until its thread has cleared the session.
\<close>

definition pointer_needed :: "(node_thread \<Rightarrow> nat) \<Rightarrow> 'c node_threads \<Rightarrow> nat \<Rightarrow> bool" where
  "pointer_needed pc s k \<longleftrightarrow> nt_launched s k \<and> pc (Ending k) \<le> 6 \<or> 8 \<le> pc (Start k) \<and> pc (Start k) \<le> 12"

definition pointers_right :: "'c node_calls \<Rightarrow> (node_thread \<Rightarrow> nat) \<Rightarrow> 'c node_threads \<Rightarrow> bool" where
  "pointers_right nc pc s \<longleftrightarrow>
     (\<forall>owner n k. nt_creator s owner n = Some k \<longrightarrow> live (nt_manager s) owner n \<noteq> None) \<and>
     (\<forall>k. pointer_needed pc s k \<longrightarrow> nt_creator s (sc_owner (nc_starts nc k)) (sc_name (nc_starts nc k)) = Some k) \<and>
     (\<forall>k. 1 \<le> pc (Ending k) \<and> pc (Ending k) \<le> 6 \<longrightarrow> nt_launched s k) \<and>
     (\<forall>k. nt_launched s k \<longrightarrow> sc_thread (nc_starts nc k))"

definition pointers_same :: "'c node_threads \<Rightarrow> 'c node_threads \<Rightarrow> bool" where
  "pointers_same s s' \<longleftrightarrow> nt_creator s' = nt_creator s \<and> nt_launched s' = nt_launched s \<and>
     (\<forall>owner n. live (nt_manager s') owner n = None \<longrightarrow> live (nt_manager s) owner n = None)"

fun pointer_moves :: "node_thread \<Rightarrow> nat \<Rightarrow> nat \<Rightarrow> bool" where
  "pointer_moves (Start k) p q \<longleftrightarrow> (8 \<le> q \<and> q \<le> 12 \<longrightarrow> 8 \<le> p \<and> p \<le> 12)"
| "pointer_moves (Ending k) p q \<longleftrightarrow> p \<le> q \<and> (1 \<le> q \<and> q \<le> 6 \<longrightarrow> 1 \<le> p)"
| "pointer_moves _ p q \<longleftrightarrow> True"

lemma pointers_frame:
  assumes "pointers_right nc pc s" and "pointers_same s s'" and "pointer_moves t (pc t) q"
  shows "pointers_right nc (pc(t := q)) s'"
proof -
  let ?pc = "pc(t := q)"
  have e: "pc (Ending k) \<le> 6" if "?pc (Ending k) \<le> 6" for k
    using that assms(3) by (cases "t = Ending k") auto
  have l: "1 \<le> pc (Ending k)" if "1 \<le> ?pc (Ending k)" "?pc (Ending k) \<le> 6" for k
    using that assms(3) by (cases "t = Ending k") auto
  have st: "8 \<le> pc (Start k) \<and> pc (Start k) \<le> 12" if "8 \<le> ?pc (Start k)" "?pc (Start k) \<le> 12" for k
    using that assms(3) by (cases "t = Start k") auto
  have same: "nt_creator s' = nt_creator s" "nt_launched s' = nt_launched s"
    "\<And>owner n. live (nt_manager s') owner n = None \<Longrightarrow> live (nt_manager s) owner n = None"
    using assms(2) by (auto simp: pointers_same_def)
  show ?thesis using assms(1) e l st same(3) unfolding pointers_right_def pointer_needed_def same(1,2) by blast
qed

lemma pointers_same_refl [simp]: "pointers_same s s"
  by (simp add: pointers_same_def)

lemma pointers_same_acts:
  "take_sockPort k s = (r, s') \<Longrightarrow> pointers_same s s'"
  "take_rtcPort k s = (r, s') \<Longrightarrow> pointers_same s s'"
  "mark_port c s = (r, s') \<Longrightarrow> pointers_same s s'"
  "open_list owner s = (r, s') \<Longrightarrow> pointers_same s s'"
  "on_session c f s = (r, s') \<Longrightarrow> pointers_same s s'"
  "set_ports k c s = (r, s') \<Longrightarrow> pointers_same s s'"
  "send_status k g s = (r, s') \<Longrightarrow> pointers_same s s'"
  "release_port x s = (r, s') \<Longrightarrow> pointers_same s s'"
  "release_sockPort x s = (r, s') \<Longrightarrow> pointers_same s s'"
  "release_rtcPort x s = (r, s') \<Longrightarrow> pointers_same s s'"
  by (auto simp: pointers_same_def take_sockPort_def take_rtcPort_def on_manager_def mark_port_def open_list_def on_session_def
      set_ports_def send_status_def release_port_def release_sockPort_def release_rtcPort_def sm_simps update_live_def
      split: prod.splits option.splits if_splits)

lemma pointers_same_finish: "finish_named owner n s = (r, s') \<Longrightarrow> pointers_same s s'"
  using finishSession_state [of owner n "nt_manager s"]
  by (auto simp: finish_named_def pointers_same_def sm_simps split: prod.splits sum.splits option.splits)

lemma pointers_same_finish_all: "finish_all s = (r, s') \<Longrightarrow> pointers_same s s'"
  by (auto simp: finish_all_def pointers_same_def split: sum.splits)

lemma finish_list_error: "finish_list l = Inl e \<Longrightarrow> e \<noteq> UB Dangling_pointer"
  by (induction l) (auto simp: session_finish_def map_sum_def split: sum.splits pointer.splits)

lemma finish_all_error: "finish_all s = (Inl e, s') \<Longrightarrow> e \<noteq> UB Dangling_pointer"
  by (auto simp: finish_all_def finishAllSessions_def dest: finish_list_error split: sum.splits)

lemma finish_named_error: "finish_named owner n s = (Inl e, s') \<Longrightarrow> e \<noteq> UB Dangling_pointer"
  by (auto simp: finish_named_def finishSession_def session_finish_def Let_def split: prod.splits sum.splits option.splits pointer.splits)

text \<open>The four instructions that do more: an object is made, its thread is started and begins, and the object is erased.\<close>

lemma pointers_rightD:
  assumes "pointers_right nc pc s"
  shows "nt_creator s owner n = Some k \<Longrightarrow> live (nt_manager s) owner n \<noteq> None"
    "pointer_needed pc s k \<Longrightarrow> nt_creator s (sc_owner (nc_starts nc k)) (sc_name (nc_starts nc k)) = Some k"
    "1 \<le> pc (Ending k) \<Longrightarrow> pc (Ending k) \<le> 6 \<Longrightarrow> nt_launched s k"
    "nt_launched s k \<Longrightarrow> sc_thread (nc_starts nc k)"
  using assms unfolding pointers_right_def by blast+

lemma pointers_rightI:
  assumes "\<And>owner n k. nt_creator s owner n = Some k \<Longrightarrow> live (nt_manager s) owner n \<noteq> None"
    and "\<And>k. pointer_needed pc s k \<Longrightarrow> nt_creator s (sc_owner (nc_starts nc k)) (sc_name (nc_starts nc k)) = Some k"
    and "\<And>k. 1 \<le> pc (Ending k) \<Longrightarrow> pc (Ending k) \<le> 6 \<Longrightarrow> nt_launched s k"
    and "\<And>k. nt_launched s k \<Longrightarrow> sc_thread (nc_starts nc k)"
  shows "pointers_right nc pc s"
  using assms unfolding pointers_right_def by blast

lemma pointers_create:
  assumes J: "pointers_right nc pc s" and "pc (Start k) = 7" and act: "create_object junk k (nc_starts nc k) s = (Inr (), s')"
    and free: "live (nt_manager s) (sc_owner (nc_starts nc k)) (sc_name (nc_starts nc k)) = None"
  shows "pointers_right nc (pc(Start k := 8)) s'"
proof (rule pointers_rightI)
  let ?o = "sc_owner (nc_starts nc k)" and ?n = "sc_name (nc_starts nc k)"
  have s': "nt_creator s' owner n = (if owner = ?o \<and> n = ?n then Some k else nt_creator s owner n)"
    "live (nt_manager s') owner n = (if owner = ?o \<and> n = ?n then Some (StreamingSession_new junk) else live (nt_manager s) owner n)"
    "nt_launched s' = nt_launched s" for owner n
    using act by (auto simp: create_object_def on_manager_def sm_simps update_live_def)
  show "live (nt_manager s') owner n \<noteq> None" if "nt_creator s' owner n = Some k'" for owner n k'
    using that pointers_rightD(1) [OF J, of owner n k'] by (auto simp: s' split: if_splits)
  show "nt_creator s' (sc_owner (nc_starts nc k')) (sc_name (nc_starts nc k')) = Some k'"
    if "pointer_needed (pc(Start k := 8)) s' k'" for k'
  proof (cases "k' = k")
    case False
    then have "nt_creator s (sc_owner (nc_starts nc k')) (sc_name (nc_starts nc k')) = Some k'"
      using that pointers_rightD(2) [OF J, of k'] by (simp add: pointer_needed_def s')
    from pointers_rightD(1) [OF J this] this free show ?thesis by (auto simp: s')
  qed (simp add: s')
  show "nt_launched s' k'" if "1 \<le> (pc(Start k := 8)) (Ending k')" "(pc(Start k := 8)) (Ending k') \<le> 6" for k'
    using that pointers_rightD(3) [OF J, of k'] by (simp add: s')
  show "sc_thread (nc_starts nc k')" if "nt_launched s' k'" for k'
    using that pointers_rightD(4) [OF J, of k'] by (simp add: s')
qed

lemma pointers_launch:
  assumes J: "pointers_right nc pc s" and "pc (Start k) = 12" and act: "launch k (nc_starts nc k) s = (Inr (), s')"
  shows "pointers_right nc (pc(Start k := 13)) s'"
proof (rule pointers_rightI)
  have s': "nt_creator s' = nt_creator s" "nt_manager s' = nt_manager s"
    "nt_launched s' = (nt_launched s)(k := sc_thread (nc_starts nc k))"
    using act by (auto simp: launch_def tryLaunchSession_def)
  show "live (nt_manager s') owner n \<noteq> None" if "nt_creator s' owner n = Some k'" for owner n k'
    using that pointers_rightD(1) [OF J, of owner n k'] by (simp add: s')
  show "nt_creator s' (sc_owner (nc_starts nc k')) (sc_name (nc_starts nc k')) = Some k'"
    if "pointer_needed (pc(Start k := 13)) s' k'" for k'
    using that pointers_rightD(2) [OF J, of k'] assms(2) by (cases "k' = k") (auto simp: pointer_needed_def s')
  show "nt_launched s' k'" if "1 \<le> (pc(Start k := 13)) (Ending k')" "(pc(Start k := 13)) (Ending k') \<le> 6" for k'
    using that pointers_rightD(3,4) [OF J, of k'] by (cases "k' = k") (auto simp: s')
  show "sc_thread (nc_starts nc k')" if "nt_launched s' k'" for k'
    using that pointers_rightD(4) [OF J, of k'] by (cases "k' = k") (auto simp: s')
qed

lemma pointers_erase:
  assumes J: "pointers_right nc pc s" and p: "pc (Ending k) = 6" and act: "erase_session x s = (Inr (), s')"
    and x: "live (nt_manager s) (sc_owner (nc_starts nc k)) (sc_name (nc_starts nc k)) = Some x"
      "getSessionOwner x = sc_owner (nc_starts nc k)" "getSessionName x = sc_name (nc_starts nc k)"
    and wf: "sessions_wf (nt_manager s)" and alone: "\<not> manager_inside (Start k) (pc (Start k))"
  shows "pointers_right nc (pc(Ending k := 7)) s'"
proof (rule pointers_rightI)
  let ?o = "sc_owner (nc_starts nc k)" and ?n = "sc_name (nc_starts nc k)"
  have mine: "nt_creator s ?o ?n = Some k"
    using pointers_rightD(2,3) [OF J, of k] p by (simp add: pointer_needed_def)
  have "um_find (sessions_of ?o (nt_manager s)) ?n \<noteq> None" using x(1) by (simp add: live_def)
  then have "s' = s\<lparr>nt_creator := (nt_creator s)(?o := (nt_creator s ?o)(?n := None)),
      nt_manager := put_sessions ?o (um_erase ?n (sessions_of ?o (nt_manager s))) (nt_manager s)\<rparr>"
    using act x(2,3) by (auto simp: erase_session_def Let_def on_manager_def)
  then have s': "nt_creator s' owner n = (if owner = ?o \<and> n = ?n then None else nt_creator s owner n)"
    "live (nt_manager s') owner n = (if owner = ?o \<and> n = ?n then None else live (nt_manager s) owner n)"
    "nt_launched s' = nt_launched s" for owner n
    using wf by (auto simp: sm_simps update_live_def)
  show "live (nt_manager s') owner n \<noteq> None" if "nt_creator s' owner n = Some k'" for owner n k'
    using that pointers_rightD(1) [OF J, of owner n k'] by (auto simp: s' split: if_splits)
  show "nt_creator s' (sc_owner (nc_starts nc k')) (sc_name (nc_starts nc k')) = Some k'"
    if "pointer_needed (pc(Ending k := 7)) s' k'" for k'
  proof (cases "k' = k")
    case True
    then show ?thesis using that alone by (simp add: pointer_needed_def)
  next
    case False
    then have "nt_creator s (sc_owner (nc_starts nc k')) (sc_name (nc_starts nc k')) = Some k'"
      using that pointers_rightD(2) [OF J, of k'] by (simp add: pointer_needed_def s')
    then show ?thesis using mine False by (auto simp: s')
  qed
  show "nt_launched s' k'" if "1 \<le> (pc(Ending k := 7)) (Ending k')" "(pc(Ending k := 7)) (Ending k') \<le> 6" for k'
    using that pointers_rightD(3) [OF J, of k'] by (simp add: s' split: if_splits)
  show "sc_thread (nc_starts nc k')" if "nt_launched s' k'" for k'
    using that pointers_rightD(4) [OF J, of k'] by (simp add: s')
qed

lemma pointers_await:
  assumes "pointers_right nc pc s" and "pc (Ending k) = 0" and "nt_launched s k"
  shows "pointers_right nc (pc(Ending k := 1)) s"
  using assms(2,3) pointers_rightD [OF assms(1)]
  by (intro pointers_rightI) (auto simp: pointer_needed_def split: if_splits)


section \<open>The steps of the threads\<close>

text \<open>One instruction of each kind of thread: it does not fail, and the invariant holds after it.\<close>

lemma acts_total:
  "\<exists>s'. take_sockPort k s = (Inr (), s')" "\<exists>s'. take_rtcPort k s = (Inr (), s')" "\<exists>s'. mark_port c s = (Inr (), s')"
  "\<exists>s'. open_list owner s = (Inr (), s')" "\<exists>s'. create_object junk k c s = (Inr (), s')" "\<exists>s'. launch k c s = (Inr (), s')"
  "\<exists>s'. send_status k g s = (Inr (), s')" "\<exists>s'. release_port x s = (Inr (), s')" "\<exists>s'. release_sockPort x s = (Inr (), s')"
  "\<exists>s'. release_rtcPort x s = (Inr (), s')" "\<exists>s'. erase_session x s = (Inr (), s')"
  by (auto simp: take_sockPort_def take_rtcPort_def mark_port_def open_list_def create_object_def launch_def send_status_def
      release_port_def release_sockPort_def release_rtcPort_def erase_session_def on_manager_def Let_def split: prod.splits)

lemma needed_object:
  assumes "pointers_right nc pc s" and "pointer_needed pc s k"
  obtains x where "live (nt_manager s) (sc_owner (nc_starts nc k)) (sc_name (nc_starts nc k)) = Some x"
    "nt_creator s (sc_owner (nc_starts nc k)) (sc_name (nc_starts nc k)) = Some k"
  using pointers_rightD(1,2) [OF assms(1)] assms(2) by (metis not_None_eq)

lemma setter_total:
  assumes "pointers_right nc pc s" and "8 \<le> pc (Start k)" and "pc (Start k) \<le> 12"
  shows "\<exists>s'. on_session (nc_starts nc k) f s = (Inr (), s')" "\<exists>s'. set_ports k (nc_starts nc k) s = (Inr (), s')"
proof -
  obtain x where "live (nt_manager s) (sc_owner (nc_starts nc k)) (sc_name (nc_starts nc k)) = Some x"
    using needed_object [OF assms(1), of k] assms(2,3) by (auto simp: pointer_needed_def)
  then show "\<exists>s'. on_session (nc_starts nc k) f s = (Inr (), s')" "\<exists>s'. set_ports k (nc_starts nc k) s = (Inr (), s')"
    by (simp_all add: on_session_def set_ports_def live_def on_manager_def)
qed

lemma start_pointers:
  assumes J: "pointers_right nc pc s" and p: "pc (Start k) < 19"
    and i: "startNewSession_code junk k (nc_starts nc k) ! pc (Start k) = Act f"
    and free: "pc (Start k) = 7 \<Longrightarrow> live (nt_manager s) (sc_owner (nc_starts nc k)) (sc_name (nc_starts nc k)) = None"
  shows "\<exists>s'. f s = (Inr (), s') \<and> pointers_right nc (pc(Start k := Suc (pc (Start k)))) s'"
proof -
  have "\<exists>s'. f s = (Inr (), s')"
    using start_points [OF p] i setter_total [OF J, of k]
    by (elim insertE emptyE) (auto simp: startNewSession_code_def acts_total)
  then obtain s' where s': "f s = (Inr (), s')" by blast
  have "pointers_right nc (pc(Start k := Suc (pc (Start k)))) s'"
  proof (cases "pc (Start k) = 7 \<or> pc (Start k) = 12")
    case True
    then show ?thesis
      using i s' pointers_create [OF J] pointers_launch [OF J] free by (auto simp: startNewSession_code_def)
  next
    case False
    have "pointers_same s s'"
      using start_points [OF p] i s' False
      by (elim insertE emptyE) (auto simp: startNewSession_code_def intro: pointers_same_acts)
    then show ?thesis
      using pointers_frame [OF J, of s' "Start k" "Suc (pc (Start k))"] False by auto
  qed
  then show ?thesis using s' by blast
qed

lemma ending_pointers:
  assumes J: "pointers_right nc pc s" and p: "pc (Ending k) < 8"
    and i: "session_thread_code (nc_forks nc k) k (nc_starts nc k) ! pc (Ending k) = Act f"
    and wf: "sessions_wf (nt_manager s)" and alone: "\<not> manager_inside (Start k) (pc (Start k))"
    and own: "\<And>x. live (nt_manager s) (sc_owner (nc_starts nc k)) (sc_name (nc_starts nc k)) = Some x \<Longrightarrow>
      getSessionOwner x = sc_owner (nc_starts nc k) \<and> getSessionName x = sc_name (nc_starts nc k)"
  shows "\<exists>s'. f s = (Inr (), s') \<and> pointers_right nc (pc(Ending k := Suc (pc (Ending k)))) s'"
proof -
  have at: "pc (Ending k) \<in> {3, 4, 5, 6}"
    using ending_points [OF p] i by (auto simp: session_thread_code_def)
  then have need: "pointer_needed pc s k" using pointers_rightD(3) [OF J, of k] by (auto simp: pointer_needed_def)
  from needed_object [OF J need] obtain x where
    x: "live (nt_manager s) (sc_owner (nc_starts nc k)) (sc_name (nc_starts nc k)) = Some x"
    and c: "nt_creator s (sc_owner (nc_starts nc k)) (sc_name (nc_starts nc k)) = Some k" .
  have through: "through_pointer k (nc_starts nc k) g s = g x s" for g
    using x c by (simp add: through_pointer_def live_def)
  show ?thesis
  proof (cases "pc (Ending k) = 6")
    case True
    obtain s' where "erase_session x s = (Inr (), s')" using acts_total(11) by blast
    then show ?thesis
      using pointers_erase [OF J True _ x _ _ wf alone] own [OF x] i True by (auto simp: session_thread_code_def through)
  next
    case False
    obtain s' where s': "f s = (Inr (), s')"
      using at i acts_total(8-10) [of x s] False by (auto simp: session_thread_code_def through)
    then have "release_port x s = (Inr (), s') \<or> release_sockPort x s = (Inr (), s') \<or> release_rtcPort x s = (Inr (), s')"
      using at i False by (auto simp: session_thread_code_def through)
    then have "pointers_same s s'"
      by (elim disjE) (erule pointers_same_acts)+
    then show ?thesis
      using pointers_frame [OF J, of s' "Ending k" "Suc (pc (Ending k))"] at s' by auto
  qed
qed


text \<open>What the simulation says of the two points where the manager decides.\<close>

lemma new_name_free:
  assumes "start_progress junk k c 7 sm s"
  shows "live (nt_manager s) (sc_owner c) (sc_name c) = None"
  using assms by (simp add: start_progress_def start_list_def live_put live_def)

lemma sessions_wf_ending: "sessions_wf (ending_manager p session sm) = sessions_wf sm"
  by (simp add: ending_manager_def sm_simps)

lemma reached_manager:
  assumes conf: "sm_configured sm" and reach: "machine_reach (node_code junk (quiet_calls nc)) (node_start sm) m"
    and err: "mc_error m = None"
  shows "mc_pc m (Start k) = 7 \<Longrightarrow> live (nt_manager (mc_shared m)) (sc_owner (nc_starts nc k)) (sc_name (nc_starts nc k)) = None"
    "3 \<le> mc_pc m (Ending k) \<Longrightarrow> mc_pc m (Ending k) \<le> 6 \<Longrightarrow>
       sessions_wf (nt_manager (mc_shared m)) \<and> \<not> manager_inside (Start k) (mc_pc m (Start k)) \<and>
       (\<forall>x. live (nt_manager (mc_shared m)) (sc_owner (nc_starts nc k)) (sc_name (nc_starts nc k)) = Some x \<longrightarrow>
          getSessionOwner x = sc_owner (nc_starts nc k) \<and> getSessionName x = sc_name (nc_starts nc k))"
proof -
  obtain ops a where ops: "node_operations junk nc ops (sm, \<lambda>_. None, []) = Some a"
    and prog: "\<forall>t. manager_inside t (mc_pc m t) \<longrightarrow> call_progress junk nc t (mc_pc m t) a (mc_shared m)"
    using calls_simulated [OF reach err] by (elim exE conjE) (rule that)
  have inv: "sm_inv (fst a)"
    using node_operations_reachable [OF ops] sm_reachable.init [OF conf] sm_reachable_inv by simp
  show "live (nt_manager (mc_shared m)) (sc_owner (nc_starts nc k)) (sc_name (nc_starts nc k)) = None" if "mc_pc m (Start k) = 7"
    using spec [OF prog, of "Start k"] that by (cases a) (auto intro: new_name_free)
  show "sessions_wf (nt_manager (mc_shared m)) \<and> \<not> manager_inside (Start k) (mc_pc m (Start k)) \<and>
      (\<forall>x. live (nt_manager (mc_shared m)) (sc_owner (nc_starts nc k)) (sc_name (nc_starts nc k)) = Some x \<longrightarrow>
          getSessionOwner x = sc_owner (nc_starts nc k) \<and> getSessionName x = sc_name (nc_starts nc k))"
    if p: "3 \<le> mc_pc m (Ending k)" "mc_pc m (Ending k) \<le> 6"
  proof -
    have ins: "manager_inside (Ending k) (mc_pc m (Ending k))" using p by simp
    have "call_progress junk nc (Ending k) (mc_pc m (Ending k)) a (mc_shared m)" using prog ins by blast
    then have "ending_progress (nc_starts nc k) (mc_pc m (Ending k)) (fst a) (mc_shared m)" by (cases a) simp
    then have "live (nt_manager (mc_shared m)) = live (fst a)" "sessions_wf (nt_manager (mc_shared m)) = sessions_wf (fst a)"
      using p by (auto simp: ending_progress_def live_ending sessions_wf_ending split: if_splits)
    moreover have "\<not> manager_inside (Start k) (mc_pc m (Start k))"
      using calls.owner_inside [OF reach err, of "Ending k"] calls.owner_inside [OF reach err, of "Start k"] ins by auto
    ultimately show ?thesis using sm_invD(1,5) [OF inv] by (auto simp: getSessionOwner_def getSessionName_def)
  qed
qed


text \<open>The instructions that change nothing but the point of their thread, and where they lead.\<close>

fun still_leads :: "nat \<Rightarrow> ('m, 's) instr \<Rightarrow> 's \<Rightarrow> nat \<Rightarrow> bool" where
  "still_leads p (Act f) s q \<longleftrightarrow> False"
| "still_leads p (Wait k) s q \<longleftrightarrow> False"
| "still_leads p (Goto l) s q \<longleftrightarrow> q = l"
| "still_leads p (Branch c l) s q \<longleftrightarrow> q = (if fst (c s) then Suc p else l)"
| "still_leads p (Await c) s q \<longleftrightarrow> q = Suc p \<and> c s"
| "still_leads p i s q \<longleftrightarrow> q = Suc p"

fun still :: "('m, 's) instr \<Rightarrow> bool" where
  "still (Act f) \<longleftrightarrow> False"
| "still (Wait k) \<longleftrightarrow> False"
| "still (Branch c l) \<longleftrightarrow> (\<forall>s. snd (c s) = s)"
| "still i \<longleftrightarrow> True"

lemma instr_still:
  assumes "instr_step t i m = Some m'" and "still i"
  shows "\<exists>q. still_leads (mc_pc m t) i (mc_shared m) q \<and> mc_shared m' = mc_shared m \<and> mc_error m' = mc_error m \<and>
    mc_pc m' = (mc_pc m)(t := q)"
proof (cases i)
  case (Branch c l)
  obtain b where "c (mc_shared m) = (b, mc_shared m)" using assms(2) Branch by (metis still.simps(3) prod.collapse)
  then show ?thesis using assms(1) Branch by auto
qed (use assms in \<open>auto simp: advance_def split: if_splits\<close>)

lemma instr_act:
  assumes "instr_step t (Act f) m = Some m'" and "f (mc_shared m) = (Inr (), s')"
  shows "mc_shared m' = s' \<and> mc_error m' = mc_error m \<and> mc_pc m' = (mc_pc m)(t := Suc (mc_pc m t))"
  using assms by (auto simp: advance_def)

lemma start_still:
  assumes "p < 19" and "i = startNewSession_code junk k c ! p" and "\<forall>f. i \<noteq> Act f"
  shows "still i \<and> (\<forall>s q. still_leads p i s q \<longrightarrow> pointer_moves (Start k) p q)"
  using start_points [OF assms(1)] assms(2,3)
  by (elim insertE emptyE) (simp_all add: startNewSession_code_def)

lemma ending_still:
  assumes "p < 8" and "i = session_thread_code child k c ! p" and "\<forall>f. i \<noteq> Act f"
  shows "still i \<and>
    (\<forall>s q. still_leads p i s q \<longrightarrow> (if p = 0 then q = 1 \<and> nt_launched s k else pointer_moves (Ending k) p q))"
  using ending_points [OF assms(1)] assms(2,3)
  by (elim insertE emptyE) (simp_all add: session_thread_code_def)

text \<open>A step keeps the invariant, and it is no use of a pointer whose object is gone.\<close>

definition step_safe :: "'c node_calls \<Rightarrow> (node_thread, unit, 'c node_threads) machine \<Rightarrow> bool" where
  "step_safe nc m \<longleftrightarrow> mc_error m \<noteq> Some (UB Dangling_pointer) \<and> (mc_error m = None \<longrightarrow> pointers_right nc (mc_pc m) (mc_shared m))"

lemma step_safe_act:
  assumes "instr_step t (Act f) m = Some m'" and "mc_error m = None" and "f (mc_shared m) = (Inr (), s')"
    and "pointers_right nc ((mc_pc m)(t := Suc (mc_pc m t))) s'"
  shows "step_safe nc m'"
  using instr_act [OF assms(1,3)] assms(2,4) by (simp add: step_safe_def)

lemma step_safe_still:
  assumes "instr_step t i m = Some m'" and "mc_error m = None" and "still i"
    and "\<And>q. still_leads (mc_pc m t) i (mc_shared m) q \<Longrightarrow> pointers_right nc ((mc_pc m)(t := q)) (mc_shared m)"
  shows "step_safe nc m'"
  using instr_still [OF assms(1,3)] assms(2,4) by (auto simp: step_safe_def)

lemma start_step_safe:
  assumes J: "pointers_right nc (mc_pc m) (mc_shared m)" and err: "mc_error m = None" and p: "mc_pc m (Start k) < 19"
    and s: "instr_step (Start k) i m = Some m'" and i: "i = startNewSession_code junk k (nc_starts nc k) ! mc_pc m (Start k)"
    and free: "mc_pc m (Start k) = 7 \<Longrightarrow> live (nt_manager (mc_shared m)) (sc_owner (nc_starts nc k)) (sc_name (nc_starts nc k)) = None"
  shows "step_safe nc m'"
proof (cases "\<exists>f. i = Act f")
  case True
  then obtain f where f: "i = Act f" by blast
  from start_pointers [OF J p i [symmetric, unfolded f] free] show ?thesis using step_safe_act [OF s [unfolded f] err] by blast
next
  case False
  then have still: "still i" "\<And>s q. still_leads (mc_pc m (Start k)) i s q \<Longrightarrow> pointer_moves (Start k) (mc_pc m (Start k)) q"
    using start_still [OF p i] by auto
  show ?thesis
    by (rule step_safe_still [OF s err still(1)]) (rule pointers_frame [OF J pointers_same_refl still(2)])
qed

lemma ending_step_safe:
  assumes J: "pointers_right nc (mc_pc m) (mc_shared m)" and err: "mc_error m = None" and p: "mc_pc m (Ending k) < 8"
    and s: "instr_step (Ending k) i m = Some m'" and i: "i = session_thread_code (nc_forks nc k) k (nc_starts nc k) ! mc_pc m (Ending k)"
    and facts: "3 \<le> mc_pc m (Ending k) \<Longrightarrow> mc_pc m (Ending k) \<le> 6 \<Longrightarrow>
       sessions_wf (nt_manager (mc_shared m)) \<and> \<not> manager_inside (Start k) (mc_pc m (Start k)) \<and>
       (\<forall>x. live (nt_manager (mc_shared m)) (sc_owner (nc_starts nc k)) (sc_name (nc_starts nc k)) = Some x \<longrightarrow>
          getSessionOwner x = sc_owner (nc_starts nc k) \<and> getSessionName x = sc_name (nc_starts nc k))"
  shows "step_safe nc m'"
proof (cases "\<exists>f. i = Act f")
  case True
  then obtain f where f: "i = Act f" by blast
  then have "3 \<le> mc_pc m (Ending k)" "mc_pc m (Ending k) \<le> 6"
    using ending_points [OF p] i by (auto simp: session_thread_code_def)
  from facts [OF this] ending_pointers [OF J p i [symmetric, unfolded f]] show ?thesis
    using step_safe_act [OF s [unfolded f] err] by blast
next
  case False
  then have still: "still i" "\<And>s q. still_leads (mc_pc m (Ending k)) i s q \<Longrightarrow>
       (if mc_pc m (Ending k) = 0 then q = 1 \<and> nt_launched s k else pointer_moves (Ending k) (mc_pc m (Ending k)) q)"
    using ending_still [OF p i] by auto
  show ?thesis
  proof (rule step_safe_still [OF s err still(1)])
    fix q
    assume "still_leads (mc_pc m (Ending k)) i (mc_shared m) q"
    from still(2) [OF this] show "pointers_right nc ((mc_pc m)(Ending k := q)) (mc_shared m)"
      using pointers_await [OF J] pointers_frame [OF J pointers_same_refl, of "Ending k"] by (auto split: if_splits)
  qed
qed

text \<open>Both closes are one action between taking and giving back the mutex.\<close>

lemma locked_step_safe:
  assumes J: "pointers_right nc (mc_pc m) (mc_shared m)" and err: "mc_error m = None" and p: "mc_pc m t < 3"
    and s: "instr_step t ([Lock (), Act f, Unlock ()] ! mc_pc m t) m = Some m'" and free: "\<And>p q. pointer_moves t p q"
    and f: "\<And>r s'. f (mc_shared m) = (r, s') \<Longrightarrow> pointers_same (mc_shared m) s' \<and> r \<noteq> Inl (UB Dangling_pointer)"
  shows "step_safe nc m'"
proof -
  have "mc_pc m t \<in> {0, 1, 2}" using p by auto
  then show ?thesis
  proof (elim insertE emptyE)
    assume p1: "mc_pc m t = 1"
    show ?thesis
    proof (cases "f (mc_shared m)")
      case (Pair r s')
      then show ?thesis
        using s p1 err f [OF Pair] pointers_frame [OF J _ free, of s' 2]
        by (cases r) (auto simp: step_safe_def advance_def numeral_2_eq_2)
    qed
  qed (use s err pointers_frame [OF J pointers_same_refl free] in
      \<open>auto simp: step_safe_def advance_def split: if_splits\<close>)
qed

lemma pointers_step:
  assumes conf: "sm_configured sm" and reach: "machine_reach (node_code junk (quiet_calls nc)) (node_start sm) m"
    and J: "pointers_right nc (mc_pc m) (mc_shared m)" and step: "thread_step (node_code junk (quiet_calls nc)) t m = Some m'"
  shows "step_safe nc m'"
proof -
  have err: "mc_error m = None" and p: "mc_pc m t < length (node_code junk (quiet_calls nc) t)"
    and s: "instr_step t (node_code junk (quiet_calls nc) t ! mc_pc m t) m = Some m'"
    using step by (auto simp: thread_step_def split: if_splits)
  note facts = reached_manager [OF conf reach err]
  show ?thesis
  proof (cases t)
    case (Start k)
    then show ?thesis using start_step_safe [OF J err _ _ refl facts(1)] p s by (simp add: code_lengths)
  next
    case (Ending k)
    then show ?thesis using ending_step_safe [OF J err _ _ refl facts(2)] p s by (simp add: code_lengths)
  next
    case (Close j)
    then have c: "mc_pc m t < 3"
      "instr_step t ([Lock (), Act (finish_named (fst (nc_closes nc j)) (snd (nc_closes nc j))), Unlock ()] ! mc_pc m t) m = Some m'"
      using p s by (simp_all add: finishSession_code_def)
    show ?thesis
      by (rule locked_step_safe [OF J err c]) (auto simp: Close dest: pointers_same_finish finish_named_error)
  next
    case CloseAll
    then have c: "mc_pc m t < 3" "instr_step t ([Lock (), Act finish_all, Unlock ()] ! mc_pc m t) m = Some m'"
      using p s by (simp_all add: finishAllSessions_code_def)
    show ?thesis
      by (rule locked_step_safe [OF J err c]) (auto simp: CloseAll dest: pointers_same_finish_all finish_all_error)
  next
    case (Announce j)
    then show ?thesis using p by simp
  qed
qed

text \<open>
  Property C6. As long as no announcement of a process uses the pointer of a session, no thread
  uses a session object that is gone: a start sets up the object it has made, and the thread of a
  session finds its session in the manager until it has cleared it itself, whatever the other starts,
  closes and ends do in between, with the same names or others.
\<close>

theorem no_dangling_session:
  assumes "sm_configured sm" and "machine_reach (node_code junk (quiet_calls nc)) (node_start sm) m"
  shows "mc_error m \<noteq> Some (UB Dangling_pointer)"
proof -
  have "step_safe nc m"
    using assms(2)
  proof (induction rule: machine_reach.induct)
    case start
    show ?case by (simp add: step_safe_def machine_start_def node_start_def pointers_right_def pointer_needed_def)
  next
    case (step m t m')
    then have "mc_error m = None" by (auto simp: thread_step_def split: if_splits)
    then show ?case using step pointers_step [OF assms(1)] by (simp add: step_safe_def)
  next
    case (spurious m t)
    then show ?case by (simp add: step_safe_def wake_def)
  qed
  then show ?thesis by (simp add: step_safe_def)
qed

theorem no_dangling_session_witness:
  "\<exists>m. machine_run (node_code 0 (quiet_calls example_calls)) (two_starts @ replicate 6 (Ending 0))
       (machine_start (node_start example_manager)) = Some m \<and>
     mc_pc m (Ending 0) = 8 \<and> mc_error m \<noteq> Some (UB Dangling_pointer)"
proof -
  have "map_option (\<lambda>m. mc_pc m (Ending 0)) (machine_run (node_code 0 (quiet_calls example_calls)) (two_starts @ replicate 6 (Ending 0))
       (machine_start (node_start example_manager))) = Some 8"
    by code_simp
  then obtain m where m: "machine_run (node_code 0 (quiet_calls example_calls)) (two_starts @ replicate 6 (Ending 0))
       (machine_start (node_start example_manager)) = Some m" "mc_pc m (Ending 0) = 8"
    by (auto simp: map_option_eq_Some)
  from no_dangling_session [OF example_configured machine_run_reach [OF machine_reach.start m(1)]] m show ?thesis by blast
qed

end
