(* ===== verification/NodeErased.thy ===== *)
theory NodeErased
  imports NodePointers
begin

text \<open>
  What \<open>NodePointers\<close> leaves out: the announcement of a streaming process
  (\<open>ReMoLON/src/remotooclientpackets/SessionInfo.cpp\<close>) writes through the pointer \<open>getStreamSession\<close> has returned,
  after the manager's mutex was given back. The invariant below holds with announcements as well: it says which
  calls can have made the objects that are still in the lists, and that an object has its own name and owner by the
  time its thread clears it.
\<close>

section \<open>The objects that are left\<close>

definition cleared :: "'c node_calls \<Rightarrow> (node_thread \<Rightarrow> nat) \<Rightarrow> nat \<Rightarrow> bool" where
  "cleared nc pc k \<longleftrightarrow> 7 \<le> pc (Ending k) \<and> nc_forks nc k = Fork_parent"

definition objects_named :: "'c node_calls \<Rightarrow> (node_thread \<Rightarrow> nat) \<Rightarrow> 'c node_threads \<Rightarrow> bool" where
  "objects_named nc pc s \<longleftrightarrow>
     (\<forall>owner n k. nt_creator s owner n = Some k \<longrightarrow>
        owner = sc_owner (nc_starts nc k) \<and> n = sc_name (nc_starts nc k) \<and> 8 \<le> pc (Start k) \<and> \<not> cleared nc pc k \<and>
        (\<forall>x. live (nt_manager s) owner n = Some x \<longrightarrow>
           (9 \<le> pc (Start k) \<longrightarrow> ss_sessionName x = n) \<and> (10 \<le> pc (Start k) \<longrightarrow> ss_sessionOwner x = owner))) \<and>
     (\<forall>k. (nt_launched s k \<longrightarrow> 13 \<le> pc (Start k)) \<and> (1 \<le> pc (Ending k) \<longrightarrow> nt_launched s k))"

lemma objects_namedD:
  assumes "objects_named nc pc s"
  shows "nt_creator s owner n = Some k \<Longrightarrow>
      owner = sc_owner (nc_starts nc k) \<and> n = sc_name (nc_starts nc k) \<and> 8 \<le> pc (Start k) \<and> \<not> cleared nc pc k"
    "nt_creator s owner n = Some k \<Longrightarrow> live (nt_manager s) owner n = Some x \<Longrightarrow>
      (9 \<le> pc (Start k) \<longrightarrow> ss_sessionName x = n) \<and> (10 \<le> pc (Start k) \<longrightarrow> ss_sessionOwner x = owner)"
    "nt_launched s k \<Longrightarrow> 13 \<le> pc (Start k)"
    "1 \<le> pc (Ending k) \<Longrightarrow> nt_launched s k"
  using assms unfolding objects_named_def by blast+

lemma objects_namedI:
  assumes "\<And>owner n k. nt_creator s owner n = Some k \<Longrightarrow>
      owner = sc_owner (nc_starts nc k) \<and> n = sc_name (nc_starts nc k) \<and> 8 \<le> pc (Start k) \<and> \<not> cleared nc pc k"
    and "\<And>owner n k x. nt_creator s owner n = Some k \<Longrightarrow> live (nt_manager s) owner n = Some x \<Longrightarrow>
      (9 \<le> pc (Start k) \<longrightarrow> ss_sessionName x = n) \<and> (10 \<le> pc (Start k) \<longrightarrow> ss_sessionOwner x = owner)"
    and "\<And>k. nt_launched s k \<Longrightarrow> 13 \<le> pc (Start k)"
    and "\<And>k. 1 \<le> pc (Ending k) \<Longrightarrow> nt_launched s k"
  shows "objects_named nc pc s"
  using assms unfolding objects_named_def by blast

text \<open>What leaves the names of the objects and the threads of the sessions alone.\<close>

definition objects_same :: "'c node_threads \<Rightarrow> 'c node_threads \<Rightarrow> bool" where
  "objects_same s s' \<longleftrightarrow> nt_creator s' = nt_creator s \<and> nt_launched s' = nt_launched s \<and>
     (\<forall>owner n x'. live (nt_manager s') owner n = Some x' \<longrightarrow>
        (\<exists>x. live (nt_manager s) owner n = Some x \<and> ss_sessionName x' = ss_sessionName x \<and> ss_sessionOwner x' = ss_sessionOwner x))"

fun object_moves :: "'c node_calls \<Rightarrow> node_thread \<Rightarrow> nat \<Rightarrow> nat \<Rightarrow> bool" where
  "object_moves nc (Start k) p q \<longleftrightarrow> (8 \<le> p \<longrightarrow> 8 \<le> q \<and> (9 \<le> q \<longrightarrow> 9 \<le> p) \<and> (10 \<le> q \<longrightarrow> 10 \<le> p)) \<and> (13 \<le> p \<longrightarrow> 13 \<le> q)"
| "object_moves nc (Ending k) p q \<longleftrightarrow> (7 \<le> q \<and> nc_forks nc k = Fork_parent \<longrightarrow> 7 \<le> p) \<and> (1 \<le> q \<longrightarrow> 1 \<le> p)"
| "object_moves nc _ p q \<longleftrightarrow> True"

lemma objects_frame:
  assumes J: "objects_named nc pc s" and same: "objects_same s s'" and moves: "object_moves nc t (pc t) q"
  shows "objects_named nc (pc(t := q)) s'"
proof -
  let ?pc = "pc(t := q)"
  have s': "nt_creator s' = nt_creator s" "nt_launched s' = nt_launched s"
    "\<And>owner n x'. live (nt_manager s') owner n = Some x' \<Longrightarrow>
        \<exists>x. live (nt_manager s) owner n = Some x \<and> ss_sessionName x' = ss_sessionName x \<and> ss_sessionOwner x' = ss_sessionOwner x"
    using same by (auto simp: objects_same_def)
  have st: "8 \<le> pc (Start k) \<Longrightarrow> 8 \<le> ?pc (Start k) \<and> (9 \<le> ?pc (Start k) \<longrightarrow> 9 \<le> pc (Start k)) \<and>
      (10 \<le> ?pc (Start k) \<longrightarrow> 10 \<le> pc (Start k))" "13 \<le> pc (Start k) \<Longrightarrow> 13 \<le> ?pc (Start k)" for k
    using moves by (cases "t = Start k"; auto)+
  have en: "cleared nc ?pc k \<Longrightarrow> cleared nc pc k" "1 \<le> ?pc (Ending k) \<Longrightarrow> 1 \<le> pc (Ending k)" for k
    using moves by (cases "t = Ending k"; auto simp: cleared_def)+
  show ?thesis
  proof (rule objects_namedI)
    fix owner n k
    assume made: "nt_creator s' owner n = Some k"
    note old = objects_namedD(1) [OF J made [unfolded s'(1)]]
    then show "owner = sc_owner (nc_starts nc k) \<and> n = sc_name (nc_starts nc k) \<and> 8 \<le> ?pc (Start k) \<and> \<not> cleared nc ?pc k"
      using st(1) [of k] en(1) [of k] by blast
    fix x'
    assume "live (nt_manager s') owner n = Some x'"
    from s'(3) [OF this] obtain x where "live (nt_manager s) owner n = Some x" "ss_sessionName x' = ss_sessionName x"
      "ss_sessionOwner x' = ss_sessionOwner x" by blast
    then show "(9 \<le> ?pc (Start k) \<longrightarrow> ss_sessionName x' = n) \<and> (10 \<le> ?pc (Start k) \<longrightarrow> ss_sessionOwner x' = owner)"
      using objects_namedD(2) [OF J made [unfolded s'(1)]] st(1) [of k] old by simp
  qed (use objects_namedD(3,4) [OF J] st(2) en(2) in \<open>auto simp: s'(2)\<close>)
qed

lemma objects_same_refl [simp]: "objects_same s s"
  by (simp add: objects_same_def)

lemma objects_same_session:
  assumes "on_session c f s = (r, s')" and "\<And>x. ss_sessionName (f x) = ss_sessionName x" "\<And>x. ss_sessionOwner (f x) = ss_sessionOwner x"
  shows "objects_same s s'"
  using assms by (auto simp: on_session_def on_manager_def objects_same_def sm_simps update_live_def live_def um_find_set split: option.splits if_splits)

lemma objects_same_acts:
  "take_sockPort k s = (r, s') \<Longrightarrow> objects_same s s'"
  "take_rtcPort k s = (r, s') \<Longrightarrow> objects_same s s'"
  "mark_port c s = (r, s') \<Longrightarrow> objects_same s s'"
  "open_list owner s = (r, s') \<Longrightarrow> objects_same s s'"
  "send_status k g s = (r, s') \<Longrightarrow> objects_same s s'"
  "release_port x s = (r, s') \<Longrightarrow> objects_same s s'"
  "release_sockPort x s = (r, s') \<Longrightarrow> objects_same s s'"
  "release_rtcPort x s = (r, s') \<Longrightarrow> objects_same s s'"
  "look_up j a s = (r, s') \<Longrightarrow> objects_same s s'"
  "finish_all s = (r, s') \<Longrightarrow> objects_same s s'"
  by (auto simp: objects_same_def take_sockPort_def take_rtcPort_def on_manager_def mark_port_def open_list_def finish_all_def
      send_status_def release_port_def release_sockPort_def release_rtcPort_def look_up_def getStreamSession_eq sm_simps
      split: prod.splits option.splits if_splits sum.splits)

lemma objects_same_setters:
  "on_session c (setSessionOwnerAddress a) s = (r, s') \<Longrightarrow> objects_same s s'"
  "set_ports k c s = (r, s') \<Longrightarrow> objects_same s s'"
  unfolding set_ports_def
  by (erule objects_same_session; simp add: setSessionOwnerAddress_def setSessionPorts_def)+

lemma objects_same_finish: "finish_named owner n s = (r, s') \<Longrightarrow> objects_same s s'"
  using finishSession_state [of owner n "nt_manager s"]
  by (auto simp: finish_named_def objects_same_def sm_simps split: prod.splits sum.splits option.splits)

lemma objects_same_connect: "connect_found j c s = (r, s') \<Longrightarrow> objects_same s s'"
  by (auto simp: connect_found_def on_manager_def objects_same_def sm_simps update_live_def live_def setConnection_def um_find_set
      split: option.splits if_splits)

text \<open>
  The instructions that do more: an object is made, gets its name and its owner, its thread is started and begins,
  and the object is erased.
\<close>

lemma objects_create:
  assumes J: "objects_named nc pc s" and p: "pc (Start k) = 7" and act: "create_object junk k (nc_starts nc k) s = (Inr (), s')"
  shows "objects_named nc (pc(Start k := 8)) s'"
proof (rule objects_namedI)
  let ?o = "sc_owner (nc_starts nc k)" and ?n = "sc_name (nc_starts nc k)"
  have s': "nt_creator s' owner n = (if owner = ?o \<and> n = ?n then Some k else nt_creator s owner n)"
    "live (nt_manager s') owner n = (if owner = ?o \<and> n = ?n then Some (StreamingSession_new junk) else live (nt_manager s) owner n)"
    "nt_launched s' = nt_launched s" for owner n
    using act by (auto simp: create_object_def on_manager_def sm_simps update_live_def)
  have "\<not> nt_launched s k" using objects_namedD(3) [OF J, of k] p by auto
  then have new: "\<not> cleared nc pc k" using objects_namedD(4) [OF J, of k] by (auto simp: cleared_def)
  have c: "cleared nc (pc(Start k := 8)) k' = cleared nc pc k'" for k' by (simp add: cleared_def)
  show "owner = sc_owner (nc_starts nc k') \<and> n = sc_name (nc_starts nc k') \<and> 8 \<le> (pc(Start k := 8)) (Start k') \<and>
      \<not> cleared nc (pc(Start k := 8)) k'" if "nt_creator s' owner n = Some k'" for owner n k'
    using that objects_namedD(1) [OF J, of owner n k'] new by (auto simp: s' c split: if_splits)
  show "(9 \<le> (pc(Start k := 8)) (Start k') \<longrightarrow> ss_sessionName x = n) \<and>
      (10 \<le> (pc(Start k := 8)) (Start k') \<longrightarrow> ss_sessionOwner x = owner)"
    if "nt_creator s' owner n = Some k'" "live (nt_manager s') owner n = Some x" for owner n k' x
    using that objects_namedD(2) [OF J, of owner n k' x] by (auto simp: s' split: if_splits)
  show "13 \<le> (pc(Start k := 8)) (Start k')" if "nt_launched s' k'" for k'
    using that objects_namedD(3) [OF J, of k'] p by (auto simp: s')
  show "nt_launched s' k'" if "1 \<le> (pc(Start k := 8)) (Ending k')" for k'
    using that objects_namedD(4) [OF J, of k'] by (simp add: s')
qed

lemma objects_set:
  assumes J: "objects_named nc pc s" and p: "pc (Start k) = p" and act: "on_session (nc_starts nc k) f s = (Inr (), s')"
    and f: "p = 8 \<and> f = setSessionName (sc_name (nc_starts nc k)) \<or> p = 9 \<and> f = setSessionOwner (sc_owner (nc_starts nc k))"
  shows "objects_named nc (pc(Start k := Suc p)) s'"
proof (rule objects_namedI)
  let ?o = "sc_owner (nc_starts nc k)" and ?n = "sc_name (nc_starts nc k)"
  obtain y where y: "live (nt_manager s) ?o ?n = Some y"
    using act by (auto simp: on_session_def live_def split: option.splits)
  have s': "nt_creator s' = nt_creator s" "nt_launched s' = nt_launched s"
    "live (nt_manager s') owner n = (if owner = ?o \<and> n = ?n then Some (f y) else live (nt_manager s) owner n)" for owner n
    using act y by (auto simp: on_session_def on_manager_def sm_simps update_live_def live_def um_find_set split: option.splits)
  have c: "cleared nc (pc(Start k := Suc p)) k' = cleared nc pc k'" for k' by (simp add: cleared_def)
  show "owner = sc_owner (nc_starts nc k') \<and> n = sc_name (nc_starts nc k') \<and> 8 \<le> (pc(Start k := Suc p)) (Start k') \<and>
      \<not> cleared nc (pc(Start k := Suc p)) k'" if "nt_creator s' owner n = Some k'" for owner n k'
    using that objects_namedD(1) [OF J, of owner n k'] p f by (auto simp: s'(1) c)
  show "(9 \<le> (pc(Start k := Suc p)) (Start k') \<longrightarrow> ss_sessionName x = n) \<and>
      (10 \<le> (pc(Start k := Suc p)) (Start k') \<longrightarrow> ss_sessionOwner x = owner)"
    if "nt_creator s' owner n = Some k'" "live (nt_manager s') owner n = Some x" for owner n k' x
  proof -
    have made: "nt_creator s owner n = Some k'" using that(1) by (simp add: s'(1))
    note old = objects_namedD(1,2) [OF J made]
    show ?thesis
    proof (cases "owner = ?o \<and> n = ?n")
      case True
      then have "x = f y" "live (nt_manager s) owner n = Some y" using that(2) y by (auto simp: s'(3))
      then show ?thesis using old(2) f True p by (cases "k' = k") (auto simp: setSessionName_def setSessionOwner_def)
    next
      case False
      then show ?thesis using old that(2) by (cases "k' = k") (auto simp: s'(3))
    qed
  qed
  show "13 \<le> (pc(Start k := Suc p)) (Start k')" if "nt_launched s' k'" for k'
    using that objects_namedD(3) [OF J, of k'] p f by (auto simp: s'(2))
  show "nt_launched s' k'" if "1 \<le> (pc(Start k := Suc p)) (Ending k')" for k'
    using that objects_namedD(4) [OF J, of k'] by (simp add: s'(2))
qed

lemma objects_launch:
  assumes J: "objects_named nc pc s" and p: "pc (Start k) = 12" and act: "launch k (nc_starts nc k) s = (Inr (), s')"
  shows "objects_named nc (pc(Start k := 13)) s'"
proof (rule objects_namedI)
  have s': "nt_creator s' = nt_creator s" "nt_manager s' = nt_manager s"
    "nt_launched s' = (nt_launched s)(k := sc_thread (nc_starts nc k))"
    using act by (auto simp: launch_def tryLaunchSession_def)
  have old: "\<not> nt_launched s k" using objects_namedD(3) [OF J, of k] p by auto
  have c: "cleared nc (pc(Start k := 13)) k' = cleared nc pc k'" for k' by (simp add: cleared_def)
  show "owner = sc_owner (nc_starts nc k') \<and> n = sc_name (nc_starts nc k') \<and> 8 \<le> (pc(Start k := 13)) (Start k') \<and>
      \<not> cleared nc (pc(Start k := 13)) k'" if "nt_creator s' owner n = Some k'" for owner n k'
    using that objects_namedD(1) [OF J, of owner n k'] by (auto simp: s' c)
  show "(9 \<le> (pc(Start k := 13)) (Start k') \<longrightarrow> ss_sessionName x = n) \<and>
      (10 \<le> (pc(Start k := 13)) (Start k') \<longrightarrow> ss_sessionOwner x = owner)"
    if "nt_creator s' owner n = Some k'" "live (nt_manager s') owner n = Some x" for owner n k' x
    using that objects_namedD(2) [OF J, of owner n k' x] p by (auto simp: s')
  show "13 \<le> (pc(Start k := 13)) (Start k')" if "nt_launched s' k'" for k'
    using that objects_namedD(3) [OF J, of k'] by (auto simp: s')
  show "nt_launched s' k'" if "1 \<le> (pc(Start k := 13)) (Ending k')" for k'
    using that objects_namedD(4) [OF J, of k'] old by (auto simp: s')
qed

lemma objects_begin:
  assumes J: "objects_named nc pc s" and "pc (Ending k) = 0" and "nt_launched s k"
  shows "objects_named nc (pc(Ending k := 1)) s"
  using assms(2,3) objects_namedD [OF J]
  by (intro objects_namedI) (auto simp: cleared_def split: if_splits)

lemma um_find_erase_other: "k' \<noteq> k \<Longrightarrow> um_find (um_erase k m) k' = um_find m k'"
  by (induction k m rule: um_erase.induct) auto

text \<open>The thread of a session finds its own object; it has its name and its owner, so that the entry it is in goes.\<close>

lemma objects_erase:
  assumes J: "objects_named nc pc s" and p: "pc (Ending k) = 6"
    and act: "through_pointer k (nc_starts nc k) erase_session s = (Inr (), s')"
  shows "objects_named nc (pc(Ending k := 7)) s'"
proof (rule objects_namedI)
  let ?o = "sc_owner (nc_starts nc k)" and ?n = "sc_name (nc_starts nc k)"
  obtain x where x: "live (nt_manager s) ?o ?n = Some x" "nt_creator s ?o ?n = Some k" "erase_session x s = (Inr (), s')"
    using act by (auto simp: through_pointer_def live_def split: option.splits if_splits)
  have "nt_launched s k" using objects_namedD(4) [OF J, of k] p by simp
  then have named: "ss_sessionName x = ?n" "ss_sessionOwner x = ?o"
    using objects_namedD(2) [OF J x(2,1)] objects_namedD(3) [OF J, of k] by auto
  have "um_find (sessions_of ?o (nt_manager s)) ?n \<noteq> None" using x(1) by (simp add: live_def)
  then have "s' = s\<lparr>nt_creator := (nt_creator s)(?o := (nt_creator s ?o)(?n := None)),
      nt_manager := put_sessions ?o (um_erase ?n (sessions_of ?o (nt_manager s))) (nt_manager s)\<rparr>"
    using x(3) named by (auto simp: erase_session_def Let_def on_manager_def getSessionOwner_def getSessionName_def)
  then have s': "nt_creator s' owner n = (if owner = ?o \<and> n = ?n then None else nt_creator s owner n)" "nt_launched s' = nt_launched s"
    "\<not> (owner = ?o \<and> n = ?n) \<Longrightarrow> live (nt_manager s') owner n = live (nt_manager s) owner n" for owner n
    by (auto simp: live_put um_find_erase_other live_def)
  have other: "k' \<noteq> k" if "nt_creator s' owner n = Some k'" for owner n k'
    using that objects_namedD(1) [OF J, of owner n k'] by (auto simp: s'(1) split: if_splits)
  show "owner = sc_owner (nc_starts nc k') \<and> n = sc_name (nc_starts nc k') \<and> 8 \<le> (pc(Ending k := 7)) (Start k') \<and>
      \<not> cleared nc (pc(Ending k := 7)) k'" if "nt_creator s' owner n = Some k'" for owner n k'
    using that objects_namedD(1) [OF J, of owner n k'] other [OF that] by (auto simp: s'(1) cleared_def split: if_splits)
  show "(9 \<le> (pc(Ending k := 7)) (Start k') \<longrightarrow> ss_sessionName y = n) \<and>
      (10 \<le> (pc(Ending k := 7)) (Start k') \<longrightarrow> ss_sessionOwner y = owner)"
    if "nt_creator s' owner n = Some k'" "live (nt_manager s') owner n = Some y" for owner n k' y
    using that objects_namedD(2) [OF J, of owner n k' y] by (auto simp: s' split: if_splits)
  show "13 \<le> (pc(Ending k := 7)) (Start k')" if "nt_launched s' k'" for k'
    using that objects_namedD(3) [OF J, of k'] by (simp add: s'(2))
  show "nt_launched s' k'" if "1 \<le> (pc(Ending k := 7)) (Ending k')" for k'
    using that objects_namedD(4) [OF J, of k'] p by (simp add: s'(2) split: if_splits)
qed

section \<open>Every step keeps this\<close>

lemma objects_start_act:
  assumes J: "objects_named nc pc s" and p: "pc (Start k) < 19"
    and i: "startNewSession_code junk k (nc_starts nc k) ! pc (Start k) = Act f" and f: "f s = (Inr (), s')"
  shows "objects_named nc (pc(Start k := Suc (pc (Start k)))) s'"
proof -
  note frame = objects_frame [OF J, of s' "Start k" "Suc (pc (Start k))"]
  consider (create) "pc (Start k) = 7" | (set) "pc (Start k) \<in> {8, 9}" | (launch) "pc (Start k) = 12"
    | (same) "pc (Start k) \<in> {1, 2, 4, 5, 10, 11, 13, 15, 17}"
    using start_points [OF p] i by (elim insertE emptyE) (auto simp: startNewSession_code_def)
  then show ?thesis
  proof cases
    case create
    then have "create_object junk k (nc_starts nc k) s = (Inr (), s')" using i f by (simp add: startNewSession_code_def)
    from objects_create [OF J create this] show ?thesis by (simp add: create)
  next
    case set
    then show ?thesis
    proof (elim insertE emptyE)
      assume q: "pc (Start k) = 8"
      then have "on_session (nc_starts nc k) (setSessionName (sc_name (nc_starts nc k))) s = (Inr (), s')"
        using i f by (simp add: startNewSession_code_def)
      from objects_set [OF J q this] show ?thesis by (simp add: q)
    next
      assume q: "pc (Start k) = 9"
      then have "on_session (nc_starts nc k) (setSessionOwner (sc_owner (nc_starts nc k))) s = (Inr (), s')"
        using i f by (simp add: startNewSession_code_def)
      from objects_set [OF J q this] show ?thesis by (simp add: q)
    qed
  next
    case launch
    then have "launch k (nc_starts nc k) s = (Inr (), s')" using i f by (simp add: startNewSession_code_def)
    from objects_launch [OF J launch this] show ?thesis by (simp add: launch)
  next
    case same
    then have "objects_same s s'"
      using i f by (elim insertE emptyE) (auto simp: startNewSession_code_def intro: objects_same_acts objects_same_setters)
    from frame [OF this] same show ?thesis by auto
  qed
qed

lemma objects_ending_act:
  assumes J: "objects_named nc pc s" and p: "pc (Ending k) < 8"
    and i: "session_thread_code (nc_forks nc k) k (nc_starts nc k) ! pc (Ending k) = Act f" and f: "f s = (Inr (), s')"
  shows "objects_named nc (pc(Ending k := Suc (pc (Ending k)))) s'"
proof (cases "pc (Ending k) = 6")
  case True
  then have "through_pointer k (nc_starts nc k) erase_session s = (Inr (), s')" using i f by (simp add: session_thread_code_def)
  from objects_erase [OF J True this] show ?thesis by (simp add: True)
next
  case False
  then have q: "pc (Ending k) \<in> {3, 4, 5}"
    using ending_points [OF p] i by (elim insertE emptyE) (auto simp: session_thread_code_def)
  then have "through_pointer k (nc_starts nc k) release_port s = (Inr (), s') \<or>
      through_pointer k (nc_starts nc k) release_sockPort s = (Inr (), s') \<or>
      through_pointer k (nc_starts nc k) release_rtcPort s = (Inr (), s')"
    using i f by (auto simp: session_thread_code_def)
  then have "objects_same s s'" by (elim disjE) (auto dest!: through_pointerD intro: objects_same_acts)
  from objects_frame [OF J this, of "Ending k" "Suc (pc (Ending k))"] q show ?thesis by auto
qed

text \<open>An instruction that changes nothing but the point of its thread.\<close>

lemma objects_start_still:
  assumes "p < 19" and "i = startNewSession_code junk k c ! p" and "\<forall>f. i \<noteq> Act f"
  shows "still i \<and> (\<forall>s q. still_leads p i s q \<longrightarrow> object_moves nc (Start k) p q)"
  using start_points [OF assms(1)] assms(2,3)
  by (elim insertE emptyE) (simp_all add: startNewSession_code_def)

lemma objects_ending_still:
  assumes "p < 8" and "i = session_thread_code (nc_forks nc k) k c ! p" and "\<forall>f. i \<noteq> Act f"
  shows "still i \<and> (\<forall>s q. still_leads p i s q \<longrightarrow> (if p = 0 then q = 1 \<and> nt_launched s k else object_moves nc (Ending k) p q))"
  using ending_points [OF assms(1)] assms(2,3)
  by (elim insertE emptyE) (simp_all add: session_thread_code_def)

lemma objects_code_step:
  assumes J: "objects_named nc (mc_pc m) (mc_shared m)" and s: "instr_step t i m = Some m'" and ok: "mc_error m' = None"
    and act: "\<And>f s'. i = Act f \<Longrightarrow> f (mc_shared m) = (Inr (), s') \<Longrightarrow> objects_named nc ((mc_pc m)(t := Suc (mc_pc m t))) s'"
    and still: "\<forall>f. i \<noteq> Act f \<Longrightarrow> still i \<and> (\<forall>q. still_leads (mc_pc m t) i (mc_shared m) q \<longrightarrow>
        objects_named nc ((mc_pc m)(t := q)) (mc_shared m))"
  shows "objects_named nc (mc_pc m') (mc_shared m')"
proof (cases "\<exists>f. i = Act f")
  case True
  then obtain f where f: "i = Act f" by blast
  obtain r s' where r: "f (mc_shared m) = (r, s')" by fastforce
  show ?thesis
  proof (cases r)
    case (Inl e)
    then show ?thesis using s ok by (auto simp: f r)
  next
    case (Inr u)
    then have "f (mc_shared m) = (Inr (), s')" using r by simp
    then show ?thesis using act [OF f] instr_act [OF s [unfolded f]] by simp
  qed
next
  case False
  then show ?thesis using still instr_still [OF s] by auto
qed

lemma objects_locked_step:
  assumes J: "objects_named nc (mc_pc m) (mc_shared m)" and s: "instr_step t i m = Some m'" and ok: "mc_error m' = None"
    and free: "\<And>p q. object_moves nc t p q"
    and same: "\<And>f r s'. i = Act f \<Longrightarrow> f (mc_shared m) = (r, s') \<Longrightarrow> objects_same (mc_shared m) s'"
    and still: "\<forall>f. i \<noteq> Act f \<Longrightarrow> still i"
  shows "objects_named nc (mc_pc m') (mc_shared m')"
  by (rule objects_code_step [OF J s ok])
    (use objects_frame [OF J _ free] same still objects_same_refl in \<open>blast+\<close>)

lemma objects_step:
  assumes J: "objects_named nc (mc_pc m) (mc_shared m)" and step: "thread_step (node_code junk nc) t m = Some m'"
    and ok: "mc_error m' = None"
  shows "objects_named nc (mc_pc m') (mc_shared m')"
proof -
  have p: "mc_pc m t < length (node_code junk nc t)" and s: "instr_step t (node_code junk nc t ! mc_pc m t) m = Some m'"
    using step by (auto simp: thread_step_def split: if_splits)
  show ?thesis
  proof (cases t)
    case (Start k)
    then have q: "mc_pc m (Start k) < 19" using p by (simp add: code_lengths)
    show ?thesis
    proof (rule objects_code_step [OF J s ok])
      show "objects_named nc ((mc_pc m)(t := Suc (mc_pc m t))) s'"
        if "node_code junk nc t ! mc_pc m t = Act f" "f (mc_shared m) = (Inr (), s')" for f s'
        using objects_start_act [OF J q that(1) [unfolded Start node_code.simps] that(2)] by (simp add: Start)
      show "still (node_code junk nc t ! mc_pc m t) \<and> (\<forall>q. still_leads (mc_pc m t) (node_code junk nc t ! mc_pc m t) (mc_shared m) q \<longrightarrow>
          objects_named nc ((mc_pc m)(t := q)) (mc_shared m))" if "\<forall>f. node_code junk nc t ! mc_pc m t \<noteq> Act f"
        using objects_start_still [OF q refl that [unfolded Start node_code.simps], of nc] objects_frame [OF J objects_same_refl, of "Start k"]
        unfolding Start node_code.simps by blast
    qed
  next
    case (Ending k)
    then have q: "mc_pc m (Ending k) < 8" using p by (simp add: code_lengths)
    have moved: "objects_named nc ((mc_pc m)(Ending k := q')) (mc_shared m)"
      if "if mc_pc m (Ending k) = 0 then q' = 1 \<and> nt_launched (mc_shared m) k else object_moves nc (Ending k) (mc_pc m (Ending k)) q'" for q'
      using that objects_begin [OF J, of k] objects_frame [OF J objects_same_refl, of "Ending k" q'] by (auto split: if_splits)
    show ?thesis
    proof (rule objects_code_step [OF J s ok])
      show "objects_named nc ((mc_pc m)(t := Suc (mc_pc m t))) s'"
        if "node_code junk nc t ! mc_pc m t = Act f" "f (mc_shared m) = (Inr (), s')" for f s'
        using objects_ending_act [OF J q that(1) [unfolded Ending node_code.simps] that(2)] by (simp add: Ending)
      show "still (node_code junk nc t ! mc_pc m t) \<and> (\<forall>q. still_leads (mc_pc m t) (node_code junk nc t ! mc_pc m t) (mc_shared m) q \<longrightarrow>
          objects_named nc ((mc_pc m)(t := q)) (mc_shared m))" if "\<forall>f. node_code junk nc t ! mc_pc m t \<noteq> Act f"
        using objects_ending_still [OF q refl that [unfolded Ending node_code.simps]] moved
        unfolding Ending node_code.simps by blast
    qed
  next
    case (Close j)
    show ?thesis
      by (rule objects_locked_step [OF J s ok])
        (use Close p in \<open>auto simp: finishSession_code_def nth_Cons' less_Suc_eq split: if_splits intro: objects_same_finish\<close>)
  next
    case CloseAll
    show ?thesis
      by (rule objects_locked_step [OF J s ok])
        (use CloseAll p in \<open>auto simp: finishAllSessions_code_def nth_Cons' less_Suc_eq split: if_splits intro: objects_same_acts\<close>)
  next
    case (Announce j)
    then obtain c where c: "nc_announces nc j = Some c" using p by (auto split: option.splits)
    show ?thesis
      by (rule objects_locked_step [OF J s ok])
        (use Announce c p in \<open>auto simp: SessionInfo_code_def nth_Cons' less_Suc_eq split: if_splits intro: objects_same_acts objects_same_connect\<close>)
  qed
qed

lemma objects_reach:
  assumes "machine_reach (node_code junk nc) (node_start sm) m" and "mc_error m = None"
  shows "objects_named nc (mc_pc m) (mc_shared m)"
  using assms
proof (induction rule: machine_reach.induct)
  case start
  show ?case by (simp add: machine_start_def node_start_def objects_named_def)
next
  case (step m t m')
  then have "mc_error m = None" by (auto simp: thread_step_def split: if_splits)
  then show ?case using step objects_step by blast
next
  case (spurious m t)
  then show ?case by (simp add: wake_def)
qed

text \<open>
  Property C18. The pointer \<open>getStreamSession\<close> returns is used without the mutex. Whatever the calls and their
  interleaving: if an announcement has found the session that call \<open>k\<close> has started and has not written its connection
  yet, and the thread of that session has cleared it meanwhile, then the next step of the announcement writes into an
  object that is gone, though a session of the same name may have been started since.
\<close>

theorem announcement_uses_erased_session:
  assumes "machine_reach (node_code junk nc) (node_start sm) m" and "mc_error m = None"
    and "nc_announces nc j = Some c" and "mc_pc m (Announce j) = 2" and "nt_found (mc_shared m) j = Some k"
    and "mc_pc m (Ending k) = 8" and "nc_forks nc k = Fork_parent"
  shows "\<exists>m'. thread_step (node_code junk nc) (Announce j) m = Some m' \<and> mc_error m' = Some (UB Dangling_pointer)"
proof -
  have "nt_creator (mc_shared m) owner n \<noteq> Some k" for owner n
    using objects_namedD(1) [OF objects_reach [OF assms(1,2)], of owner n k] assms(6,7) by (auto simp: cleared_def)
  then have "connect_found j c (mc_shared m) = (Inl (UB Dangling_pointer), mc_shared m)"
    using assms(5) by (simp add: connect_found_def split: option.split)
  then show ?thesis using assms(2-4) by (simp add: thread_step_def SessionInfo_code_def numeral_2_eq_2)
qed

theorem announcement_uses_erased_session_witness:
  "\<exists>m m'. machine_run (node_code 0 example_calls) (replicate 16 (Start 0) @ [Announce 0, Announce 0] @ replicate 8 (Ending 0))
       (machine_start (node_start example_manager)) = Some m \<and>
     thread_step (node_code 0 example_calls) (Announce 0) m = Some m' \<and> mc_error m' = Some (UB Dangling_pointer)"
proof -
  have "map_option (\<lambda>m. (mc_error m, mc_pc m (Announce 0), nt_found (mc_shared m) 0, mc_pc m (Ending 0)))
      (machine_run (node_code 0 example_calls) (replicate 16 (Start 0) @ [Announce 0, Announce 0] @ replicate 8 (Ending 0))
       (machine_start (node_start example_manager))) = Some (None, 2, Some 0, 8)"
    by code_simp
  then obtain m where m: "machine_run (node_code 0 example_calls) (replicate 16 (Start 0) @ [Announce 0, Announce 0] @ replicate 8 (Ending 0))
       (machine_start (node_start example_manager)) = Some m"
      "mc_error m = None" "mc_pc m (Announce 0) = 2" "nt_found (mc_shared m) 0 = Some 0" "mc_pc m (Ending 0) = 8"
    by (auto simp: map_option_eq_Some)
  from announcement_uses_erased_session [OF machine_run_reach [OF machine_reach.start m(1)] m(2) _ m(3-5)] m(1)
  show ?thesis by (auto simp: example_calls_def)
qed

end
