(* ===== verification/Spec2Isabelle.thy ===== *)
theory Spec2Isabelle
  imports Daemons SelectorRun Http Xinitrc BufferOps Pam Opening ClientProgress ServerThreads CreateProgress NodeErased
begin

text \<open>
  \<^bold>\<open>ReMoLON\<close>

  ReMoLON is two C++ daemons and the library they share. The front end (\<open>ReMoLON_FrontEnd\<close>) serves
  the web pages on which users log in and manage their streaming sessions, and keeps the register
  of the visualization nodes. A node (\<open>ReMoLON\<close>) owns tables of ports and the streaming sessions
  that run on it. A node connects to the front end as a client, announces its ports, and executes
  the start and close requests the front end sends; \<open>ReMoLON_Util\<close> has the buffers, packets,
  connections and threads both are built on, and \<open>ReMoLON_xinitrc_writter\<close> is the program a session
  starts with. All paths below are under \<open>src/\<close>.

  \<^bold>\<open>Theories and the code they model\<close>

  The library, \<open>ReMoLON_Util\<close>:
  \<^item> \<open>Prelude\<close>: errors (\<open>cpp_error\<close>: exceptions, and undefined behaviour as the value \<open>UB\<close>), programs with
    state and exceptions (\<open>('s, 'a) sx\<close>: the state is returned with the error too), \<open>std::size_t\<close> with
    its wrap-around, \<open>std::unordered_map\<close> as an association list in iteration order, \<open>std::to_string\<close>.
  \<^item> \<open>ByteBuffer\<close> (\<open>ByteBuffer.h\<close>, \<open>ByteBuffer.cpp\<close>): the array, its two cursors and every operation.
    The locales \<open>wire_codec\<close> and \<open>fixed_codec\<close> state what a pair of a write and a read promises; each
    of the seven pairs interprets one of them. \<open>BufferOps\<close>: the runs of any operations on a buffer, cursors and
    \<open>resize\<close> included.
  \<^item> \<open>Packet\<close> (\<open>Packet.h\<close>, \<open>Packet.cpp\<close>): \<open>writePacket\<close> and the typed accesses through the buffer pointer;
    the calculus of packet contents (\<open>writes_bytes\<close>, \<open>reads_bytes\<close>) the packet classes are verified with.
  \<^item> \<open>PacketHandler\<close> (\<open>PacketHandler.h\<close>, \<open>PacketHandler.cpp\<close>): the factory table and \<open>handlePacket\<close>; the
    locale \<open>frame_protocol\<close> is the contract between a sent class and the class that receives it.
  \<^item> \<open>Fifo\<close>: the locale \<open>fifo_queue\<close>, the contract of a queue, interpreted on the send queue of a
    \<open>Connection\<close> (\<open>Connection.h\<close>, \<open>Connection.cpp\<close>), the task queue of the \<open>ThreadPool\<close>
    (\<open>ThreadPool.h\<close>) and the execution queue of the \<open>Client\<close> (\<open>Client.h\<close>, \<open>Client.cpp\<close>).
  \<^item> \<open>Sockets\<close>: what the loops over sockets share. \<open>Selector\<close> (\<open>SelectorThread.h\<close>, \<open>SelectorThread.cpp\<close>):
    reading, writing and a round over the polled sockets; \<open>SelectorRun\<close>: the runs of such a thread,
    with what other threads do to it. \<open>Server\<close> (\<open>Server.h\<close>, \<open>Server.cpp\<close>): accepting and assigning.
  \<^item> \<open>Opening\<close>: the constructors of both classes of connections, the connecting, closing and destruction
    of both classes of clients, the listening, accepting and ending of both classes of servers, with
    the calls of Poco as the record \<open>net_ops\<close> of functions that may throw.
  \<^item> \<open>Threads\<close>: machines of threads that interleave instruction by instruction, with mutexes and
    condition variables and their spurious wakeups, an exception out of a thread ending the program;
    the locale \<open>monitor_discipline\<close> is the contract of a monitor. \<open>ClientThreads\<close> is the client as such
    a machine (its three loops, \<open>sendPacket\<close>, \<open>close\<close>; a packet's action runs under the mutex of the executing
    loop and takes that of the sending one for each packet it sends), \<open>ClientProgress\<close> its freedom from deadlock, \<open>ServerThreads\<close> the pool and the selector
    thread's loop; each of their four monitors interprets the locale, and so does the lock
    of a user in \<open>CreateThreads\<close>. \<open>Sections\<close>: the locale \<open>atomic_sections\<close>, the contract under which the
    operations that run under one mutex are atomic: those whose section is behind them, each once, have had
    their effects in some order.
  \<^item> \<open>Config\<close> (\<open>Config.h\<close>, \<open>Config.cpp\<close>): loading a file and reading properties.

  The node, \<open>ReMoLON\<close>:
  \<^item> \<open>PortPool\<close>: tables of ports, with the locale \<open>slot_pool\<close>, interpreted on the table both daemons use.
  \<^item> \<open>StreamingSession\<close>, \<open>SessionManager\<close>: the sessions and the three port tables; \<open>sm_step\<close> is one
    operation of the manager and \<open>sm_reachable\<close> its runs from a configured state. \<open>NodeThreads\<close>: the same
    operations as instructions of a machine of \<open>Threads\<close>, with the threads of the sessions;
    \<open>NodeAtomic\<close> interprets \<open>monitor_discipline\<close> and \<open>atomic_sections\<close> on them (what the mutex protects is the
    manager, with the results and the requests to finish that are sent under it), \<open>NodePointers\<close> and \<open>NodeErased\<close> follow the
    pointers to session objects, without and with the announcements.
  \<^item> \<open>NodePackets\<close>: the packet classes of a node and their actions. \<open>NodeSetup\<close>: \<open>Node::initialize\<close>.
  \<^item> \<open>Xinitrc\<close>: the program that writes the session's script and its call by the session's process.

  The front end, \<open>ReMoLON_FrontEnd\<close>:
  \<^item> \<open>VisualizationNode\<close>: a node as the front end sees it, and the register of nodes.
  \<^item> \<open>Users\<close>: \<open>User\<close>, \<open>UserManager\<close>; \<open>Pam\<close>: the conversation with PAM.
  \<^item> \<open>SessionTracker\<close>: the sessions of all users; \<open>fe_step\<close> and \<open>fe_reachable\<close> are the runs of the front end.
    \<open>FrontPackets\<close>: its packet classes.
    \<open>CreateThreads\<close>: calls of \<open>tryCreateSession\<close> that interleave, a machine of \<open>Threads\<close>;
    \<open>CreateProgress\<close>: how long they take.
  \<^item> \<open>Http\<close>: \<open>RequestManager\<close>, the five action handlers and \<open>XmlBuilder\<close>.

  The whole: \<open>Protocol\<close> has the packet classes each side registers and the interpretations of
  \<open>frame_protocol\<close> for every pair of classes; \<open>System\<close> joins a selector thread of the front end and
  the client of a node through the bytes they exchange; \<open>Daemons\<close> has \<open>main\<close> of both programs.

  An object is a record named after its class; a member function is a definition of the same name
  (prefixed where two classes share it). A shared object reached through a singleton is a part of
  the state the calling definition is given.

  Concurrency is modelled at two grains. In the theories of the components every operation is one
  step, and interleavings are sequences of operations (\<open>fifo_run\<close>, \<open>tp_run\<close>, \<open>se_reachable\<close>,
  \<open>sm_reachable\<close>, \<open>fe_reachable\<close>). In \<open>ClientThreads\<close>, \<open>ServerThreads\<close>, \<open>CreateThreads\<close> and \<open>NodeThreads\<close> an operation is
  a list of instructions: taking and giving back a mutex, waiting, notifying, testing, and the
  steps between them; what runs under another object's own mutex is one step. The steps call the
  definitions of the components, so both grains rest on one model of what the code does.

  Integers have their width: \<open>8 word\<close>, \<open>16 word\<close>, \<open>32 word\<close>, \<open>64 word\<close>.
  An argument \<open>junk\<close> is a member the constructor leaves unset.

  \<^bold>\<open>What is shown\<close>

  Each property is a theorem of its component's theory, under the number its text gives.
  \<^item> Invariants: live sessions of a node never share a port; open sessions of the front end each
    have a slot of their own; the pool starts tasks in order; connections are queues, and a selector
    thread polls each for what it needs.
  \<^item> Interleavings: no loop of a client, of a pool or of a selector thread sleeps on while it has work
    and nobody is about to notify it; the executing loop gets to its next packet; a client whose
    threads cannot go on is idle; the shutdown of a pool can miss a worker that is about to sleep; calls that create sessions all return after a bounded number of
    steps, never take one slot twice, and keep names apart as far as their lock does. The
    instructions of such a call, alone, are the operation of the coarser grain. On a node the operations
    of the coarser grain are what the instructions amount to in any interleaving, announcements apart,
    whose use of an unlocked pointer is shown to go wrong, as is a signal that comes inside the mutex.
  \<^item> Functional behaviour on every branch: starting, creating and closing sessions, choosing nodes,
    logging in, web requests, framing and delivery of packets, reading and writing of connections.
  \<^item> Types: no sequence of operations makes a buffer ill-formed, and only an overlapping \<open>compact\<close> and a \<open>resize\<close>
    below the bytes in use are undefined.
  \<^item> Refinement and round trips: the writes of a buffer append encodings the reads decode; every
    request arrives as it was written; an announcement registers a node with the ports it has;
    the configuration of a node is what the front end knows after the node has started; accepting with
    handshakes that fail is the accept loop on what they made of the sockets.
  \<^item> Where the code goes wrong, the theorem says how: lost packets, ports and slots that are never
    free again, a loop that does not end, undefined behaviour, notifications that miss a loop, a
    pointer used after its object is gone, objects that cannot be ended.

  \<^bold>\<open>Loops and bounds\<close>

  Loops over data are structural recursions or functions with a termination proof. The loop of
  \<open>SessionTracker::tryCreateSession\<close> may not end; it is a \<open>partial_function\<close>, and both are proved:
  that it returns from every consistent state, and from which states it does not. The endless
  loops of threads run on the list of what their socket calls return and stop where they would wait;
  as instructions of a machine they run as long as the schedule does.
  No definition uses fuel.

  \<^bold>\<open>What is not modelled\<close>

  Poco's sockets, poll sets, HTTP server and TLS, PAM and the password database are arguments of the
  definitions, with what a theorem needs of them as its hypothesis; \<open>sendBytes\<close> sends
  everything or, in \<open>ClientThreads\<close>, may throw. \<open>fork\<close>, \<open>execve\<close> and signals are not run: the command a session executes is
  modelled as data, a signal only by what its handler's first instruction can do, and the end of the process as the step that clears the session. Memory other
  than a buffer's array is not modelled but for pointers that are null, unset or freed. Unlocked
  reads and writes of one variable are atomic steps in some order, so what a data race may do beyond
  that is not shown; nor is the absence of deadlock between the mutexes of different objects (of the two mutexes of one
  client it is). The left shifts of negative bytes in the reads of a buffer, undefined in C++14, have the meaning the
  compilers document; \<open>shifts_negative\<close> says which values rest on it.
  Singletons, plain accessors, messages to the console, the build files and the pages of the
  browser (\<open>client\<close>) have no definition.
\<close>

end
